(* ===== verification/Prelude.thy ===== *)
theory Prelude
  imports
    Main
    "HOL-Library.Word"
    "HOL-Library.Product_Lexorder"
    "HOL-Library.Option_ord"
    "HOL-Library.List_Lexorder"
    "HOL-Library.Char_ord"
    "HOL-Library.Multiset"
begin

text \<open>
  What the components share: the machine integers and the checked operations of the Rust
  standard library that the sources use, ordered containers (\<open>BTreeSet\<close> as a set that is
  iterated in increasing order, \<open>BTreeMap\<close> as an association list with strictly
  increasing keys), stable sorting, and generic lemmas on lists, options and words.
\<close>

unbundle bit_operations_syntax

named_theorems layout_simps \<open>arithmetic of tables and rule priorities\<close>
named_theorems btm_simps \<open>laws of ordered maps\<close>
named_theorems wf_intros \<open>preservation of well-formedness\<close>

section \<open>Machine integers\<close>

type_synonym u8 = "8 word"
type_synonym u16 = "16 word"
type_synonym u32 = "32 word"
type_synonym u64 = "64 word"
type_synonym u128 = "128 word"

text \<open>Rust's \<open>saturating_add\<close> and \<open>checked_sub\<close> on unsigned integers.\<close>

definition saturating_add :: "'a::len word \<Rightarrow> 'a word \<Rightarrow> 'a word" where
  "saturating_add a b = (if unat a + unat b < 2 ^ LENGTH('a) then a + b else - 1)"

definition checked_sub :: "'a::len word \<Rightarrow> 'a word \<Rightarrow> 'a word option" where
  "checked_sub a b = (if b \<le> a then Some (a - b) else None)"

text \<open>Membership in \<open>lo..=hi\<close>.\<close>

definition in_range :: "'a::linorder \<Rightarrow> 'a \<Rightarrow> 'a \<Rightarrow> bool" where
  "in_range lo hi x \<longleftrightarrow> lo \<le> x \<and> x \<le> hi"

lemma unat_saturating_add:
  "unat (saturating_add a b) = min (unat a + unat b) (2 ^ LENGTH('a) - 1)"
  for a b :: "'a::len word"
proof -
  have "unat (- 1 :: 'a word) = 2 ^ LENGTH('a) - 1"
    by (simp add: unsigned_minus_1_eq_mask mask_eq_exp_minus_1)
  then show ?thesis
    by (auto simp: saturating_add_def unat_word_ariths)
qed

lemma unat_add_no_overflow:
  "unat a + unat b < 2 ^ LENGTH('a) \<Longrightarrow> unat (a + b) = unat a + unat b"
  for a b :: "'a::len word"
  by (simp add: unat_word_ariths)

lemma unat_of_nat_small: "n < 2 ^ LENGTH('a) \<Longrightarrow> unat (of_nat n :: 'a::len word) = n"
  by (simp add: unat_of_nat)

lemma unat_u8_le: "unat (a :: u8) \<le> 255"
proof -
  have "unat a < 2 ^ LENGTH(8)" by (rule unsigned_less)
  then show ?thesis by simp
qed

lemma word_le_iff_unat: "a \<le> b \<longleftrightarrow> unat a \<le> unat b"
  by (rule word_le_nat_alt)

lemma word_less_iff_unat: "a < b \<longleftrightarrow> unat a < unat b"
  by (rule word_less_nat_alt)

section \<open>Lists and options\<close>

lemma find_Some_iff_mem: "find P xs = Some x \<Longrightarrow> x \<in> set xs \<and> P x"
  by (induction xs) (auto split: if_splits)

lemma find_None_iff_mem: "find P xs = None \<longleftrightarrow> (\<forall>x\<in>set xs. \<not> P x)"
  by (induction xs) auto

text \<open>The first index whose element satisfies \<open>P\<close> (\<open>Iterator::position\<close>).\<close>

fun position :: "('a \<Rightarrow> bool) \<Rightarrow> 'a list \<Rightarrow> nat option" where
  "position P [] = None"
| "position P (x # xs) = (if P x then Some 0 else map_option Suc (position P xs))"

lemma position_SomeD:
  "position P xs = Some i \<Longrightarrow> i < length xs \<and> P (xs ! i) \<and> (\<forall>j<i. \<not> P (xs ! j))"
proof (induction xs arbitrary: i)
  case Nil
  then show ?case by simp
next
  case (Cons x xs)
  show ?case
  proof (cases "P x")
    case True
    with Cons.prems show ?thesis by simp
  next
    case False
    with Cons.prems obtain k where k: "position P xs = Some k" "i = Suc k"
      by auto
    from Cons.IH [OF k(1)] False k(2) show ?thesis
      by (auto simp: less_Suc_eq_0_disj)
  qed
qed

lemma position_None_iff: "position P xs = None \<longleftrightarrow> (\<forall>x\<in>set xs. \<not> P x)"
  by (induction xs) auto

text \<open>\<open>Vec::remove\<close> at a valid index.\<close>

definition remove_at :: "nat \<Rightarrow> 'a list \<Rightarrow> 'a list" where
  "remove_at i xs = take i xs @ drop (Suc i) xs"

section \<open>Text\<close>

text \<open>
  A \<open>String\<close> is the list of its UTF-8 bytes. The functions below are those of the
  standard library that the sources call: decimal \<open>Display\<close> and \<open>parse\<close> of
  unsigned integers, and \<open>str::trim\<close>, which strips the encodings of the Unicode
  white-space characters.
\<close>

definition is_ascii_digit :: "char \<Rightarrow> bool" where
  "is_ascii_digit c \<longleftrightarrow> 48 \<le> (of_char c :: nat) \<and> (of_char c :: nat) \<le> 57"

definition digit_char :: "nat \<Rightarrow> char" where
  "digit_char n = char_of (48 + n)"

fun show_nat :: "nat \<Rightarrow> string" where
  "show_nat n = (if n < 10 then [digit_char n] else show_nat (n div 10) @ [digit_char (n mod 10)])"

declare show_nat.simps [simp del]

definition digits_value :: "string \<Rightarrow> nat" where
  "digits_value s = foldl (\<lambda>a c. 10 * a + (of_char c - 48)) 0 s"

definition parse_decimal :: "nat \<Rightarrow> string \<Rightarrow> nat option" where
  "parse_decimal limit s =
     (if s \<noteq> [] \<and> list_all is_ascii_digit s \<and> digits_value s < limit then Some (digits_value s)
      else None)"

definition white_space :: "string list" where
  "white_space =
     map (\<lambda>n. [char_of n]) [9 :: nat, 10, 11, 12, 13, 32]
     @ map (map char_of)
         ([[0xc2, 0x85], [0xc2, 0xa0], [0xe1, 0x9a, 0x80]]
          @ map (\<lambda>n. [0xe2, 0x80, n]) [0x80 ..< 0x8b]
          @ [[0xe2, 0x80, 0xa8], [0xe2, 0x80, 0xa9], [0xe2, 0x80, 0xaf], [0xe2, 0x81, 0x9f],
             [0xe3, 0x80, 0x80 :: nat]])"

definition strip_one :: "string list \<Rightarrow> string \<Rightarrow> string option" where
  "strip_one ws s =
     map_option (\<lambda>w. drop (length w) s) (find (\<lambda>w. w \<noteq> [] \<and> take (length w) s = w) ws)"

lemma strip_one_shorter: "strip_one ws s = Some t \<Longrightarrow> length t < length s"
  by (cases s) (auto simp: strip_one_def dest: find_Some_iff_mem)

function trim_with :: "string list \<Rightarrow> string \<Rightarrow> string" where
  "trim_with ws s = (case strip_one ws s of None \<Rightarrow> s | Some t \<Rightarrow> trim_with ws t)"
  by pat_completeness auto
termination
  by (relation "measure (length \<circ> snd)") (auto dest: strip_one_shorter)

declare trim_with.simps [simp del]

definition trim :: "string \<Rightarrow> string" where
  "trim s = rev (trim_with (map rev white_space) (rev (trim_with white_space s)))"

lemma of_char_digit_char [simp]: "n < 10 \<Longrightarrow> of_char (digit_char n) = (48 + n :: nat)"
  by (simp add: digit_char_def of_char_of)

lemma is_ascii_digit_digit_char [simp]: "n < 10 \<Longrightarrow> is_ascii_digit (digit_char n)"
  by (simp add: is_ascii_digit_def)

lemma show_nat_digits [simp]: "list_all is_ascii_digit (show_nat n)"
proof (induction n rule: show_nat.induct)
  case (1 n)
  then show ?case by (subst show_nat.simps) auto
qed

lemma show_nat_nonempty [simp]: "show_nat n \<noteq> []"
  by (subst show_nat.simps) simp

lemma digits_value_show_nat [simp]: "digits_value (show_nat n) = n"
proof (induction n rule: show_nat.induct)
  case (1 n)
  show ?case
  proof (cases "n < 10")
    case True
    then show ?thesis by (subst show_nat.simps) (simp add: digits_value_def)
  next
    case False
    with 1 have "digits_value (show_nat (n div 10)) = n div 10" by simp
    with False show ?thesis
      by (subst show_nat.simps) (simp add: digits_value_def)
  qed
qed

lemma parse_decimal_show_nat: "parse_decimal limit (show_nat n) = (if n < limit then Some n else None)"
  by (simp add: parse_decimal_def)

lemma strip_one_None_if:
  assumes "s \<noteq> []" and "\<forall>w\<in>set ws. w \<noteq> [] \<longrightarrow> hd w \<noteq> hd s"
  shows "strip_one ws s = None"
proof -
  have "\<not> (w \<noteq> [] \<and> take (length w) s = w)" if "w \<in> set ws" for w
    using assms that by (metis hd_take length_greater_0_conv)
  then show ?thesis by (simp add: strip_one_def find_None_iff_mem)
qed

section \<open>Ordered sets and stable sorting\<close>

text \<open>The elements of a \<open>BTreeSet\<close> in iteration order.\<close>

abbreviation iter_set :: "'a::linorder set \<Rightarrow> 'a list" where
  "iter_set \<equiv> sorted_list_of_set"

text \<open>\<open>slice::sort_by_key\<close> is stable, as \<^const>\<open>sort_key\<close> is.\<close>

lemma sort_key_before:
  assumes "i < j" "j < length (sort_key f xs)"
  shows "f (sort_key f xs ! i) \<le> f (sort_key f xs ! j)"
proof -
  have "sorted (map f (sort_key f xs))" by simp
  with assms show ?thesis
    by (auto simp: sorted_iff_nth_mono less_imp_le)
qed

section \<open>Ordered maps\<close>

text \<open>
  A \<open>BTreeMap\<close> is the association list of its entries in increasing key order.
\<close>

type_synonym ('k, 'v) btree_map = "('k \<times> 'v) list"

definition btm_wf :: "('k::linorder, 'v) btree_map \<Rightarrow> bool" where
  "btm_wf m \<longleftrightarrow> sorted_wrt (<) (map fst m)"

definition btm_get :: "('k, 'v) btree_map \<Rightarrow> 'k \<Rightarrow> 'v option" where
  "btm_get m k = map_of m k"

fun btm_insert :: "'k::linorder \<Rightarrow> 'v \<Rightarrow> ('k, 'v) btree_map \<Rightarrow> ('k, 'v) btree_map" where
  "btm_insert k v [] = [(k, v)]"
| "btm_insert k v (e # m) =
     (if k < fst e then (k, v) # e # m
      else if fst e < k then e # btm_insert k v m
      else (k, v) # m)"

definition btm_remove :: "'k \<Rightarrow> ('k, 'v) btree_map \<Rightarrow> ('k, 'v) btree_map" where
  "btm_remove k m = filter (\<lambda>e. fst e \<noteq> k) m"

definition btm_retain :: "('k \<Rightarrow> 'v \<Rightarrow> bool) \<Rightarrow> ('k, 'v) btree_map \<Rightarrow> ('k, 'v) btree_map" where
  "btm_retain P m = filter (\<lambda>e. P (fst e) (snd e)) m"

definition btm_map :: "('k \<Rightarrow> 'v \<Rightarrow> 'w) \<Rightarrow> ('k, 'v) btree_map \<Rightarrow> ('k, 'w) btree_map" where
  "btm_map f m = map (\<lambda>e. (fst e, f (fst e) (snd e))) m"

definition btm_contains :: "('k, 'v) btree_map \<Rightarrow> 'k \<Rightarrow> bool" where
  "btm_contains m k \<longleftrightarrow> btm_get m k \<noteq> None"

lemma set_keys_btm_insert [simp]:
  "fst ` set (btm_insert k v m) = insert k (fst ` set m)"
  by (induction k v m rule: btm_insert.induct) (auto simp: not_less dest: order.antisym)

lemma btm_wf_Nil [simp]: "btm_wf []"
  by (simp add: btm_wf_def)

lemma btm_wf_Cons: "btm_wf (e # m) \<longleftrightarrow> btm_wf m \<and> (\<forall>k\<in>fst ` set m. fst e < k)"
  by (auto simp: btm_wf_def)

lemma btm_wf_insert: "btm_wf m \<Longrightarrow> btm_wf (btm_insert k v m)"
  by (induction k v m rule: btm_insert.induct)
    (auto simp: btm_wf_Cons not_less dest: order.antisym)

lemma btm_wf_filter: "btm_wf m \<Longrightarrow> btm_wf (filter P m)"
  by (induction m) (auto simp: btm_wf_Cons)

lemma btm_wf_distinct: "btm_wf m \<Longrightarrow> distinct (map fst m)"
  by (induction m) (force simp: btm_wf_Cons)+

lemma btm_get_insert:
  "btm_wf m \<Longrightarrow> btm_get (btm_insert k v m) k' = (if k' = k then Some v else btm_get m k')"
  by (induction k v m rule: btm_insert.induct)
    (auto simp: btm_wf_Cons btm_get_def not_less dest: order.antisym)

lemma btm_get_remove: "btm_get (btm_remove k m) k' = (if k' = k then None else btm_get m k')"
  by (induction m) (auto simp: btm_get_def btm_remove_def)

lemma btm_get_retain:
  "btm_wf m \<Longrightarrow> btm_get (btm_retain P m) k
     = (case btm_get m k of None \<Rightarrow> None | Some v \<Rightarrow> if P k v then Some v else None)"
proof (induction m)
  case Nil
  then show ?case by (simp add: btm_get_def btm_retain_def)
next
  case (Cons e m)
  then have IH: "btm_get (btm_retain P m) k
     = (case btm_get m k of None \<Rightarrow> None | Some v \<Rightarrow> if P k v then Some v else None)"
    and fresh: "fst e \<notin> fst ` set m"
    by (auto simp: btm_wf_Cons)
  show ?case
  proof (cases "k = fst e")
    case True
    with fresh have "btm_get m k = None"
      by (simp add: btm_get_def map_of_eq_None_iff)
    with IH True show ?thesis
      by (cases e) (simp add: btm_get_def btm_retain_def)
  next
    case False
    with IH show ?thesis
      by (cases e) (simp add: btm_get_def btm_retain_def)
  qed
qed

lemma btm_get_map: "btm_get (btm_map f m) k = map_option (f k) (btm_get m k)"
  by (induction m) (auto simp: btm_get_def btm_map_def)

lemma btm_wf_map: "btm_wf m \<Longrightarrow> btm_wf (btm_map f m)"
  by (simp add: btm_wf_def btm_map_def comp_def)

lemma btm_get_Some_mem: "btm_wf m \<Longrightarrow> btm_get m k = Some v \<longleftrightarrow> (k, v) \<in> set m"
  by (simp add: btm_get_def btm_wf_distinct)

lemma btm_get_in_set: "btm_get m k = Some v \<Longrightarrow> (k, v) \<in> set m"
  by (simp add: btm_get_def map_of_SomeD)

lemma btm_get_None: "btm_get m k = None \<longleftrightarrow> k \<notin> fst ` set m"
  by (simp add: btm_get_def map_of_eq_None_iff)

text \<open>
  The contract the components rely on, whatever the representation: a lookup after an
  update, and an invariant that every operation keeps.
\<close>

locale ordered_map =
  fixes get :: "'m \<Rightarrow> 'k \<Rightarrow> 'v option"
    and ins :: "'k \<Rightarrow> 'v \<Rightarrow> 'm \<Rightarrow> 'm"
    and del :: "'k \<Rightarrow> 'm \<Rightarrow> 'm"
    and emp :: "'m"
    and inv :: "'m \<Rightarrow> bool"
  assumes get_emp: "get emp k = None"
    and get_ins: "inv m \<Longrightarrow> get (ins k v m) k' = (if k' = k then Some v else get m k')"
    and get_del: "inv m \<Longrightarrow> get (del k m) k' = (if k' = k then None else get m k')"
    and inv_emp: "inv emp"
    and inv_ins: "inv m \<Longrightarrow> inv (ins k v m)"
    and inv_del: "inv m \<Longrightarrow> inv (del k m)"
begin

text \<open>A loop that inserts an entry per element of a list.\<close>

lemma fold_ins:
  assumes "inv m"
  shows "inv (fold (\<lambda>x. ins (f x) (g x)) xs m)"
    and "get (fold (\<lambda>x. ins (f x) (g x)) xs m) k
      = (case find (\<lambda>x. f x = k) (rev xs) of None \<Rightarrow> get m k | Some x \<Rightarrow> Some (g x))"
proof -
  have "inv (fold (\<lambda>x. ins (f x) (g x)) xs m) \<and>
    get (fold (\<lambda>x. ins (f x) (g x)) xs m) k
      = (case find (\<lambda>x. f x = k) (rev xs) of None \<Rightarrow> get m k | Some x \<Rightarrow> Some (g x))"
  proof (induction xs rule: rev_induct)
    case Nil
    then show ?case by (simp add: assms)
  next
    case (snoc x xs)
    then show ?case by (auto simp: inv_ins get_ins)
  qed
  then show "inv (fold (\<lambda>x. ins (f x) (g x)) xs m)"
    and "get (fold (\<lambda>x. ins (f x) (g x)) xs m) k
      = (case find (\<lambda>x. f x = k) (rev xs) of None \<Rightarrow> get m k | Some x \<Rightarrow> Some (g x))"
    by simp_all
qed

end

interpretation btm: ordered_map btm_get btm_insert btm_remove "[]" btm_wf
  by unfold_locales
    (simp_all add: btm_get_insert btm_get_remove btm_wf_insert btm_wf_filter btm_remove_def
      btm_get_def [of "[]"] btm_get_remove [unfolded btm_remove_def])

lemmas btm_laws [btm_simps] =
  btm_get_insert btm_get_remove btm_get_retain btm_get_map btm_wf_insert btm_wf_map

section \<open>Operations that keep an invariant\<close>

text \<open>
  The contract of a stateful component: its constructors establish an invariant and every
  operation keeps it. Whatever the operations and their order, the invariant holds.
\<close>

locale invariant_system =
  fixes start :: "'s \<Rightarrow> bool"
    and step :: "'e \<Rightarrow> 's \<Rightarrow> 's"
    and inv :: "'s \<Rightarrow> bool"
  assumes start_inv: "start s \<Longrightarrow> inv s"
    and step_inv: "inv s \<Longrightarrow> inv (step e s)"
begin

lemma run_keeps: "inv s \<Longrightarrow> inv (fold step es s)"
  by (induction es arbitrary: s) (simp_all add: step_inv)

lemma run_inv: "start s \<Longrightarrow> inv (fold step es s)"
  by (rule run_keeps [OF start_inv])

end

end
