(* ===== verification/Model.thy ===== *)
theory Model
  imports Prelude
begin

text \<open>
  The identifiers of \<open>model.rs\<close>: address families, uplink ids, paths, the values of the
  field of the firewall mark that belongs to the daemon, and the mask that places the field in
  a 32-bit mark. IP addresses are the standard library's \<open>IpAddr\<close>: an IPv4 or IPv6
  address by its numeric value, which is also the order the library derives.
\<close>

unbundle bit_operations_syntax

section \<open>Families and addresses\<close>

datatype family = V4 | V6

datatype ip_addr = IpV4 u32 | IpV6 u128

definition all_families :: "family list" where
  "all_families = [V4, V6]"

fun family_of :: "ip_addr \<Rightarrow> family" where
  "family_of (IpV4 _) = V4"
| "family_of (IpV6 _) = V6"

fun family_key :: "family \<Rightarrow> string" where
  "family_key V4 = ''ipv4''"
| "family_key V6 = ''ipv6''"

fun family_rank :: "family \<Rightarrow> nat" where
  "family_rank V4 = 0"
| "family_rank V6 = 1"

instantiation family :: linorder
begin

definition less_eq_family :: "family \<Rightarrow> family \<Rightarrow> bool" where
  "less_eq_family a b \<longleftrightarrow> family_rank a \<le> family_rank b"

definition less_family :: "family \<Rightarrow> family \<Rightarrow> bool" where
  "less_family a b \<longleftrightarrow> family_rank a < family_rank b"

instance
proof
  fix a b :: family
  show "a \<le> b \<Longrightarrow> b \<le> a \<Longrightarrow> a = b"
    by (cases a; cases b) (simp_all add: less_eq_family_def)
qed (auto simp: less_eq_family_def less_family_def)

end

fun ip_rank :: "ip_addr \<Rightarrow> nat \<times> nat" where
  "ip_rank (IpV4 a) = (0, unat a)"
| "ip_rank (IpV6 a) = (1, unat a)"

lemma ip_rank_inject: "ip_rank a = ip_rank b \<Longrightarrow> a = b"
  by (cases a; cases b) (simp_all add: word_unat_eq_iff)

instantiation ip_addr :: linorder
begin

definition less_eq_ip_addr :: "ip_addr \<Rightarrow> ip_addr \<Rightarrow> bool" where
  "less_eq_ip_addr a b \<longleftrightarrow> ip_rank a \<le> ip_rank b"

definition less_ip_addr :: "ip_addr \<Rightarrow> ip_addr \<Rightarrow> bool" where
  "less_ip_addr a b \<longleftrightarrow> ip_rank a < ip_rank b"

instance
  by standard
    (auto simp: less_eq_ip_addr_def less_ip_addr_def dest: ip_rank_inject order.antisym)

end

section \<open>Uplink ids and paths\<close>

datatype uplink_id = UplinkId (id_get: u8)

definition uplink_id_min :: u8 where
  "uplink_id_min = 1"

definition uplink_id_max :: u8 where
  "uplink_id_max = 63"

definition uplink_id_new :: "u8 \<Rightarrow> uplink_id option" where
  "uplink_id_new i = (if in_range uplink_id_min uplink_id_max i then Some (UplinkId i) else None)"

definition uplink_id_all :: "uplink_id list" where
  "uplink_id_all = map (\<lambda>n. UplinkId (of_nat n)) [unat uplink_id_min ..< Suc (unat uplink_id_max)]"

text \<open>The invariant of the type: its field is private and only \<open>new\<close> and \<open>all\<close> build it.\<close>

definition valid_id :: "uplink_id \<Rightarrow> bool" where
  "valid_id i \<longleftrightarrow> in_range uplink_id_min uplink_id_max (id_get i)"

instantiation uplink_id :: linorder
begin

definition less_eq_uplink_id :: "uplink_id \<Rightarrow> uplink_id \<Rightarrow> bool" where
  "less_eq_uplink_id a b \<longleftrightarrow> id_get a \<le> id_get b"

definition less_uplink_id :: "uplink_id \<Rightarrow> uplink_id \<Rightarrow> bool" where
  "less_uplink_id a b \<longleftrightarrow> id_get a < id_get b"

instance
  by standard (auto simp: less_eq_uplink_id_def less_uplink_id_def uplink_id.expand)

end

record path_key =
  pk_uplink :: uplink_id
  pk_family :: family

instantiation path_key_ext :: (linorder) linorder
begin

definition less_eq_path_key_ext :: "'a path_key_ext \<Rightarrow> 'a path_key_ext \<Rightarrow> bool" where
  "less_eq_path_key_ext a b \<longleftrightarrow>
     (pk_uplink a, pk_family a, path_key.more a) \<le> (pk_uplink b, pk_family b, path_key.more b)"

definition less_path_key_ext :: "'a path_key_ext \<Rightarrow> 'a path_key_ext \<Rightarrow> bool" where
  "less_path_key_ext a b \<longleftrightarrow>
     (pk_uplink a, pk_family a, path_key.more a) < (pk_uplink b, pk_family b, path_key.more b)"

instance
  by standard (auto simp: less_eq_path_key_ext_def less_path_key_ext_def)

end

section \<open>Values of the mark's field\<close>

datatype field_value = FieldValue (fv_get: u8)

definition fv_none :: field_value where
  "fv_none = FieldValue 0"

definition probe_class :: field_value where
  "probe_class = FieldValue 0x40"

definition policy_balance_class :: field_value where
  "policy_balance_class = FieldValue 0x80"

definition policy_block_class :: field_value where
  "policy_block_class = FieldValue 0xc0"

definition class_bits :: u8 where
  "class_bits = 0xc0"

definition fv_path :: "uplink_id \<Rightarrow> field_value" where
  "fv_path i = FieldValue (id_get i)"

definition fv_probe :: "uplink_id \<Rightarrow> field_value" where
  "fv_probe i = FieldValue (0x40 OR id_get i)"

definition fv_policy_balance :: "uplink_id \<Rightarrow> field_value" where
  "fv_policy_balance i = FieldValue (0x80 OR id_get i)"

definition fv_policy_block :: "uplink_id \<Rightarrow> field_value" where
  "fv_policy_block i = FieldValue (0xc0 OR id_get i)"

definition fv_raw :: "u8 \<Rightarrow> field_value" where
  "fv_raw v = FieldValue v"

section \<open>The mask of the mark\<close>

record fw_mask =
  fwm_shift :: u32

definition fwm_default :: fw_mask where
  "fwm_default = \<lparr>fwm_shift = 16\<rparr>"

text \<open>\<open>u32::trailing_zeros\<close>: 32 for zero.\<close>

definition trailing_zeros :: "u32 \<Rightarrow> u32" where
  "trailing_zeros w = of_nat (length (takeWhile (\<lambda>i. \<not> bit w i) [0..<32]))"

definition fw_mask_new :: "u32 \<Rightarrow> fw_mask option" where
  "fw_mask_new k =
     (let shift = trailing_zeros k in
      if k \<noteq> 0 \<and> drop_bit (unat shift) k = 0xff then Some \<lparr>fwm_shift = shift\<rparr> else None)"

definition fwm_mask :: "fw_mask \<Rightarrow> u32" where
  "fwm_mask m = push_bit (unat (fwm_shift m)) 0xff"

definition fwm_encode :: "fw_mask \<Rightarrow> field_value \<Rightarrow> u32" where
  "fwm_encode m v = push_bit (unat (fwm_shift m)) (ucast (fv_get v))"

definition fwm_class_mask :: "fw_mask \<Rightarrow> u32" where
  "fwm_class_mask m = push_bit (unat (fwm_shift m)) (ucast class_bits)"

definition fwm_field :: "fw_mask \<Rightarrow> u32 \<Rightarrow> field_value" where
  "fwm_field m mark = FieldValue (ucast (drop_bit (unat (fwm_shift m)) mark))"

text \<open>The invariant of the type: the eight bits fit in the mark.\<close>

definition fwm_ok :: "fw_mask \<Rightarrow> bool" where
  "fwm_ok m \<longleftrightarrow> unat (fwm_shift m) \<le> 24"

section \<open>Properties\<close>

lemma valid_id_new: "uplink_id_new i = Some u \<longleftrightarrow> u = UplinkId i \<and> valid_id u"
  by (auto simp: uplink_id_new_def valid_id_def)

lemma valid_id_unat: "valid_id i \<longleftrightarrow> 1 \<le> unat (id_get i) \<and> unat (id_get i) \<le> 63"
  by (simp add: valid_id_def in_range_def uplink_id_min_def uplink_id_max_def word_le_iff_unat)

lemma set_uplink_id_all: "i \<in> set uplink_id_all \<longleftrightarrow> valid_id i"
proof
  assume "i \<in> set uplink_id_all"
  then obtain n where n: "1 \<le> n" "n < 64" "i = UplinkId (of_nat n)"
    by (auto simp: uplink_id_all_def uplink_id_min_def uplink_id_max_def)
  then have "unat (of_nat n :: u8) = n"
    by (simp add: unat_of_nat_small)
  with n show "valid_id i"
    by (simp add: valid_id_unat)
next
  assume v: "valid_id i"
  have "i = UplinkId (of_nat (unat (id_get i)))"
    by simp
  moreover have "unat (id_get i) \<in> set [unat uplink_id_min ..< Suc (unat uplink_id_max)]"
    using v by (simp add: valid_id_unat uplink_id_min_def uplink_id_max_def)
  ultimately show "i \<in> set uplink_id_all"
    unfolding uplink_id_all_def set_map by (rule image_eqI)
qed

lemma bit_255 [simp]: "bit (255 :: int) n \<longleftrightarrow> n < 8"
proof -
  have "(255 :: int) = Bit_Operations.mask 8"
    by (simp add: mask_eq_exp_minus_1)
  then show ?thesis
    by (simp only: bit_mask_iff) simp
qed

lemma bit_ff: "bit (0xff :: u32) n \<longleftrightarrow> n < 8"
  by auto

lemma length_takeWhile_upt_le: "length (takeWhile P [0..<n]) \<le> n"
  using length_takeWhile_le [of P "[0..<n]"] by simp

lemma unat_trailing_zeros: "unat (trailing_zeros w) = length (takeWhile (\<lambda>i. \<not> bit w i) [0..<32])"
  using length_takeWhile_upt_le [of "\<lambda>i. \<not> bit w i" 32]
  by (simp add: trailing_zeros_def unat_of_nat_small)

lemma trailing_zeros_below: "n < unat (trailing_zeros w) \<Longrightarrow> \<not> bit w n"
proof -
  assume n: "n < unat (trailing_zeros w)"
  let ?t = "takeWhile (\<lambda>i. \<not> bit w i) [0..<32]"
  have len: "n < length ?t" using n by (simp add: unat_trailing_zeros)
  then have "?t ! n = [0..<32] ! n" by (rule takeWhile_nth)
  moreover have "n < 32"
    using len length_takeWhile_upt_le [of "\<lambda>i. \<not> bit w i" 32] by simp
  ultimately have "?t ! n = n" by simp
  moreover have "?t ! n \<in> set ?t" using len by simp
  ultimately show ?thesis by (auto dest: set_takeWhileD)
qed

lemma trailing_zeros_push:
  assumes "s \<le> 24"
  shows "unat (trailing_zeros (push_bit s 0xff)) = s"
proof -
  have "takeWhile (\<lambda>i. \<not> bit (push_bit s (0xff :: u32)) i) [0..<32] = [0..<s]"
  proof -
    have split: "[0..<32] = [0..<s] @ s # [Suc s..<32]"
      using assms upt_add_eq_append [of 0 s "32 - s"] by (simp add: upt_conv_Cons)
    have below: "\<And>i. i \<in> set [0..<s] \<Longrightarrow> \<not> bit (push_bit s (0xff :: u32)) i"
      by (simp add: bit_push_bit_iff)
    have at: "bit (push_bit s (0xff :: u32)) s"
      using assms by (simp add: bit_push_bit_iff)
    show ?thesis
      unfolding split using below at by (subst takeWhile_append2) simp_all
  qed
  then show ?thesis by (simp add: unat_trailing_zeros)
qed

lemma fw_mask_new_mask:
  assumes "fw_mask_new k = Some m"
  shows "fwm_ok m" and "fwm_mask m = k"
proof -
  define s where "s = unat (trailing_zeros k)"
  from assms have m: "fwm_shift m = trailing_zeros k" and ff: "drop_bit s k = 0xff"
    by (auto simp: fw_mask_new_def Let_def s_def split: if_splits)
  have bits: "bit k (s + n) \<longleftrightarrow> n < 8" for n
    using arg_cong [OF ff, of "\<lambda>w. bit w n"] by (auto simp: bit_drop_bit_eq)
  have "bit k (s + 7)" by (simp add: bits)
  then have "s + 7 < 32" by (auto dest: bit_imp_le_length)
  then show "fwm_ok m" by (simp add: fwm_ok_def m flip: s_def)
  show "fwm_mask m = k"
  proof (rule bit_word_eqI)
    fix n
    assume n: "n < LENGTH(32)"
    show "bit (fwm_mask m) n = bit k n"
    proof (cases "s \<le> n")
      case True
      then show ?thesis
        using bits [of "n - s"] n by (auto simp: fwm_mask_def m bit_push_bit_iff simp flip: s_def)
    next
      case False
      then have "\<not> bit k n" using trailing_zeros_below [of n k] by (simp add: s_def)
      with False show ?thesis
        by (simp add: fwm_mask_def m bit_push_bit_iff flip: s_def)
    qed
  qed
qed

lemma fw_mask_new_of_mask: "fwm_ok m \<Longrightarrow> fw_mask_new (fwm_mask m) = Some m"
proof -
  assume ok: "fwm_ok m"
  define s where "s = unat (fwm_shift m)"
  have s: "s \<le> 24" using ok by (simp add: fwm_ok_def s_def)
  have tz: "trailing_zeros (fwm_mask m) = fwm_shift m"
    using trailing_zeros_push [OF s] by (simp add: fwm_mask_def s_def word_unat_eq_iff)
  have "drop_bit s (push_bit s (0xff :: u32)) = 0xff"
    using s by (intro bit_word_eqI) (auto simp: bit_drop_bit_eq bit_push_bit_iff)
  moreover have "bit (push_bit s (0xff :: u32)) s"
    using s by (simp add: bit_push_bit_iff)
  then have "push_bit s (0xff :: u32) \<noteq> 0"
    by (metis bit_0_eq bot_apply bot_bool_def)
  ultimately show ?thesis
    using tz by (simp add: fw_mask_new_def Let_def fwm_mask_def s_def)
qed

text \<open>
  \<open>FwMask::new\<close> accepts exactly the 32-bit masks made of eight contiguous bits, and the
  value it returns denotes the mask it was given.
\<close>

theorem fw_mask_new_iff: "fw_mask_new k = Some m \<longleftrightarrow> fwm_ok m \<and> k = fwm_mask m"
  using fw_mask_new_mask fw_mask_new_of_mask by metis

lemma bit_fwm_mask:
  "fwm_ok m \<Longrightarrow> bit (fwm_mask m) n \<longleftrightarrow> unat (fwm_shift m) \<le> n \<and> n < unat (fwm_shift m) + 8"
  by (auto simp: fwm_mask_def fwm_ok_def bit_push_bit_iff)

lemma bit_fwm_encode:
  "fwm_ok m \<Longrightarrow>
     bit (fwm_encode m v) n \<longleftrightarrow> unat (fwm_shift m) \<le> n \<and> bit (fv_get v) (n - unat (fwm_shift m))"
  by (auto simp: fwm_encode_def fwm_ok_def bit_push_bit_iff bit_ucast_iff dest: bit_imp_le_length)

lemma bit_fwm_field:
  "bit (fv_get (fwm_field m mark)) n \<longleftrightarrow> n < 8 \<and> bit mark (unat (fwm_shift m) + n)"
  by (simp add: fwm_field_def bit_ucast_iff bit_drop_bit_eq)

text \<open>Writing a value into the field of a mark, as every rule of the firewall does.\<close>

definition put_field :: "fw_mask \<Rightarrow> field_value \<Rightarrow> u32 \<Rightarrow> u32" where
  "put_field m v mark = mark AND NOT (fwm_mask m) OR fwm_encode m v"

lemma field_put:
  assumes "fwm_ok m"
  shows "fwm_field m (put_field m v mark) = v"
proof -
  have "fv_get (fwm_field m (put_field m v mark)) = fv_get v"
  proof (rule bit_word_eqI)
    fix n
    assume n: "n < LENGTH(8)"
    with assms have "unat (fwm_shift m) + n < 32" by (simp add: fwm_ok_def)
    with n assms show "bit (fv_get (fwm_field m (put_field m v mark))) n = bit (fv_get v) n"
      by (simp add: put_field_def bit_fwm_field bit_or_iff bit_and_iff bit_not_iff bit_fwm_mask bit_fwm_encode)
  qed
  then show ?thesis by (simp add: field_value.expand)
qed

lemma put_field_outside:
  "fwm_ok m \<Longrightarrow> put_field m v mark AND NOT (fwm_mask m) = mark AND NOT (fwm_mask m)"
  unfolding put_field_def
  by (intro bit_word_eqI)
    (auto simp: bit_or_iff bit_and_iff bit_not_iff bit_fwm_mask bit_fwm_encode dest: bit_imp_le_length)

text \<open>
  Storing a field value in a mark and reading it back gives the value, and no bit of the mark
  outside the mask is changed, for every mask that \<open>FwMask::new\<close> can return.
\<close>

theorem mark_field_roundtrip:
  assumes "fwm_ok m"
  shows "fwm_field m (mark AND NOT (fwm_mask m) OR fwm_encode m v) = v
    \<and> (mark AND NOT (fwm_mask m) OR fwm_encode m v) AND NOT (fwm_mask m)
        = mark AND NOT (fwm_mask m)"
  using field_put [OF assms] put_field_outside [OF assms] by (simp add: put_field_def)

theorem mark_field_roundtrip_witness:
  "fwm_ok fwm_default
    \<and> fwm_field fwm_default (0x12340034 AND NOT (fwm_mask fwm_default)
        OR fwm_encode fwm_default (fv_probe (UplinkId 1))) = fv_probe (UplinkId 1)"
proof -
  have ok: "fwm_ok fwm_default" by (simp add: fwm_ok_def fwm_default_def)
  from mark_field_roundtrip [OF ok, of "0x12340034" "fv_probe (UplinkId 1)"] ok show ?thesis by simp
qed

text \<open>A selector of the field matches exactly the marks whose field has the selected bits.\<close>

lemma mark_selects_iff:
  assumes "fwm_ok m"
  shows "mark AND fwm_encode m (fv_raw k) = fwm_encode m (fv_raw v) \<longleftrightarrow>
    fv_get (fwm_field m mark) AND k = v"
proof
  assume sel: "mark AND fwm_encode m (fv_raw k) = fwm_encode m (fv_raw v)"
  show "fv_get (fwm_field m mark) AND k = v"
  proof (rule bit_word_eqI)
    fix n
    assume n: "n < LENGTH(8)"
    have "bit (mark AND fwm_encode m (fv_raw k)) (unat (fwm_shift m) + n)
        = bit (fwm_encode m (fv_raw v)) (unat (fwm_shift m) + n)"
      using sel by simp
    with n assms show "bit (fv_get (fwm_field m mark) AND k) n = bit v n"
      by (simp add: bit_and_iff bit_fwm_field bit_fwm_encode fv_raw_def)
  qed
next
  assume f: "fv_get (fwm_field m mark) AND k = v"
  show "mark AND fwm_encode m (fv_raw k) = fwm_encode m (fv_raw v)"
  proof (rule bit_word_eqI)
    fix n
    let ?s = "unat (fwm_shift m)"
    have "bit v (n - ?s) \<longleftrightarrow> bit (fv_get (fwm_field m mark)) (n - ?s) \<and> bit k (n - ?s)"
      using f by (auto simp: bit_and_iff)
    then show "bit (mark AND fwm_encode m (fv_raw k)) n = bit (fwm_encode m (fv_raw v)) n"
      using assms
      by (auto simp: bit_and_iff bit_fwm_encode bit_fwm_field fv_raw_def dest: bit_imp_le_length)
  qed
qed

lemma fwm_mask_encode: "fwm_mask m = fwm_encode m (fv_raw 0xff)"
  by (simp add: fwm_mask_def fwm_encode_def fv_raw_def)

lemma fwm_class_mask_encode: "fwm_class_mask m = fwm_encode m (fv_raw class_bits)"
  by (simp add: fwm_class_mask_def fwm_encode_def fv_raw_def)

text \<open>The class of a field value and the uplink id it carries.\<close>

lemma id_bits:
  assumes "valid_id i"
  shows "id_get i AND 0xc0 = 0" and "id_get i AND 0x3f = id_get i" and "id_get i \<noteq> 0"
proof -
  have "\<forall>i\<in>set uplink_id_all. id_get i AND 0xc0 = 0 \<and> id_get i AND 0x3f = id_get i \<and> id_get i \<noteq> 0"
    by code_simp
  with assms show "id_get i AND 0xc0 = 0" and "id_get i AND 0x3f = id_get i" and "id_get i \<noteq> 0"
    by (simp_all add: set_uplink_id_all)
qed

lemma class_of_values:
  assumes "valid_id i"
  shows "fv_get (fv_path i) AND class_bits = 0"
    and "fv_get (fv_probe i) AND class_bits = fv_get probe_class"
    and "fv_get (fv_policy_balance i) AND class_bits = fv_get policy_balance_class"
    and "fv_get (fv_policy_block i) AND class_bits = fv_get policy_block_class"
  using id_bits [OF assms]
  by (simp_all add: fv_path_def fv_probe_def fv_policy_balance_def fv_policy_block_def class_bits_def
      probe_class_def policy_balance_class_def policy_block_class_def and.assoc
      bit.conj_disj_distrib2)

lemma id_of_values:
  assumes "valid_id i"
  shows "fv_get (fv_path i) AND 0x3f = id_get i"
    and "fv_get (fv_probe i) AND 0x3f = id_get i"
    and "fv_get (fv_policy_balance i) AND 0x3f = id_get i"
    and "fv_get (fv_policy_block i) AND 0x3f = id_get i"
  using id_bits [OF assms]
  by (simp_all add: fv_path_def fv_probe_def fv_policy_balance_def fv_policy_block_def
      bit.conj_disj_distrib2)

text \<open>
  The field values of two uplinks never coincide: a value determines its class and its uplink,
  so the path, probe, policy-balance and policy-block values of all valid ids are pairwise
  distinct, and none is the value that means no assignment.
\<close>

theorem field_values_separate:
  assumes "valid_id i" and "valid_id j"
    and "f \<in> {fv_path, fv_probe, fv_policy_balance, fv_policy_block}"
    and "g \<in> {fv_path, fv_probe, fv_policy_balance, fv_policy_block}"
    and "f i = g j"
  shows "i = j \<and> (\<forall>k. f k = g k) \<and> f i \<noteq> fv_none"
proof -
  note cls = class_of_values [OF assms(1)] class_of_values [OF assms(2)]
  note ids = id_of_values [OF assms(1)] id_of_values [OF assms(2)]
  have distinct: "fv_get probe_class \<noteq> 0" "fv_get policy_balance_class \<noteq> 0"
    "fv_get policy_block_class \<noteq> 0" "fv_get probe_class \<noteq> fv_get policy_balance_class"
    "fv_get probe_class \<noteq> fv_get policy_block_class"
    "fv_get policy_balance_class \<noteq> fv_get policy_block_class"
    by (simp_all add: probe_class_def policy_balance_class_def policy_block_class_def)
  have same: "fv_get (f i) AND class_bits = fv_get (g j) AND class_bits"
    "fv_get (f i) AND 0x3f = fv_get (g j) AND 0x3f"
    using assms(5) by simp_all
  have "f = g" using assms(3,4) same(1) cls distinct by auto
  moreover have "id_get i = id_get j" using assms(3,4) same(2) ids by auto
  moreover have "fv_get (f i) AND 0x3f \<noteq> 0"
    using assms(3) ids(1-4) id_bits(3) [OF assms(1)] by auto
  then have "f i \<noteq> fv_none" by (auto simp: fv_none_def)
  ultimately show ?thesis by (simp add: uplink_id.expand)
qed

theorem field_values_separate_witness:
  "valid_id (UplinkId 5) \<and> fv_probe (UplinkId 5) \<noteq> fv_none"
proof -
  have v: "valid_id (UplinkId 5)" by code_simp
  from field_values_separate [OF v v, of fv_probe fv_probe] v show ?thesis by simp
qed

end
