(* ===== verification/Durations.thy ===== *)
theory Durations
  imports Prelude
begin

text \<open>
  Human-readable durations (\<open>duration.rs\<close>). A \<open>Duration\<close> is its length in
  nanoseconds, below \<open>2^64\<close> seconds; \<open>checked_add\<close> fails beyond that. The message of
  the only error carries the text that was refused.
\<close>

type_synonym duration = nat

definition duration_limit :: nat where
  "duration_limit = 2 ^ 64 * 10 ^ 9"

definition from_millis :: "nat \<Rightarrow> duration" where
  "from_millis n = n * 10 ^ 6"

definition from_secs :: "nat \<Rightarrow> duration" where
  "from_secs n = n * 10 ^ 9"

definition duration_checked_add :: "duration \<Rightarrow> duration \<Rightarrow> duration option" where
  "duration_checked_add a b = (if a + b < duration_limit then Some (a + b) else None)"

definition u64_checked_mul :: "nat \<Rightarrow> nat \<Rightarrow> nat option" where
  "u64_checked_mul a b = (if a * b < 2 ^ 64 then Some (a * b) else None)"

datatype duration_error = InvalidDuration string

section \<open>parse\<close>

definition unit_part :: "string \<Rightarrow> nat \<Rightarrow> duration option" where
  "unit_part unit v =
     (if unit = ''ms'' then Some (from_millis v)
      else if unit = ''s'' then Some (from_secs v)
      else if unit = ''m'' then map_option from_secs (u64_checked_mul v 60)
      else if unit = ''h'' then map_option from_secs (u64_checked_mul v 3600)
      else None)"

function parse_loop :: "string \<Rightarrow> duration \<Rightarrow> duration option" where
  "parse_loop rest acc =
     (if rest = [] then Some acc
      else
        let digits = takeWhile is_ascii_digit rest;
            rest1 = dropWhile is_ascii_digit rest
        in if rest1 = [] \<or> digits = [] then None
           else
             let unit = takeWhile (\<lambda>c. \<not> is_ascii_digit c) rest1;
                 rest2 = dropWhile (\<lambda>c. \<not> is_ascii_digit c) rest1
             in (case parse_decimal (2 ^ 64) digits of
                   None \<Rightarrow> None
                 | Some v \<Rightarrow>
                     (case unit_part unit v of
                        None \<Rightarrow> None
                      | Some part \<Rightarrow>
                          (case duration_checked_add acc part of
                             None \<Rightarrow> None
                           | Some t \<Rightarrow> parse_loop rest2 t))))"
  by pat_completeness auto
termination
proof (relation "measure (length \<circ> fst)", simp)
  fix rest :: string and acc digits rest1 unit rest2 v part t
  assume eqs: "rest \<noteq> []" "digits = takeWhile is_ascii_digit rest"
    "rest1 = dropWhile is_ascii_digit rest" "\<not> (rest1 = [] \<or> digits = [])"
    "rest2 = dropWhile (\<lambda>c. \<not> is_ascii_digit c) rest1"
  have "length rest = length digits + length rest1"
    using eqs by (metis length_append takeWhile_dropWhile_id)
  moreover have "length rest2 \<le> length rest1"
    using eqs by (simp add: length_dropWhile_le)
  moreover have "0 < length digits"
    using eqs by simp
  ultimately have "length rest2 < length rest"
    by linarith
  then show "((rest2, t), rest, acc) \<in> measure (length \<circ> fst)"
    by simp
qed

declare parse_loop.simps [simp del]

definition parse :: "string \<Rightarrow> duration_error + duration" where
  "parse text =
     (let rest = trim text in
      if rest = [] then Inl (InvalidDuration text)
      else case parse_loop rest 0 of None \<Rightarrow> Inl (InvalidDuration text) | Some d \<Rightarrow> Inr d)"

section \<open>format\<close>

definition format_duration :: "duration \<Rightarrow> string" where
  "format_duration d =
     (let ms = d div 10 ^ 6 in
      if ms mod 1000 \<noteq> 0 then show_nat ms @ ''ms'' else show_nat (ms div 1000) @ ''s'')"

section \<open>Properties\<close>

text \<open>Components as the configuration writes them: a number and a unit.\<close>

definition component_text :: "nat \<times> string \<Rightarrow> string" where
  "component_text c = show_nat (fst c) @ snd c"

definition component_ok :: "nat \<times> string \<Rightarrow> bool" where
  "component_ok c \<longleftrightarrow> fst c < 2 ^ 64 \<and> unit_part (snd c) (fst c) \<noteq> None"

definition component_value :: "nat \<times> string \<Rightarrow> duration" where
  "component_value c = the (unit_part (snd c) (fst c))"

lemma unit_cases:
  assumes "unit_part u v \<noteq> None"
  shows "u \<in> {''ms'', ''s'', ''m'', ''h''}"
  using assms by (auto simp: unit_part_def split: if_splits)

lemma unit_no_digit:
  assumes "unit_part u v \<noteq> None"
  shows "u \<noteq> []" and "list_all (\<lambda>c. \<not> is_ascii_digit c) u"
  using unit_cases [OF assms] by (auto simp: is_ascii_digit_def)

lemma takeWhile_digits:
  assumes "list_all P xs" and "ys \<noteq> []" and "\<not> P (hd ys)"
  shows "takeWhile P (xs @ ys) = xs" and "dropWhile P (xs @ ys) = ys"
  using assms by (induction xs) (cases ys, auto)+

lemma component_text_nonempty [simp]: "component_text c \<noteq> []"
  by (simp add: component_text_def)

lemma hd_show_nat_digit: "is_ascii_digit (hd (show_nat n))"
  using show_nat_digits [of n] by (cases "show_nat n") auto

lemma takeWhile_until_digit:
  assumes "list_all (\<lambda>c. \<not> is_ascii_digit c) u" and "rest = [] \<or> is_ascii_digit (hd rest)"
  shows "takeWhile (\<lambda>c. \<not> is_ascii_digit c) (u @ rest) = u"
    and "dropWhile (\<lambda>c. \<not> is_ascii_digit c) (u @ rest) = rest"
  using assms by (induction u) (cases rest, auto)+

lemma parse_loop_component:
  assumes ok: "component_ok c" and rest: "rest = [] \<or> is_ascii_digit (hd rest)"
    and room: "acc + component_value c < duration_limit"
  shows "parse_loop (component_text c @ rest) acc = parse_loop rest (acc + component_value c)"
proof -
  obtain v u where c: "c = (v, u)" by (cases c)
  from ok have v: "v < 2 ^ 64" and u: "unit_part u v \<noteq> None"
    by (simp_all add: component_ok_def c)
  let ?s = "show_nat v @ (u @ rest)"
  have un: "u \<noteq> []" "list_all (\<lambda>c. \<not> is_ascii_digit c) u"
    using unit_no_digit [OF u] by simp_all
  then have hd: "u @ rest \<noteq> []" "\<not> is_ascii_digit (hd (u @ rest))"
    by (cases u; simp)+
  note tw = takeWhile_digits [OF show_nat_digits [of v] hd]
  note tu = takeWhile_until_digit [OF un(2) rest]
  from u have part: "unit_part u v = Some (component_value c)"
    by (auto simp: component_value_def c)
  show ?thesis
    using hd un v room
    by (subst parse_loop.simps)
      (simp add: component_text_def c tw tu parse_decimal_show_nat part [unfolded c]
        duration_checked_add_def Let_def)
qed

lemma parse_loop_components:
  assumes "\<forall>c\<in>set cs. component_ok c"
    and "acc + sum_list (map component_value cs) < duration_limit"
  shows "parse_loop (concat (map component_text cs)) acc
    = Some (acc + sum_list (map component_value cs))"
  using assms
proof (induction cs arbitrary: acc)
  case Nil
  then show ?case by (simp add: parse_loop.simps)
next
  case (Cons c cs)
  have rest: "concat (map component_text cs) = []
      \<or> is_ascii_digit (hd (concat (map component_text cs)))"
    by (cases cs) (auto simp: component_text_def hd_show_nat_digit)
  have "parse_loop (component_text c @ concat (map component_text cs)) acc
      = parse_loop (concat (map component_text cs)) (acc + component_value c)"
    using Cons.prems by (intro parse_loop_component [OF _ rest]) auto
  with Cons.IH [of "acc + component_value c"] Cons.prems show ?case
    by (simp add: add.assoc)
qed

lemma white_space_codes:
  "\<forall>w\<in>set white_space. w \<noteq> [] \<and>
     (of_char (hd w) :: nat) \<in> {9, 10, 11, 12, 13, 32, 0xc2, 0xe1, 0xe2, 0xe3} \<and>
     (of_char (last w) :: nat) \<notin> {104, 109, 115}"
  by (auto simp: white_space_def of_char_of)

lemma white_space_no_digit: "\<forall>w\<in>set white_space. w \<noteq> [] \<and> \<not> is_ascii_digit (hd w)"
  using white_space_codes by (fastforce simp: is_ascii_digit_def)

lemma white_space_last: "\<forall>w\<in>set white_space. last w \<notin> set ''smh''"
  using white_space_codes by fastforce

lemma trim_with_keeps: "strip_one ws s = None \<Longrightarrow> trim_with ws s = s"
  by (subst trim_with.simps) simp

lemma trim_components:
  assumes "cs \<noteq> []" and "\<forall>c\<in>set cs. component_ok c"
  shows "trim (concat (map component_text cs)) = concat (map component_text cs)"
proof -
  let ?s = "concat (map component_text cs)"
  have ne: "?s \<noteq> []" using assms(1) by (cases cs) simp_all
  have "is_ascii_digit (hd ?s)"
    using assms(1) by (cases cs) (auto simp: component_text_def hd_show_nat_digit)
  then have "strip_one white_space ?s = None"
    using ne white_space_no_digit by (intro strip_one_None_if) auto
  moreover have "strip_one (map rev white_space) (rev ?s) = None"
  proof (rule strip_one_None_if)
    show "rev ?s \<noteq> []" using ne by simp
    have l: "last cs \<in> set cs" using assms(1) by simp
    then have u: "unit_part (snd (last cs)) (fst (last cs)) \<noteq> None"
      using assms(2) by (simp add: component_ok_def)
    have "?s = concat (map component_text (butlast cs)) @ component_text (last cs)"
      using assms(1) by (cases cs rule: rev_cases) simp_all
    then have "last ?s = last (snd (last cs))"
      using unit_no_digit(1) [OF u] by (simp add: component_text_def)
    also have "\<dots> \<in> set ''smh''"
      using unit_cases [OF u] by auto
    finally show "\<forall>w\<in>set (map rev white_space). w \<noteq> [] \<longrightarrow> hd w \<noteq> hd (rev ?s)"
      using white_space_last ne by (auto simp: hd_rev)
  qed
  ultimately show ?thesis by (simp add: trim_def trim_with_keeps)
qed

text \<open>
  Every text made of one or more components with a known unit, whose numbers fit 64 bits and
  whose total fits a \<open>Duration\<close>, parses to the sum of its components.
\<close>

theorem parse_components:
  assumes "cs \<noteq> []" and "\<forall>c\<in>set cs. component_ok c"
    and "sum_list (map component_value cs) < duration_limit"
  shows "parse (concat (map component_text cs)) = Inr (sum_list (map component_value cs))"
proof -
  have "concat (map component_text cs) \<noteq> []" using assms(1) by (cases cs) simp_all
  with parse_loop_components [OF assms(2), of 0] trim_components [OF assms(1,2)] assms(3)
  show ?thesis by (simp add: parse_def Let_def)
qed

theorem parse_components_witness: "parse ''1m30s'' = Inr (from_secs 90)"
proof -
  let ?cs = "[(1, ''m''), (30, ''s'')]"
  have ok: "\<forall>c\<in>set ?cs. component_ok c"
    by (simp add: component_ok_def unit_part_def u64_checked_mul_def)
  have val: "sum_list (map component_value ?cs) = from_secs 90"
    by (simp add: component_value_def unit_part_def u64_checked_mul_def from_secs_def)
  have whole: "concat (map component_text ?cs) = ''1m30s''"
    by code_simp
  show ?thesis
    using parse_components [OF _ ok] val whole by (simp add: from_secs_def duration_limit_def)
qed

text \<open>
  C33. Formatting and parsing back gives the same duration, for every whole number of milliseconds
  below \<open>2^64\<close>.
\<close>

theorem format_parse_roundtrip:
  assumes "ms < 2 ^ 64"
  shows "parse (format_duration (from_millis ms)) = Inr (from_millis ms)"
proof (cases "ms mod 1000 = 0")
  case True
  let ?c = "(ms div 1000, ''s'')"
  have "component_ok ?c" using assms by (simp add: component_ok_def unit_part_def)
  moreover have v: "component_value ?c = from_millis ms"
    using True by (auto simp: component_value_def unit_part_def from_secs_def from_millis_def)
  moreover have "from_millis ms < duration_limit"
    using assms by (simp add: from_millis_def duration_limit_def)
  ultimately have "parse (component_text ?c) = Inr (from_millis ms)"
    using parse_loop_components [of "[?c]" 0] trim_components [of "[?c]"]
    by (simp add: parse_def)
  with True show ?thesis
    by (simp add: format_duration_def from_millis_def component_text_def)
next
  case False
  let ?c = "(ms, ''ms'')"
  have "component_ok ?c" using assms by (simp add: component_ok_def unit_part_def)
  moreover have v: "component_value ?c = from_millis ms"
    by (simp add: component_value_def unit_part_def)
  moreover have "from_millis ms < duration_limit"
    using assms by (simp add: from_millis_def duration_limit_def)
  ultimately have "parse (component_text ?c) = Inr (from_millis ms)"
    using parse_loop_components [of "[?c]" 0] trim_components [of "[?c]"]
    by (simp add: parse_def)
  with False show ?thesis
    by (simp add: format_duration_def from_millis_def component_text_def)
qed

theorem format_parse_roundtrip_witness:
  "parse (format_duration (from_millis 1500)) = Inr (from_millis 1500)"
  by (rule format_parse_roundtrip) simp

end
