(* ===== verification/Float64.thy ===== *)
theory Float64
  imports Prelude Complex_Main
begin

text \<open>
  The operations on \<open>f64\<close> the program decides with: the quotient of two counts
  (\<open>lost as f64 / samples as f64\<close>) and the comparisons \<open>>\<close> and \<open><=\<close>. A \<open>f64\<close> is its
  IEEE 754 binary64 bit pattern. The quotient is rounded to nearest, ties to even, over 53 significant
  bits: the counts are below \<open>2^53\<close>, where their own conversion is exact, and \<open>lost\<close> is
  at most \<open>samples\<close>, so that the result is zero or a normal number of \<open>(0, 1]\<close>.
\<close>

type_synonym f64 = u64

section \<open>Comparison\<close>

definition f64_magnitude :: "f64 \<Rightarrow> nat" where
  "f64_magnitude a = unat a mod 2 ^ 63"

definition f64_negative :: "f64 \<Rightarrow> bool" where
  "f64_negative a \<longleftrightarrow> 2 ^ 63 \<le> unat a"

definition f64_nan :: "f64 \<Rightarrow> bool" where
  "f64_nan a \<longleftrightarrow> 2047 * 2 ^ 52 < f64_magnitude a"

definition f64_key :: "f64 \<Rightarrow> int" where
  "f64_key a = (if f64_negative a then - int (f64_magnitude a) else int (f64_magnitude a))"

definition f64_gt :: "f64 \<Rightarrow> f64 \<Rightarrow> bool" where
  "f64_gt a b \<longleftrightarrow> \<not> f64_nan a \<and> \<not> f64_nan b \<and> f64_key b < f64_key a"

definition f64_le :: "f64 \<Rightarrow> f64 \<Rightarrow> bool" where
  "f64_le a b \<longleftrightarrow> \<not> f64_nan a \<and> \<not> f64_nan b \<and> f64_key a \<le> f64_key b"

definition f64_one :: f64 where
  "f64_one = 0x3ff0000000000000"

text \<open>The value of a finite non-negative pattern.\<close>

definition f64_real :: "f64 \<Rightarrow> real" where
  "f64_real a =
     (let e = unat a div 2 ^ 52; f = unat a mod 2 ^ 52
      in real (if e = 0 then f * 2 else (2 ^ 52 + f) * 2 ^ e) / 2 ^ 1075)"

definition f64_unsigned :: "f64 \<Rightarrow> bool" where
  "f64_unsigned a \<longleftrightarrow> unat a < 2047 * 2 ^ 52"

section \<open>Quotient of counts\<close>

text \<open>The least shift of at least 52 that gives the quotient 53 significant bits.\<close>

function norm_shift :: "nat \<Rightarrow> nat \<Rightarrow> nat \<Rightarrow> nat" where
  "norm_shift l s k =
     (if l = 0 \<or> 2 ^ 52 * s \<le> l * 2 ^ k then k else norm_shift l s (Suc k))"
  by pat_completeness auto
termination
proof (relation "measure (\<lambda>(l, s, k). 2 ^ 52 * s - l * 2 ^ k)")
  fix l s k :: nat
  assume a: "\<not> (l = 0 \<or> 2 ^ 52 * s \<le> l * 2 ^ k)"
  then have "l * 2 ^ k < l * 2 ^ Suc k" by simp
  with a have "2 ^ 52 * s - l * 2 ^ Suc k < 2 ^ 52 * s - l * 2 ^ k" by linarith
  then show "((l, s, Suc k), l, s, k) \<in> measure (\<lambda>(l, s, k). 2 ^ 52 * s - l * 2 ^ k)"
    by simp
qed simp

declare norm_shift.simps [simp del]

text \<open>The integer nearest to \<open>a / s\<close>, the even one in a tie.\<close>

definition round_div :: "nat \<Rightarrow> nat \<Rightarrow> nat" where
  "round_div a s =
     (let m = a div s; r = a mod s
      in if 2 * r < s \<or> (2 * r = s \<and> even m) then m else m + 1)"

definition f64_ratio :: "nat \<Rightarrow> nat \<Rightarrow> f64" where
  "f64_ratio l s =
     (if l = 0 then 0
      else let k = norm_shift l s 52
           in of_nat ((1074 - k) * 2 ^ 52 + round_div (l * 2 ^ k) s))"

lemma norm_shift_ge:
  assumes "0 < l"
  shows "k \<le> norm_shift l s k \<and> 2 ^ 52 * s \<le> l * 2 ^ norm_shift l s k"
  using assms
proof (induction l s k rule: norm_shift.induct)
  case (1 l s k)
  then show ?case by (subst (1 2) norm_shift.simps) (auto dest: Suc_leD)
qed

lemma norm_shift_least:
  assumes "0 < l" "k < norm_shift l s k"
  shows "l * 2 ^ norm_shift l s k < 2 * (2 ^ 52 * s)"
  using assms
proof (induction l s k rule: norm_shift.induct)
  case (1 l s k)
  from 1(2,3) have lt: "l * 2 ^ k < 2 ^ 52 * s"
    by (metis norm_shift.simps linorder_not_less nat_neq_iff)
  with 1(2) have eq: "norm_shift l s k = norm_shift l s (Suc k)"
    by (subst norm_shift.simps) simp
  show ?case
  proof (cases "Suc k < norm_shift l s (Suc k)")
    case True
    with 1 lt eq show ?thesis by simp
  next
    case False
    with norm_shift_ge [OF 1(2), of "Suc k" s] have "norm_shift l s (Suc k) = Suc k" by simp
    with eq lt show ?thesis by simp
  qed
qed

lemma norm_shift_bounds:
  assumes "0 < l" "l \<le> s"
  shows "52 \<le> norm_shift l s 52"
    and "2 ^ 52 * s \<le> l * 2 ^ norm_shift l s 52"
    and "l * 2 ^ norm_shift l s 52 < 2 ^ 53 * s"
proof -
  show "52 \<le> norm_shift l s 52" "2 ^ 52 * s \<le> l * 2 ^ norm_shift l s 52"
    using norm_shift_ge [OF assms(1), of 52 s] by blast+
  show "l * 2 ^ norm_shift l s 52 < 2 ^ 53 * s"
  proof (cases "52 < norm_shift l s 52")
    case True
    then show ?thesis using norm_shift_least [OF assms(1) True] by simp
  next
    case False
    with \<open>52 \<le> norm_shift l s 52\<close> have "norm_shift l s 52 = 52" by simp
    with assms show ?thesis by simp
  qed
qed

lemma norm_shift_upper:
  assumes "0 < l" "s < 2 ^ 53"
  shows "norm_shift l s 52 \<le> 105"
proof (rule ccontr)
  assume "\<not> norm_shift l s 52 \<le> 105"
  then have big: "106 \<le> norm_shift l s 52" by simp
  then have "l * 2 ^ norm_shift l s 52 < 2 * (2 ^ 52 * s)"
    by (intro norm_shift_least [OF assms(1)]) simp
  also have "\<dots> < 2 ^ 106" using assms(2) by simp
  also have "\<dots> \<le> 2 ^ norm_shift l s 52" using big by (intro power_increasing) simp_all
  also have "\<dots> \<le> l * 2 ^ norm_shift l s 52" using assms(1) by simp
  finally show False by simp
qed

lemma round_div_le:
  assumes "0 < s" "a \<le> s * n"
  shows "round_div a s \<le> n"
proof -
  have "a div s \<le> n" using assms by (metis div_le_mono nonzero_mult_div_cancel_left not_gr_zero)
  moreover have "a mod s = 0" if "a div s = n"
    using assms that by (metis add_le_cancel_left add.right_neutral le_zero_eq mult_div_mod_eq)
  ultimately show ?thesis using assms(1) by (auto simp: round_div_def Let_def le_less)
qed

lemma f64_ratio_unat:
  assumes "0 < l" "l \<le> s" "s < 2 ^ 53"
  shows "unat (f64_ratio l s)
    = (1074 - norm_shift l s 52) * 2 ^ 52 + round_div (l * 2 ^ norm_shift l s 52) s"
    and "unat (f64_ratio l s) \<le> 1024 * 2 ^ 52"
proof -
  let ?k = "norm_shift l s 52"
  have "round_div (l * 2 ^ ?k) s \<le> 2 ^ 53"
    using norm_shift_bounds(3) [OF assms(1,2)] assms by (intro round_div_le) (simp_all add: mult.commute)
  moreover have "1074 - ?k \<le> 1022" using norm_shift_bounds(1) [OF assms(1,2)] by linarith
  ultimately have bound: "(1074 - ?k) * 2 ^ 52 + round_div (l * 2 ^ ?k) s \<le> 1022 * 2 ^ 52 + 2 ^ 53"
    by (intro add_mono mult_le_mono1)
  then have "(1074 - ?k) * 2 ^ 52 + round_div (l * 2 ^ ?k) s < 2 ^ LENGTH(64)" by simp
  then show eq: "unat (f64_ratio l s) = (1074 - ?k) * 2 ^ 52 + round_div (l * 2 ^ ?k) s"
    using assms(1) by (simp only: f64_ratio_def Let_def unat_of_nat_small if_False less_irrefl
        simp_thms neq0_conv [symmetric])
  show "unat (f64_ratio l s) \<le> 1024 * 2 ^ 52" unfolding eq using bound by simp
qed

text \<open>Rounding is monotone: a quotient of at most a representable value rounds to at most it.\<close>

lemma ratio_bits_le:
  fixes l s k E e f B :: nat
  assumes pos: "0 < l" "0 < s" "0 < E"
    and lo: "B * s \<le> l * 2 ^ k" and hi: "l * 2 ^ k \<le> 2 * B * s" and f: "f < B"
    and le: "l * 2 ^ k * 2 ^ E \<le> s * (if e = 0 then f * 2 else (B + f) * 2 ^ e)"
  shows "(E - 1) * B + round_div (l * 2 ^ k) s \<le> e * B + f"
proof (cases e E rule: linorder_cases)
  case less
  have "(if e = 0 then f * 2 else (B + f) * 2 ^ e) < B * 2 ^ E"
  proof (cases "e = 0")
    case True
    have "(2 :: nat) ^ 1 \<le> 2 ^ E" using pos(3) by (intro power_increasing) simp_all
    then have "f * 2 < B * 2 ^ E" using f by (intro mult_less_le_imp_less) simp_all
    with True show ?thesis by simp
  next
    case False
    have "(B + f) * 2 ^ e < 2 * B * 2 ^ e" using f by simp
    also have "\<dots> = B * 2 ^ Suc e" by simp
    also have "\<dots> \<le> B * 2 ^ E" using less by (intro mult_le_mono2 power_increasing) simp_all
    finally show ?thesis using False by simp
  qed
  then have "s * (if e = 0 then f * 2 else (B + f) * 2 ^ e) < s * (B * 2 ^ E)"
    using pos(2) by simp
  also have "\<dots> \<le> l * 2 ^ k * 2 ^ E"
    using lo by (simp add: mult.assoc [symmetric] mult.commute [of s])
  finally show ?thesis using le by simp
next
  case equal
  then have "l * 2 ^ k * 2 ^ E \<le> s * (B + f) * 2 ^ E" using le pos(3) by (simp add: mult.assoc)
  then have "l * 2 ^ k \<le> s * (B + f)" by simp
  with pos(2) have "round_div (l * 2 ^ k) s \<le> B + f" by (rule round_div_le)
  then have "(E - 1) * B + round_div (l * 2 ^ k) s \<le> (E - 1) * B + B + f" by simp
  also have "(E - 1) * B + B = E * B" using pos(3) by (cases E) simp_all
  finally show ?thesis using equal by simp
next
  case greater
  have "round_div (l * 2 ^ k) s \<le> 2 * B"
    using pos(2) hi by (intro round_div_le) (simp_all add: mult.commute)
  then have "(E - 1) * B + round_div (l * 2 ^ k) s \<le> (E - 1) * B + 2 * B" by simp
  also have "\<dots> = (E + 1) * B" using pos(3) by (cases E) simp_all
  also have "\<dots> \<le> e * B" using greater by (intro mult_le_mono1) simp
  finally show ?thesis by simp
qed

lemma f64_ratio_le:
  assumes "0 < s" "l \<le> s" "s < 2 ^ 53" and "real l / real s \<le> f64_real b"
  shows "unat (f64_ratio l s) \<le> unat b"
proof (cases "l = 0")
  case True
  then show ?thesis by (simp add: f64_ratio_def)
next
  case False
  then have l: "0 < l" by simp
  let ?k = "norm_shift l s 52"
  define e f X where "e = unat b div 2 ^ 52" and "f = unat b mod 2 ^ 52"
    and "X = (if e = 0 then f * 2 else (2 ^ 52 + f) * 2 ^ e)"
  have k: "52 \<le> ?k" "?k \<le> 105"
    using norm_shift_bounds(1) [OF l assms(2)] norm_shift_upper [OF l assms(3)] by auto
  have "real l / real s \<le> real X / 2 ^ 1075"
    using assms(4) by (simp only: f64_real_def Let_def e_def f_def X_def)
  then have "real l * 2 ^ 1075 \<le> real s * real X"
    using assms(1) by (simp add: divide_le_eq pos_le_divide_eq mult.commute field_simps)
  then have "real (l * 2 ^ 1075) \<le> real (s * X)"
    by (simp only: of_nat_mult of_nat_power of_nat_numeral)
  then have "l * 2 ^ 1075 \<le> s * X" by (simp only: of_nat_le_iff)
  moreover have "(2 :: nat) ^ 1075 = 2 ^ ?k * 2 ^ (1075 - ?k)"
    using k by (simp only: power_add [symmetric]) simp
  ultimately have "l * 2 ^ ?k * 2 ^ (1075 - ?k) \<le> s * X" by (simp only: mult.assoc)
  then have "(1075 - ?k - 1) * 2 ^ 52 + round_div (l * 2 ^ ?k) s \<le> e * 2 ^ 52 + f"
    using norm_shift_bounds [OF l assms(2)] k l assms(1)
    by (intro ratio_bits_le [where B = "2 ^ 52"]) (simp_all add: X_def f_def)
  also have "e * 2 ^ 52 + f = unat b" by (simp add: e_def f_def)
  finally show ?thesis by (simp add: f64_ratio_unat(1) [OF l assms(2,3)])
qed

lemma f64_gt_ratio_real:
  assumes "0 < s" "l \<le> s" "s < 2 ^ 53" and "f64_unsigned b" and "f64_gt (f64_ratio l s) b"
  shows "f64_real b < real l / real s"
proof (rule ccontr)
  assume "\<not> ?thesis"
  then have le: "unat (f64_ratio l s) \<le> unat b"
    using assms by (intro f64_ratio_le) simp_all
  moreover have "unat b < 2 ^ 63" using assms(4) by (simp add: f64_unsigned_def)
  ultimately have "f64_key (f64_ratio l s) \<le> f64_key b"
    by (simp add: f64_key_def f64_negative_def f64_magnitude_def word_le_iff_unat flip: word_le_def)
  with assms(5) show False by (simp add: f64_gt_def)
qed

end
