(* ===== verification/Config.thy ===== *)
theory Config
  imports Model Durations Float64
begin

text \<open>
  The validated configuration (\<open>config/mod.rs\<close>) and the enumerations of the file format
  that it reuses (\<open>config/raw.rs\<close>). Paths and names are strings. A \<open>f64\<close> is its bit
  pattern.
\<close>

section \<open>Enumerations\<close>

datatype all_down_policy = ReadyPolicy | KeepPolicy

datatype on_shutdown = KeepOnShutdown | CleanupOnShutdown

datatype firewall_mode = Managed | External

datatype nat_mode = Masquerade | Snat | NatNone

datatype ip_protocol = Tcp | Udp | Sctp | Icmp | Icmpv6

datatype fallback = Balance | Block

datatype 'a auto_or = Auto | Static 'a

text \<open>\<open>SocketAddr\<close>: an address and a port, with the flow and scope of IPv6.\<close>

datatype socket_addr = SaV4 u32 u16 | SaV6 u128 u16 u32 u32

fun sa_ip :: "socket_addr \<Rightarrow> ip_addr" where
  "sa_ip (SaV4 a p) = IpV4 a"
| "sa_ip (SaV6 a p f s) = IpV6 a"

fun sa_port :: "socket_addr \<Rightarrow> u16" where
  "sa_port (SaV4 a p) = p"
| "sa_port (SaV6 a p f s) = p"

datatype target = TargetIcmp ip_addr | TargetTcp socket_addr

fun target_addr :: "target \<Rightarrow> ip_addr" where
  "target_addr (TargetIcmp a) = a"
| "target_addr (TargetTcp s) = sa_ip s"

record ip_net =
  net_addr :: ip_addr
  net_len :: u8

section \<open>The configuration\<close>

record routing =
  table_base :: u32
  rule_priority_base :: u32
  route_protocol :: u8
  fwmark_mask :: fw_mask
  all_down :: all_down_policy
  discovery_tables :: "u32 list"
  manage_sysctls :: bool
  reconcile_interval :: duration
  shutdown_action :: on_shutdown

record structural =
  st_fwmark_mask :: fw_mask
  st_table_base :: u32
  st_rule_priority_base :: u32
  st_route_protocol :: u8
  st_firewall_mode :: firewall_mode

record firewall =
  fw_mode :: firewall_mode
  nat_priority :: "32 word"
  nft_path :: string

record path_settings =
  ps_source :: "ip_addr auto_or"
  ps_gateway :: "ip_addr auto_or"
  gateway_onlink :: bool
  ps_nat :: nat_mode

record quality =
  max_rtt :: "duration option"
  max_jitter :: "duration option"
  max_loss :: "f64 option"

definition quality_enabled :: "quality \<Rightarrow> bool" where
  "quality_enabled q \<longleftrightarrow> max_rtt q \<noteq> None \<or> max_jitter q \<noteq> None \<or> max_loss q \<noteq> None"

record health =
  h_interval :: duration
  h_timeout :: duration
  h_attempts :: u8
  required_reachable :: u8
  h_fall :: u8
  h_rise :: u8
  targets_v4 :: "target list"
  targets_v6 :: "target list"
  h_quality :: quality
  quality_window :: u8
  quality_min_samples :: u16

fun health_targets :: "health \<Rightarrow> family \<Rightarrow> target list" where
  "health_targets h V4 = targets_v4 h"
| "health_targets h V6 = targets_v6 h"

record uplink =
  u_id :: uplink_id
  u_name :: string
  u_description :: string
  u_interface :: string
  u_priority :: "u16 option"
  u_weight :: u16
  u_ipv4 :: "path_settings option"
  u_ipv6 :: "path_settings option"
  u_health :: health

fun uplink_path :: "uplink \<Rightarrow> family \<Rightarrow> path_settings option" where
  "uplink_path u V4 = u_ipv4 u"
| "uplink_path u V6 = u_ipv6 u"

definition uplink_families :: "uplink \<Rightarrow> family list" where
  "uplink_families u = filter (\<lambda>f. uplink_path u f \<noteq> None) all_families"

record policy =
  p_name :: string
  p_family :: family
  p_input_interface :: "string option"
  p_source :: "ip_net option"
  p_destination :: "ip_net option"
  p_protocol :: "ip_protocol option"
  p_destination_port :: "(u16 \<times> u16) option"
  p_uplink :: uplink_id
  p_fallback :: fallback

record email =
  e_from :: string
  e_to :: "string list"
  e_sendmail :: string
  e_max_per_hour :: u32
  e_events :: "string list"

record hook =
  hk_command :: "string list"
  hk_events :: "string list option"
  hk_timeout :: duration

record notify =
  n_coalesce :: duration
  n_email :: "email option"
  n_hooks :: "hook list"
  n_hook_user :: string

record api =
  a_socket :: string
  a_group :: string
  a_status_socket :: "string option"
  a_status_group :: "string option"

record config =
  c_routing :: routing
  c_firewall :: firewall
  c_downlinks :: "string list"
  c_uplinks :: "uplink list"
  c_policies :: "policy list"
  c_notify :: notify
  c_api :: api
  c_metrics_listen :: "socket_addr option"
  c_state_dir :: string
  c_digest :: string

definition config_structural :: "config \<Rightarrow> structural" where
  "config_structural c =
     \<lparr>st_fwmark_mask = fwmark_mask (c_routing c),
      st_table_base = table_base (c_routing c),
      st_rule_priority_base = rule_priority_base (c_routing c),
      st_route_protocol = route_protocol (c_routing c),
      st_firewall_mode = fw_mode (c_firewall c)\<rparr>"

definition config_manages :: "config \<Rightarrow> family \<Rightarrow> bool" where
  "config_manages c f \<longleftrightarrow> list_ex (\<lambda>u. uplink_path u f \<noteq> None) (c_uplinks c)"

definition config_uplink :: "config \<Rightarrow> uplink_id \<Rightarrow> uplink option" where
  "config_uplink c i = find (\<lambda>u. u_id u = i) (c_uplinks c)"

section \<open>Well-formed configurations\<close>

text \<open>What the planner needs of an accepted configuration.\<close>

definition layout_bounds :: "u32 \<Rightarrow> u32 \<Rightarrow> bool" where
  "layout_bounds tb pb \<longleftrightarrow>
     1 \<le> unat tb \<and> unat tb \<le> 4294967294 - 191 \<and> 1 \<le> unat pb \<and> unat pb \<le> 32765 - 699"

definition routing_wf :: "routing \<Rightarrow> bool" where
  "routing_wf r \<longleftrightarrow>
     layout_bounds (table_base r) (rule_priority_base r) \<and> fwm_ok (fwmark_mask r) \<and>
     \<not> in_range (table_base r) (table_base r + 191) 254 \<and>
     (\<forall>t\<in>set (discovery_tables r). \<not> in_range (table_base r) (table_base r + 191) t)"

definition uplinks_wf :: "uplink list \<Rightarrow> bool" where
  "uplinks_wf us \<longleftrightarrow>
     (\<forall>u\<in>set us. valid_id (u_id u) \<and> 1 \<le> unat (u_weight u) \<and> unat (u_weight u) \<le> 256) \<and>
     distinct (map u_id us) \<and> distinct (map u_name us) \<and> distinct (map u_interface us)"

definition config_wf :: "config \<Rightarrow> bool" where
  "config_wf c \<longleftrightarrow> routing_wf (c_routing c) \<and> uplinks_wf (c_uplinks c)"

lemma uplink_families_iff: "f \<in> set (uplink_families u) \<longleftrightarrow> uplink_path u f \<noteq> None"
  by (cases f) (auto simp: uplink_families_def all_families_def)

lemma config_manages_iff: "config_manages c f \<longleftrightarrow> (\<exists>u\<in>set (c_uplinks c). uplink_path u f \<noteq> None)"
  by (auto simp: config_manages_def list_ex_iff)

lemma config_uplink_unique:
  assumes "distinct (map u_id (c_uplinks c))" and "u \<in> set (c_uplinks c)"
  shows "config_uplink c (u_id u) = Some u"
proof (cases "config_uplink c (u_id u)")
  case None
  with assms(2) show ?thesis
    by (auto simp: config_uplink_def find_None_iff_mem)
next
  case (Some v)
  then have "v \<in> set (c_uplinks c)" and "u_id v = u_id u"
    by (auto simp: config_uplink_def dest: find_Some_iff_mem)
  with assms have "v = u"
    by (auto simp: distinct_map dest: inj_onD)
  with Some show ?thesis by simp
qed

section \<open>An example\<close>

text \<open>Two uplinks with IPv4 paths, of weights 1 and 2: the input of the concrete instances.\<close>

definition example_health :: health where
  "example_health =
     \<lparr>h_interval = 10 ^ 10, h_timeout = 2 * 10 ^ 9, h_attempts = 2, required_reachable = 1,
      h_fall = 3, h_rise = 3, targets_v4 = [TargetIcmp (IpV4 0x01010101)], targets_v6 = [],
      h_quality = \<lparr>max_rtt = None, max_jitter = None, max_loss = None\<rparr>,
      quality_window = 6, quality_min_samples = 10\<rparr>"

definition example_uplink :: "u8 \<Rightarrow> string \<Rightarrow> u16 \<Rightarrow> uplink" where
  "example_uplink n name w =
     \<lparr>u_id = UplinkId n, u_name = name, u_description = name, u_interface = ''if-'' @ name,
      u_priority = Some 1, u_weight = w,
      u_ipv4 = Some \<lparr>ps_source = Auto, ps_gateway = Auto, gateway_onlink = False, ps_nat = Masquerade\<rparr>,
      u_ipv6 = None, u_health = example_health\<rparr>"

definition example_config :: config where
  "example_config =
     \<lparr>c_routing =
        \<lparr>table_base = 1000, rule_priority_base = 10000, route_protocol = 187,
         fwmark_mask = fwm_default, all_down = ReadyPolicy, discovery_tables = [254],
         manage_sysctls = True, reconcile_interval = 3 * 10 ^ 10, shutdown_action = KeepOnShutdown\<rparr>,
      c_firewall = \<lparr>fw_mode = Managed, nat_priority = 100, nft_path = ''/usr/sbin/nft''\<rparr>,
      c_downlinks = [''lan''],
      c_uplinks = [example_uplink 1 ''a'' 1, example_uplink 2 ''b'' 2],
      c_policies = [],
      c_notify = \<lparr>n_coalesce = 10 ^ 10, n_email = None, n_hooks = [], n_hook_user = ''nobody''\<rparr>,
      c_api = \<lparr>a_socket = ''/run/polywan/api.sock'', a_group = ''polywan'', a_status_socket = None,
               a_status_group = None\<rparr>,
      c_metrics_listen = None, c_state_dir = ''/var/lib/polywan'', c_digest = []\<rparr>"

lemma example_config_wf: "config_wf example_config"
  by (simp add: config_wf_def routing_wf_def uplinks_wf_def layout_bounds_def example_config_def
      example_uplink_def fwm_ok_def fwm_default_def in_range_def valid_id_unat word_le_iff_unat)

lemma example_config_uplinks:
  "c_uplinks example_config = [example_uplink 1 ''a'' 1, example_uplink 2 ''b'' 2]"
  by (simp add: example_config_def)

end
