(* ===== verification/Health.thy ===== *)
theory Health
  imports Prelude
begin

text \<open>
  The health state machine of a path (\<open>health.rs\<close>): a ready path starts up (cold start)
  or where its checkpoint left it (warm start), goes down after \<open>fall\<close> failed rounds in a row
  or at once when it stops being ready, and comes back after \<open>rise\<close> passed rounds in a row.
  The methods that change the machine return the new machine and the transition they report.
\<close>

section \<open>The machine\<close>

datatype health_state = Down | Up

datatype reason =
  ProbeFailed | DegradedReason | CarrierLost | InterfaceRemoved | AddressLost | AddressConflict
  | GatewayLost | RouteInstallFailed | ProbesRecovered | Startup

fun reason_str :: "reason \<Rightarrow> string" where
  "reason_str ProbeFailed = ''probe_failed''"
| "reason_str DegradedReason = ''degraded''"
| "reason_str CarrierLost = ''carrier_lost''"
| "reason_str InterfaceRemoved = ''interface_removed''"
| "reason_str AddressLost = ''address_lost''"
| "reason_str AddressConflict = ''address_conflict''"
| "reason_str GatewayLost = ''gateway_lost''"
| "reason_str RouteInstallFailed = ''route_install_failed''"
| "reason_str ProbesRecovered = ''probes_recovered''"
| "reason_str Startup = ''startup''"

datatype round = Passed | Failed | Degraded

record transition =
  t_from :: health_state
  t_to :: health_state
  t_reason :: reason

record hysteresis =
  hy_fall :: u8
  hy_rise :: u8

record snapshot =
  s_state :: health_state
  s_passes :: u8
  s_failures :: u8

record machine =
  m_state :: health_state
  m_reason :: reason
  m_passes :: u8
  m_failures :: u8
  m_optimistic :: bool
  m_ready :: bool

fun machine_new :: "bool \<Rightarrow> reason \<Rightarrow> snapshot option \<Rightarrow> machine" where
  "machine_new False not_ready_reason _ =
     \<lparr>m_state = Down, m_reason = not_ready_reason, m_passes = 0, m_failures = 0,
      m_optimistic = False, m_ready = False\<rparr>"
| "machine_new True _ (Some s) =
     \<lparr>m_state = s_state s, m_reason = Startup, m_passes = s_passes s, m_failures = s_failures s,
      m_optimistic = False, m_ready = True\<rparr>"
| "machine_new True _ None =
     \<lparr>m_state = Up, m_reason = Startup, m_passes = 0, m_failures = 0,
      m_optimistic = True, m_ready = True\<rparr>"

definition machine_is_up :: "machine \<Rightarrow> bool" where
  "machine_is_up m \<longleftrightarrow> m_state m = Up"

definition machine_snapshot :: "machine \<Rightarrow> snapshot" where
  "machine_snapshot m = \<lparr>s_state = m_state m, s_passes = m_passes m, s_failures = m_failures m\<rparr>"

definition machine_go :: "machine \<Rightarrow> health_state \<Rightarrow> reason \<Rightarrow> machine \<times> transition option" where
  "machine_go m to rsn =
     (let m' = m\<lparr>m_reason := rsn\<rparr> in
      if m_state m' = to then (m', None)
      else (m'\<lparr>m_state := to\<rparr>, Some \<lparr>t_from = m_state m', t_to = to, t_reason = rsn\<rparr>))"

definition machine_set_ready :: "machine \<Rightarrow> bool \<Rightarrow> reason \<Rightarrow> machine \<times> transition option" where
  "machine_set_ready m ready rsn =
     (if ready = m_ready m then (m, None)
      else
        let m' = m\<lparr>m_ready := ready, m_passes := 0, m_failures := 0, m_optimistic := False\<rparr>
        in if ready then (m', None) else machine_go m' Down rsn)"

definition failure_reason :: "round \<Rightarrow> reason" where
  "failure_reason r = (if r = Degraded then DegradedReason else ProbeFailed)"

definition machine_round :: "machine \<Rightarrow> round \<Rightarrow> hysteresis \<Rightarrow> machine \<times> transition option" where
  "machine_round m r h =
     (if \<not> m_ready m then (m, None)
      else if m_optimistic m then
        (let m1 = m\<lparr>m_optimistic := False\<rparr> in
         if r = Passed then (m1\<lparr>m_passes := 1\<rparr>, None)
         else machine_go (m1\<lparr>m_failures := 1\<rparr>) Down (failure_reason r))
      else if r = Passed then
        (let m1 = m\<lparr>m_failures := 0, m_passes := saturating_add (m_passes m) 1\<rparr> in
         if m_state m1 = Down \<and> hy_rise h \<le> m_passes m1 then machine_go m1 Up ProbesRecovered
         else (m1, None))
      else
        (let m1 = m\<lparr>m_passes := 0, m_failures := saturating_add (m_failures m) 1\<rparr> in
         if m_state m1 = Up \<and> hy_fall h \<le> m_failures m1 then machine_go m1 Down (failure_reason r)
         else (m1, None)))"

lemmas machine_defs = machine_go_def machine_set_ready_def machine_round_def Let_def

section \<open>Runs of the machine\<close>

datatype health_event = ReadyChanged bool reason | RoundDone round hysteresis

fun machine_event :: "health_event \<Rightarrow> machine \<Rightarrow> machine \<times> transition option" where
  "machine_event (ReadyChanged b rsn) m = machine_set_ready m b rsn"
| "machine_event (RoundDone r h) m = machine_round m r h"

text \<open>One step of the machine, with the transition it reports.\<close>

inductive health_step :: "machine \<Rightarrow> transition option \<Rightarrow> machine \<Rightarrow> bool" where
  ready_changed: "machine_set_ready m b rsn = (m', t) \<Longrightarrow> health_step m t m'"
| round_done: "machine_round m r h = (m', t) \<Longrightarrow> health_step m t m'"

inductive_cases health_stepE: "health_step m t m'"

text \<open>A checkpoint as a machine can have written it: never both counters running.\<close>

definition snapshot_ok :: "snapshot \<Rightarrow> bool" where
  "snapshot_ok s \<longleftrightarrow> s_passes s = 0 \<or> s_failures s = 0"

inductive health_reachable :: "machine \<Rightarrow> bool" where
  start: "(\<And>s. warm = Some s \<Longrightarrow> snapshot_ok s) \<Longrightarrow> health_reachable (machine_new b rsn warm)"
| step: "health_reachable m \<Longrightarrow> health_step m t m' \<Longrightarrow> health_reachable m'"

text \<open>
  The invariant: a path that is not ready is down with no round counted; the optimism of a cold
  start holds only for a ready path that is up with no round counted; of the two counters at most
  one runs.
\<close>

definition machine_inv :: "machine \<Rightarrow> bool" where
  "machine_inv m \<longleftrightarrow>
     (\<not> m_ready m \<longrightarrow> m_state m = Down \<and> m_passes m = 0 \<and> m_failures m = 0 \<and> \<not> m_optimistic m) \<and>
     (m_optimistic m \<longrightarrow> m_state m = Up \<and> m_passes m = 0 \<and> m_failures m = 0) \<and>
     (m_passes m = 0 \<or> m_failures m = 0)"

lemma machine_inv_new:
  "(\<And>s. warm = Some s \<Longrightarrow> snapshot_ok s) \<Longrightarrow> machine_inv (machine_new b rsn warm)"
  by (cases b; cases warm) (auto simp: machine_inv_def snapshot_ok_def)

lemma machine_inv_set_ready: "machine_inv m \<Longrightarrow> machine_inv (fst (machine_set_ready m b rsn))"
  by (auto simp: machine_inv_def machine_defs)

lemma machine_inv_round: "machine_inv m \<Longrightarrow> machine_inv (fst (machine_round m r h))"
  by (auto simp: machine_inv_def machine_defs)

lemma machine_inv_event: "machine_inv m \<Longrightarrow> machine_inv (fst (machine_event e m))"
  by (cases e) (simp_all add: machine_inv_set_ready machine_inv_round)

interpretation hm: invariant_system
  "\<lambda>m. \<exists>b rsn warm. m = machine_new b rsn warm \<and> (\<forall>s. warm = Some s \<longrightarrow> snapshot_ok s)"
  "\<lambda>e m. fst (machine_event e m)" machine_inv
  by unfold_locales (auto simp: machine_inv_event intro!: machine_inv_new)

lemma machine_inv_after: "machine_inv m \<Longrightarrow> machine_inv (fold (\<lambda>e m. fst (machine_event e m)) es m)"
  by (rule hm.run_keeps)

text \<open>
  In every reachable state of the machine the invariant holds; in particular a path that is
  not ready is never up, so no stale health keeps it in use.
\<close>

theorem health_reachable_inv:
  assumes "health_reachable m"
  shows "machine_inv m \<and> (m_ready m \<or> \<not> machine_is_up m)"
proof -
  have "machine_inv m"
    using assms
  proof (induction rule: health_reachable.induct)
    case (start warm b rsn)
    then show ?case by (rule machine_inv_new)
  next
    case (step m t m')
    from step.hyps(2) step.IH show ?case
      using machine_inv_set_ready machine_inv_round by (auto elim!: health_stepE) (metis fst_conv)+
  qed
  then show ?thesis by (auto simp: machine_inv_def machine_is_up_def)
qed

theorem health_reachable_inv_witness:
  "\<not> machine_is_up (fst (machine_set_ready (machine_new True Startup None) False CarrierLost))"
proof -
  let ?m = "machine_new True Startup None"
  have "health_reachable ?m" by (rule health_reachable.start) simp
  moreover have "health_step ?m (snd (machine_set_ready ?m False CarrierLost))
      (fst (machine_set_ready ?m False CarrierLost))"
    by (rule health_step.ready_changed) (rule surjective_pairing)
  ultimately have "health_reachable (fst (machine_set_ready ?m False CarrierLost))"
    by (rule health_reachable.step)
  from health_reachable_inv [OF this] show ?thesis
    by (simp add: machine_defs)
qed

text \<open>
  A transition is reported exactly when the state changes, with the states before and after
  and the reason the machine then shows; whatever the operation.
\<close>

theorem transition_reports_change:
  "case machine_event e m of (m', t) \<Rightarrow>
     (t = None \<longleftrightarrow> m_state m' = m_state m) \<and>
     (\<forall>x. t = Some x \<longrightarrow> t_from x = m_state m \<and> t_to x = m_state m' \<and> t_reason x = m_reason m')"
  by (cases e) (auto simp: machine_defs split: prod.splits)

theorem transition_reports_change_witness:
  "snd (machine_event (RoundDone Failed \<lparr>hy_fall = 2, hy_rise = 3\<rparr>) (machine_new True Startup None))
    = Some \<lparr>t_from = Up, t_to = Down, t_reason = ProbeFailed\<rparr>"
  using transition_reports_change
    [where e = "RoundDone Failed \<lparr>hy_fall = 2, hy_rise = 3\<rparr>" and m = "machine_new True Startup None"]
  by (simp add: machine_defs failure_reason_def)

section \<open>Hysteresis\<close>

text \<open>The machine after a sequence of rounds with one pair of thresholds.\<close>

definition after_rounds :: "hysteresis \<Rightarrow> machine \<Rightarrow> round list \<Rightarrow> machine" where
  "after_rounds h m rs = fold (\<lambda>r m. fst (machine_round m r h)) rs m"

text \<open>
  The abstract view: a counter of consecutive outcomes that satisfy \<open>P\<close>, starting from
  \<open>c\<close>, reaches \<open>n\<close> within the sequence.
\<close>

fun streak_reaches :: "('a \<Rightarrow> bool) \<Rightarrow> nat \<Rightarrow> nat \<Rightarrow> 'a list \<Rightarrow> bool" where
  "streak_reaches P n c [] = False"
| "streak_reaches P n c (r # rs) =
     (if P r then n \<le> Suc c \<or> streak_reaches P n (Suc c) rs else streak_reaches P n 0 rs)"

text \<open>The machine has been up, or down, after some non-empty prefix of the rounds.\<close>

definition visits :: "health_state \<Rightarrow> hysteresis \<Rightarrow> machine \<Rightarrow> round list \<Rightarrow> bool" where
  "visits st h m rs \<longleftrightarrow> (\<exists>k\<in>{1..length rs}. m_state (after_rounds h m (take k rs)) = st)"

lemma visits_Nil [simp]: "\<not> visits st h m []"
  by (simp add: visits_def)

lemma visits_Cons:
  "visits st h m (r # rs) \<longleftrightarrow>
     m_state (fst (machine_round m r h)) = st \<or> visits st h (fst (machine_round m r h)) rs"
proof
  assume "visits st h m (r # rs)"
  then obtain k where k: "k \<in> {1..length (r # rs)}" "m_state (after_rounds h m (take k (r # rs))) = st"
    by (auto simp: visits_def)
  then obtain j where j: "k = Suc j" by (cases k) auto
  show "m_state (fst (machine_round m r h)) = st \<or> visits st h (fst (machine_round m r h)) rs"
  proof (cases "j = 0")
    case True
    with k j show ?thesis by (simp add: after_rounds_def)
  next
    case False
    with k j have "j \<in> {1..length rs}"
      "m_state (after_rounds h (fst (machine_round m r h)) (take j rs)) = st"
      by (auto simp: after_rounds_def)
    then show ?thesis by (auto simp: visits_def)
  qed
next
  assume "m_state (fst (machine_round m r h)) = st \<or> visits st h (fst (machine_round m r h)) rs"
  then show "visits st h m (r # rs)"
  proof
    assume "m_state (fst (machine_round m r h)) = st"
    then show ?thesis
      by (auto simp: visits_def after_rounds_def intro!: bexI [of _ 1])
  next
    assume "visits st h (fst (machine_round m r h)) rs"
    then obtain k where "k \<in> {1..length rs}"
      "m_state (after_rounds h (fst (machine_round m r h)) (take k rs)) = st"
      by (auto simp: visits_def)
    then show ?thesis
      by (auto simp: visits_def after_rounds_def intro!: bexI [of _ "Suc k"])
  qed
qed

lemma unat_sat_inc: "unat (saturating_add a (1 :: u8)) = min (Suc (unat a)) 255"
  by (simp add: unat_saturating_add)

lemma streak_min:
  "n \<le> 255 \<Longrightarrow> streak_reaches P n (min c 255) rs = streak_reaches P n c rs"
proof (induction rs arbitrary: c)
  case Nil
  then show ?case by simp
next
  case (Cons r rs)
  show ?case
  proof (cases "c < 255")
    case True
    then show ?thesis by (simp add: min_def)
  next
    case False
    then show ?thesis using Cons.prems by (simp add: min_def)
  qed
qed

lemma visits_up_iff:
  assumes "m_ready m" "\<not> m_optimistic m" "m_state m = Down"
  shows "visits Up h m rs \<longleftrightarrow> streak_reaches ((=) Passed) (unat (hy_rise h)) (unat (m_passes m)) rs"
  using assms
proof (induction rs arbitrary: m)
  case Nil
  then show ?case by simp
next
  case (Cons r rs)
  let ?m = "fst (machine_round m r h)"
  have le: "unat (hy_rise h) \<le> 255"
    by (rule unat_u8_le)
  show ?case
  proof (cases "m_state ?m = Up")
    case True
    then have "r = Passed" "unat (hy_rise h) \<le> Suc (unat (m_passes m))"
      using Cons.prems
      by (auto simp: machine_defs word_le_iff_unat unat_sat_inc split: if_splits)
    with True show ?thesis by (simp add: visits_Cons)
  next
    case False
    have ready: "m_ready ?m" "\<not> m_optimistic ?m" "m_state ?m = Down"
      using Cons.prems False by (auto simp: machine_defs split: if_splits)
    have vis: "visits Up h m (r # rs) \<longleftrightarrow>
        streak_reaches ((=) Passed) (unat (hy_rise h)) (unat (m_passes ?m)) rs"
      using Cons.IH [OF ready] ready by (simp add: visits_Cons)
    show ?thesis
    proof (cases "r = Passed")
      case True
      then have p: "unat (m_passes ?m) = min (Suc (unat (m_passes m))) 255"
        and n: "\<not> unat (hy_rise h) \<le> min (Suc (unat (m_passes m))) 255"
        using Cons.prems False
        by (auto simp: machine_defs word_le_iff_unat unat_sat_inc split: if_splits)
      from n le have "\<not> unat (hy_rise h) \<le> Suc (unat (m_passes m))" by simp
      with True show ?thesis
        unfolding vis p streak_min [OF le] by simp
    next
      case False
      then have "m_passes ?m = 0"
        using Cons.prems by (auto simp: machine_defs)
      with False show ?thesis by (simp add: vis)
    qed
  qed
qed

lemma visits_down_iff:
  assumes "m_ready m" "\<not> m_optimistic m" "m_state m = Up"
  shows "visits Down h m rs \<longleftrightarrow>
    streak_reaches (\<lambda>r. r \<noteq> Passed) (unat (hy_fall h)) (unat (m_failures m)) rs"
  using assms
proof (induction rs arbitrary: m)
  case Nil
  then show ?case by simp
next
  case (Cons r rs)
  let ?m = "fst (machine_round m r h)"
  have le: "unat (hy_fall h) \<le> 255"
    by (rule unat_u8_le)
  show ?case
  proof (cases "m_state ?m = Down")
    case True
    then have "r \<noteq> Passed" "unat (hy_fall h) \<le> Suc (unat (m_failures m))"
      using Cons.prems
      by (auto simp: machine_defs word_le_iff_unat unat_sat_inc split: if_splits)
    with True show ?thesis by (simp add: visits_Cons)
  next
    case False
    have ready: "m_ready ?m" "\<not> m_optimistic ?m" "m_state ?m = Up"
      using Cons.prems False by (auto simp: machine_defs split: if_splits)
    have vis: "visits Down h m (r # rs) \<longleftrightarrow>
        streak_reaches (\<lambda>r. r \<noteq> Passed) (unat (hy_fall h)) (unat (m_failures ?m)) rs"
      using Cons.IH [OF ready] ready by (simp add: visits_Cons)
    show ?thesis
    proof (cases "r = Passed")
      case True
      then have "m_failures ?m = 0"
        using Cons.prems by (auto simp: machine_defs)
      with True show ?thesis unfolding vis by simp
    next
      case False
      then have p: "unat (m_failures ?m) = min (Suc (unat (m_failures m))) 255"
        and n: "\<not> unat (hy_fall h) \<le> min (Suc (unat (m_failures m))) 255"
        using Cons.prems ready(3)
        by (auto simp: machine_defs word_le_iff_unat unat_sat_inc split: if_splits)
      from n le have "\<not> unat (hy_fall h) \<le> Suc (unat (m_failures m))" by simp
      with False show ?thesis
        unfolding vis p streak_min [OF le] by simp
    qed
  qed
qed

text \<open>
  C10. Exact hysteresis: past the first round of a cold start, a ready path that is down comes up
  within a sequence of rounds exactly when the sequence holds \<open>rise\<close> passed rounds in a row
  (counting those already counted), and one that is up goes down exactly when it holds
  \<open>fall\<close> rounds in a row that failed or were degraded. The 8-bit saturating counters never
  miss a threshold.
\<close>

theorem hysteresis_exact:
  assumes "m_ready m" and "\<not> m_optimistic m"
  shows "(m_state m = Down \<longrightarrow>
      (visits Up h m rs \<longleftrightarrow> streak_reaches ((=) Passed) (unat (hy_rise h)) (unat (m_passes m)) rs))
    \<and> (m_state m = Up \<longrightarrow>
      (visits Down h m rs \<longleftrightarrow>
        streak_reaches (\<lambda>r. r \<noteq> Passed) (unat (hy_fall h)) (unat (m_failures m)) rs))"
  using visits_up_iff visits_down_iff assms by simp

theorem hysteresis_exact_witness:
  "visits Up \<lparr>hy_fall = 2, hy_rise = 3\<rparr>
     (machine_new True Startup (Some \<lparr>s_state = Down, s_passes = 0, s_failures = 0\<rparr>))
     [Passed, Failed, Passed, Passed, Passed]"
  using hysteresis_exact
    [of "machine_new True Startup (Some \<lparr>s_state = Down, s_passes = 0, s_failures = 0\<rparr>)"
      "\<lparr>hy_fall = 2, hy_rise = 3\<rparr>" "[Passed, Failed, Passed, Passed, Passed]"]
  by simp

text \<open>
  A cold start is decided by its first round: the path is up before it, and after it it is up
  exactly when the round passed; from then on the machine is no longer optimistic.
\<close>

theorem cold_start_first_round:
  "machine_is_up (machine_new True rsn None)
    \<and> (machine_is_up (fst (machine_round (machine_new True rsn None) r h)) \<longleftrightarrow> r = Passed)
    \<and> \<not> m_optimistic (fst (machine_round (machine_new True rsn None) r h))"
  by (auto simp: machine_is_up_def machine_defs)

text \<open>
  Losing readiness takes a path down at once whatever its counters, and a path that becomes
  ready again stays down until its rounds bring it back: it needs \<open>rise\<close> passed rounds in a
  row, counted from zero.
\<close>

theorem readiness_lost_and_regained:
  assumes "machine_inv m" and "m_ready m"
  shows "case machine_set_ready m False rsn of (m1, t) \<Rightarrow>
      m_state m1 = Down \<and> (t \<noteq> None \<longleftrightarrow> m_state m = Up) \<and>
      (case machine_set_ready m1 True rsn' of (m2, t') \<Rightarrow>
         t' = None \<and> m_ready m2 \<and>
         (visits Up h m2 rs \<longleftrightarrow> streak_reaches ((=) Passed) (unat (hy_rise h)) 0 rs))"
proof -
  obtain m1 t where m1: "machine_set_ready m False rsn = (m1, t)" by fastforce
  obtain m2 t' where m2: "machine_set_ready m1 True rsn' = (m2, t')" by fastforce
  have down: "m_state m1 = Down" "\<not> m_ready m1" "t \<noteq> None \<longleftrightarrow> m_state m = Up"
    using m1 assms by (auto simp: machine_defs split: if_splits) (cases "m_state m"; simp)+
  have up: "t' = None" "m_ready m2" "\<not> m_optimistic m2" "m_state m2 = Down" "m_passes m2 = 0"
    using m2 down by (auto simp: machine_defs split: if_splits)
  have "visits Up h m2 rs \<longleftrightarrow> streak_reaches ((=) Passed) (unat (hy_rise h)) 0 rs"
    using visits_up_iff [OF up(2,3,4)] up(5) by simp
  with down up show ?thesis by (simp add: m1 m2)
qed

theorem readiness_lost_and_regained_witness:
  "m_state (fst (machine_set_ready (machine_new True Startup None) False GatewayLost)) = Down"
proof -
  have inv: "machine_inv (machine_new True Startup None)" by (simp add: machine_inv_def)
  from readiness_lost_and_regained
    [OF inv, where rsn = GatewayLost and rsn' = Startup and rs = "[]"
      and h = "\<lparr>hy_fall = 2, hy_rise = 3\<rparr>"]
  show ?thesis by (auto split: prod.splits)
qed

end
