(* ===== verification/Select.thy ===== *)
theory Select
  imports Config
begin

text \<open>
  Active set selection (\<open>select.rs\<close>), per family: among the candidates (paths that have a
  priority, are not drained and are ready) the healthy ones of the best priority group; with no
  healthy candidate, what the all-down policy says.
\<close>

record candidate =
  cd_uplink :: uplink_id
  cd_priority :: u16
  cd_healthy :: bool

definition best_group :: "candidate list \<Rightarrow> uplink_id set" where
  "best_group pool =
     (case pool of
        [] \<Rightarrow> {}
      | _ # _ \<Rightarrow>
          let best = Min (set (map cd_priority pool))
          in set (map cd_uplink (filter (\<lambda>c. cd_priority c = best) pool)))"

definition active_set ::
  "candidate list \<Rightarrow> all_down_policy \<Rightarrow> uplink_id set \<Rightarrow> uplink_id set" where
  "active_set candidates pol previous =
     (if list_ex cd_healthy candidates then best_group (filter cd_healthy candidates)
      else
        (case pol of
           ReadyPolicy \<Rightarrow> best_group candidates
         | KeepPolicy \<Rightarrow> set (filter (\<lambda>u. u \<in> previous) (map cd_uplink candidates))))"

section \<open>Properties\<close>

lemma best_group_eq:
  "best_group pool =
     {cd_uplink c | c. c \<in> set pool \<and> (\<forall>d\<in>set pool. cd_priority c \<le> cd_priority d)}"
proof (cases pool)
  case Nil
  then show ?thesis by (simp add: best_group_def)
next
  case (Cons p ps)
  let ?P = "cd_priority ` set pool"
  have fin: "finite ?P" "?P \<noteq> {}" by (simp_all add: Cons)
  have "best_group pool = {cd_uplink c | c. c \<in> set pool \<and> cd_priority c = Min ?P}"
    by (auto simp: best_group_def Cons Let_def)
  also have "\<dots> = {cd_uplink c | c. c \<in> set pool \<and> (\<forall>d\<in>set pool. cd_priority c \<le> cd_priority d)}"
  proof -
    have "cd_priority c = Min ?P \<longleftrightarrow> (\<forall>d\<in>set pool. cd_priority c \<le> cd_priority d)"
      if "c \<in> set pool" for c
      using that fin Min_eq_iff [of ?P "cd_priority c"] by auto
    then show ?thesis by blast
  qed
  finally show ?thesis .
qed

lemma best_group_subset: "best_group pool \<subseteq> cd_uplink ` set pool"
  unfolding best_group_eq by blast

lemma best_group_empty_iff: "best_group pool = {} \<longleftrightarrow> pool = []"
proof (cases pool)
  case Nil
  then show ?thesis by (simp add: best_group_def)
next
  case (Cons p ps)
  let ?P = "cd_priority ` set pool"
  have "Min ?P \<in> ?P" by (rule Min_in) (simp_all add: Cons)
  then obtain c where "c \<in> set pool" "cd_priority c = Min ?P" by auto
  then have "cd_uplink c \<in> best_group pool"
    by (auto simp: best_group_eq)
  with Cons show ?thesis by auto
qed

lemma active_set_cases:
  "active_set cs pol prev =
     (if list_ex cd_healthy cs then
        {cd_uplink c | c. c \<in> set cs \<and> cd_healthy c \<and>
           (\<forall>d\<in>{d \<in> set cs. cd_healthy d}. cd_priority c \<le> cd_priority d)}
      else if pol = ReadyPolicy then
        {cd_uplink c | c. c \<in> set cs \<and> (\<forall>d\<in>set cs. cd_priority c \<le> cd_priority d)}
      else prev \<inter> cd_uplink ` set cs)"
  by (cases pol) (auto simp: active_set_def best_group_eq)

text \<open>
  C28. The decision table: with a healthy candidate, the active set is exactly the healthy candidates
  of the lowest priority number among the healthy ones; without, the \<open>ready\<close> policy takes
  the candidates of the lowest number whatever their health, and the \<open>keep\<close> policy the
  candidates that were active before.
\<close>

theorem active_set_decision:
  "active_set cs pol prev =
     (if \<exists>c\<in>set cs. cd_healthy c then
        {cd_uplink c | c. c \<in> set cs \<and> cd_healthy c \<and>
           (\<forall>d\<in>{d \<in> set cs. cd_healthy d}. cd_priority c \<le> cd_priority d)}
      else if pol = ReadyPolicy then
        {cd_uplink c | c. c \<in> set cs \<and> (\<forall>d\<in>set cs. cd_priority c \<le> cd_priority d)}
      else prev \<inter> cd_uplink ` set cs)"
  unfolding active_set_cases list_ex_iff by (rule refl)

theorem active_set_decision_witness:
  "active_set [\<lparr>cd_uplink = UplinkId 1, cd_priority = 1, cd_healthy = False\<rparr>,
      \<lparr>cd_uplink = UplinkId 2, cd_priority = 2, cd_healthy = True\<rparr>] KeepPolicy {UplinkId 1}
    = {UplinkId 2}"
  (is "active_set [?c, ?d] _ _ = _")
proof -
  have h: "{e \<in> set [?c, ?d]. cd_healthy e} = {?d}" by auto
  have "c \<in> set [?c, ?d] \<and> cd_healthy c \<and> (\<forall>d\<in>{?d}. cd_priority c \<le> cd_priority d) \<longleftrightarrow> c = ?d"
    for c by auto
  with h show ?thesis
    using active_set_decision [of "[?c, ?d]" KeepPolicy "{UplinkId 1}"] by simp
qed

text \<open>
  The daemon never routes new connections nowhere while it has a usable path: the active set
  is contained in the candidates, and it is empty only when there is no candidate, or when every
  candidate is unhealthy under the \<open>keep\<close> policy and none was active before.
\<close>

theorem active_set_fail_open:
  "active_set cs pol prev \<subseteq> cd_uplink ` set cs \<and>
   (active_set cs pol prev = {} \<longleftrightarrow>
      cs = [] \<or> (pol = KeepPolicy \<and> (\<forall>c\<in>set cs. \<not> cd_healthy c) \<and> prev \<inter> cd_uplink ` set cs = {}))"
proof
  show "active_set cs pol prev \<subseteq> cd_uplink ` set cs"
    using best_group_subset [of cs] best_group_subset [of "filter cd_healthy cs"]
    by (cases pol) (auto simp: active_set_def)
  show "active_set cs pol prev = {} \<longleftrightarrow>
      cs = [] \<or> (pol = KeepPolicy \<and> (\<forall>c\<in>set cs. \<not> cd_healthy c) \<and> prev \<inter> cd_uplink ` set cs = {})"
  proof (cases "list_ex cd_healthy cs")
    case True
    then have "filter cd_healthy cs \<noteq> []" "cs \<noteq> []" "\<not> (\<forall>c\<in>set cs. \<not> cd_healthy c)"
      by (auto simp: list_ex_iff filter_empty_conv)
    moreover have "active_set cs pol prev = best_group (filter cd_healthy cs)"
      by (simp add: active_set_def True)
    ultimately show ?thesis by (simp only: best_group_empty_iff) blast
  next
    case False
    then have unhealthy: "\<forall>c\<in>set cs. \<not> cd_healthy c" by (simp add: list_ex_iff)
    show ?thesis
    proof (cases pol)
      case ReadyPolicy
      with False show ?thesis by (simp add: active_set_def best_group_empty_iff)
    next
      case KeepPolicy
      with False have "active_set cs pol prev = prev \<inter> cd_uplink ` set cs"
        by (auto simp: active_set_def)
      with KeepPolicy unhealthy show ?thesis by auto
    qed
  qed
qed

theorem active_set_fail_open_witness:
  "active_set [\<lparr>cd_uplink = UplinkId 1, cd_priority = 1, cd_healthy = False\<rparr>] ReadyPolicy {} \<noteq> {}"
  using active_set_fail_open
    [of "[\<lparr>cd_uplink = UplinkId 1, cd_priority = 1, cd_healthy = False\<rparr>]" ReadyPolicy "{}"]
  by simp

text \<open>
  Failover and failback are monotone: once some candidate is healthy, every member of the
  active set is healthy and belongs to a group at least as good as that of every healthy candidate.
\<close>

theorem active_set_prefers_better_group:
  assumes "c \<in> set cs" and "cd_healthy c" and "d \<in> set cs"
    and "distinct (map cd_uplink cs)" and "cd_uplink d \<in> active_set cs pol prev"
  shows "cd_healthy d \<and> cd_priority d \<le> cd_priority c"
proof -
  have "list_ex cd_healthy cs" using assms(1,2) by (auto simp: list_ex_iff)
  then have "cd_uplink d \<in> {cd_uplink e | e. e \<in> set cs \<and> cd_healthy e \<and>
      (\<forall>x\<in>{x \<in> set cs. cd_healthy x}. cd_priority e \<le> cd_priority x)}"
    using assms(5) by (simp only: active_set_cases if_True)
  then obtain e where e: "e \<in> set cs" "cd_uplink e = cd_uplink d" "cd_healthy e"
    "\<forall>x\<in>{x \<in> set cs. cd_healthy x}. cd_priority e \<le> cd_priority x"
    by auto
  from assms(4) have "inj_on cd_uplink (set cs)" by (simp add: distinct_map)
  then have "e = d" using e(2,1) assms(3) by (rule inj_onD)
  then show ?thesis using e(3,4) assms(1,2) by blast
qed

theorem active_set_prefers_better_group_witness:
  "\<not> UplinkId 2 \<in> active_set
      [\<lparr>cd_uplink = UplinkId 1, cd_priority = 1, cd_healthy = True\<rparr>,
       \<lparr>cd_uplink = UplinkId 2, cd_priority = 2, cd_healthy = True\<rparr>] KeepPolicy {UplinkId 2}"
proof
  let ?c = "\<lparr>cd_uplink = UplinkId 1, cd_priority = 1, cd_healthy = True\<rparr>"
  let ?d = "\<lparr>cd_uplink = UplinkId 2, cd_priority = 2, cd_healthy = True\<rparr>"
  assume "UplinkId 2 \<in> active_set [?c, ?d] KeepPolicy {UplinkId 2}"
  then have "cd_healthy ?d \<and> cd_priority ?d \<le> cd_priority ?c"
    by (intro active_set_prefers_better_group [of ?c "[?c, ?d]" ?d KeepPolicy "{UplinkId 2}"]) simp_all
  then show False by (simp add: word_le_iff_unat)
qed

end
