(* ===== verification/Quality.thy ===== *)
theory Quality
  imports Config Float64
begin

text \<open>
  Quality gates of a path (\<open>quality.rs\<close>): the window of the samples of the last rounds, its
  statistics, and the gates they violate. A sample (\<open>probe.rs\<close>) is one completed attempt. The
  sum of two middle values in \<open>median\<close> panics when it exceeds the range of \<open>Duration\<close>;
  a panic is the outer \<open>None\<close>.
\<close>

record sample =
  sm_target :: target
  sm_rtt :: "duration option"

definition MIN_RTT_INPUTS :: nat where
  "MIN_RTT_INPUTS = 5"

record window =
  wn_rounds :: "sample list list"

record stats =
  st_samples :: nat
  st_lost :: nat
  st_loss :: "f64 option"
  st_rtt :: "duration option"
  st_replies :: nat
  st_jitter :: "duration option"
  st_differences :: nat

datatype violation =
    LossViolation f64 f64
  | RttViolation duration duration
  | JitterViolation duration duration

definition window_default :: window where
  "window_default = \<lparr>wn_rounds = []\<rparr>"

fun pop_down_to :: "nat \<Rightarrow> 'a list \<Rightarrow> 'a list" where
  "pop_down_to n [] = []"
| "pop_down_to n (x # xs) = (if n < length (x # xs) then pop_down_to n xs else x # xs)"

definition window_push :: "window \<Rightarrow> sample list \<Rightarrow> nat \<Rightarrow> window" where
  "window_push w samples capacity =
     w\<lparr>wn_rounds := pop_down_to (max capacity 1) (wn_rounds w @ [samples])\<rparr>"

definition window_clear :: "window \<Rightarrow> window" where
  "window_clear w = w\<lparr>wn_rounds := []\<rparr>"

text \<open>The median; the mean of the two middle values for an even count.\<close>

definition median :: "duration list \<Rightarrow> duration option option" where
  "median values =
     (let v = sort values; n = length v
      in if n = 0 then Some None
         else if n mod 2 = 1 then Some (Some (v ! (n div 2)))
         else map_option (\<lambda>s. Some (s div 2))
                (duration_checked_add (v ! (n div 2 - 1)) (v ! (n div 2))))"

definition abs_diff :: "duration \<Rightarrow> duration \<Rightarrow> duration" where
  "abs_diff a b = (if a \<le> b then b - a else a - b)"

text \<open>The loop over the samples, with the last RTT of each target and the differences so far.\<close>

definition difference_step ::
  "sample \<Rightarrow> (target \<rightharpoonup> duration) \<times> duration list \<Rightarrow> (target \<rightharpoonup> duration) \<times> duration list" where
  "difference_step s st =
     (case st of (lst, ds) \<Rightarrow>
        (case sm_rtt s of
           None \<Rightarrow> (lst, ds)
         | Some rtt \<Rightarrow>
             (lst(sm_target s \<mapsto> rtt),
              case lst (sm_target s) of None \<Rightarrow> ds | Some prev \<Rightarrow> ds @ [abs_diff rtt prev])))"

definition rtt_differences :: "sample list \<Rightarrow> duration list" where
  "rtt_differences ss = snd (fold difference_step ss (Map.empty, []))"

definition window_stats :: "window \<Rightarrow> stats option" where
  "window_stats w =
     (let al = concat (wn_rounds w);
          samples = length al;
          lost = length (filter (\<lambda>s. sm_rtt s = None) al);
          rtts = List.map_filter sm_rtt al;
          differences = rtt_differences al
      in case median rtts of
           None \<Rightarrow> None
         | Some rtt \<Rightarrow>
             (case median differences of
                None \<Rightarrow> None
              | Some jitter \<Rightarrow>
                  Some \<lparr>st_samples = samples, st_lost = lost,
                        st_loss = (if samples > 0 then Some (f64_ratio lost samples) else None),
                        st_rtt = rtt, st_replies = length rtts,
                        st_jitter = jitter, st_differences = length differences\<rparr>))"

definition violations :: "stats \<Rightarrow> quality \<Rightarrow> u16 \<Rightarrow> violation list" where
  "violations st q min_samples =
     (case (max_loss q, st_loss st) of
        (Some limit, Some v) \<Rightarrow>
          if st_samples st \<ge> unat min_samples \<and> f64_gt v limit then [LossViolation v limit] else []
      | _ \<Rightarrow> [])
     @ (case (max_rtt q, st_rtt st) of
          (Some limit, Some v) \<Rightarrow>
            if st_replies st \<ge> MIN_RTT_INPUTS \<and> v > limit then [RttViolation v limit] else []
        | _ \<Rightarrow> [])
     @ (case (max_jitter q, st_jitter st) of
          (Some limit, Some v) \<Rightarrow>
            if st_differences st \<ge> MIN_RTT_INPUTS \<and> v > limit then [JitterViolation v limit] else []
        | _ \<Rightarrow> [])"

section \<open>The window\<close>

lemma pop_down_to_drop: "pop_down_to n xs = drop (length xs - n) xs"
proof (induction n xs rule: pop_down_to.induct)
  case (2 n x xs)
  then show ?case by (cases "n < length (x # xs)") (simp_all add: Suc_diff_le less_Suc_eq_le)
qed simp

lemma window_push_rounds:
  "wn_rounds (window_push w s c)
     = drop (length (wn_rounds w) + 1 - max c 1) (wn_rounds w @ [s])"
  by (simp add: window_push_def pop_down_to_drop)

definition push_all :: "nat \<Rightarrow> sample list list \<Rightarrow> window" where
  "push_all c rs = fold (\<lambda>r w. window_push w r c) rs window_default"

interpretation wp: invariant_system "\<lambda>w. w = window_default" "\<lambda>r w. window_push w r c"
  "\<lambda>w. length (wn_rounds w) \<le> max c 1" for c
  by unfold_locales (auto simp: window_default_def window_push_rounds)

lemma push_all_rounds: "wn_rounds (push_all c rs) = drop (length rs - max c 1) rs"
proof (induction rs rule: rev_induct)
  case Nil
  then show ?case by (simp add: push_all_def window_default_def)
next
  case (snoc r rs)
  let ?n = "max c 1"
  have "wn_rounds (push_all c (rs @ [r]))
      = drop (length (drop (length rs - ?n) rs) + 1 - ?n) (drop (length rs - ?n) rs @ [r])"
    using snoc by (simp add: push_all_def window_push_rounds)
  also have "\<dots> = drop (length (rs @ [r]) - ?n) (rs @ [r])"
  proof (cases "length rs < ?n")
    case True
    then show ?thesis by (simp add: max_def split: if_splits)
  next
    case False
    have "drop (length rs - ?n) rs @ [r] = drop (length rs - ?n) (rs @ [r])" by simp
    moreover have "length (drop (length rs - ?n) rs) + 1 - ?n = 1" using False by simp
    moreover have "1 + (length rs - ?n) = length (rs @ [r]) - ?n" using False by simp
    ultimately show ?thesis by (simp only: drop_drop)
  qed
  finally show ?case .
qed

text \<open>
  After any sequence of completed rounds the window holds exactly the last rounds, as many as
  \<open>quality_window\<close> says (at least one), in the order they completed.
\<close>

theorem window_keeps_last_rounds:
  "wn_rounds (fold (\<lambda>r w. window_push w r c) rs window_default) = drop (length rs - max c 1) rs
   \<and> length (wn_rounds (fold (\<lambda>r w. window_push w r c) rs window_default)) \<le> max c 1"
  using push_all_rounds [of c rs] wp.run_inv [of window_default c rs] by (simp add: push_all_def)

section \<open>The median\<close>

lemma length_filter_sort: "length (filter P (sort xs)) = length (filter P xs)"
  by (metis mset_filter mset_sort size_mset)

lemma sorted_count_less:
  assumes "sorted v" "i < length v" "m \<le> v ! i"
  shows "length (filter (\<lambda>x. x < m) v) \<le> i"
proof -
  have "m \<le> v ! (i + j)" if "j < length v - i" for j
    using assms(2) that by (intro order.trans [OF assms(3) sorted_nth_mono [OF assms(1)]]) simp_all
  then have "filter (\<lambda>x. x < m) (drop i v) = []"
    by (auto simp: filter_empty_conv in_set_conv_nth not_less)
  then have "filter (\<lambda>x. x < m) v = filter (\<lambda>x. x < m) (take i v)"
    by (metis append_Nil2 append_take_drop_id filter_append)
  then show ?thesis by (metis length_filter_le length_take min.bounded_iff min.cobounded2)
qed

lemma sorted_count_greater:
  assumes "sorted v" "i < length v" "v ! i \<le> m"
  shows "length (filter (\<lambda>x. m < x) v) \<le> length v - Suc i"
proof -
  have "v ! j \<le> m" if "j < Suc i" for j
    using assms(2) that by (intro order.trans [OF sorted_nth_mono [OF assms(1)] assms(3)]) simp_all
  then have "filter (\<lambda>x. m < x) (take (Suc i) v) = []"
    by (auto simp: filter_empty_conv in_set_conv_nth not_less)
  then have "filter (\<lambda>x. m < x) v = filter (\<lambda>x. m < x) (drop (Suc i) v)"
    by (metis append_Nil append_take_drop_id filter_append)
  then show ?thesis by (metis length_drop length_filter_le)
qed

lemma mean_between: "a \<le> b \<Longrightarrow> a \<le> (a + b) div 2 \<and> (a + b) div 2 \<le> b" for a b :: nat
  by presburger

text \<open>
  The median splits the values: at most half of them are below it and at most half above.
\<close>

theorem median_splits:
  assumes "median vs = Some (Some m)"
  shows "2 * length (filter (\<lambda>v. v < m) vs) \<le> length vs
    \<and> 2 * length (filter (\<lambda>v. m < v) vs) \<le> length vs"
proof -
  define v n where "v = sort vs" and "n = length vs"
  have v: "sorted v" "length v = n" by (simp_all add: v_def n_def)
  have n: "n \<noteq> 0" using assms by (auto simp: median_def Let_def n_def)
  have "2 * length (filter (\<lambda>x. x < m) v) \<le> n \<and> 2 * length (filter (\<lambda>x. m < x) v) \<le> n"
  proof (cases "n mod 2 = 1")
    case True
    then have m: "m = v ! (n div 2)" "n div 2 < n"
      using assms n by (auto simp: median_def Let_def v_def n_def split: if_splits)
    then show ?thesis
      using sorted_count_less [of v "n div 2" m] sorted_count_greater [of v "n div 2" m] v True
      by (auto simp: mod_2_eq_odd elim: oddE)
  next
    case False
    let ?a = "v ! (n div 2 - 1)" and ?b = "v ! (n div 2)"
    from False n have half: "n div 2 < n" "n div 2 - 1 < n" "n = 2 * (n div 2)" by auto
    have "m = (?a + ?b) div 2"
      using assms n False by (auto simp: median_def Let_def v_def n_def duration_checked_add_def
          split: if_splits)
    moreover have "?a \<le> ?b" using v half by (intro sorted_nth_mono) simp_all
    ultimately have "?a \<le> m" "m \<le> ?b" using mean_between [of ?a ?b] by simp_all
    then show ?thesis
      using sorted_count_less [of v "n div 2" m] sorted_count_greater [of v "n div 2 - 1" m] v half
      by auto
  qed
  then show ?thesis by (simp add: v_def n_def length_filter_sort)
qed

theorem median_splits_witness: "2 * length (filter (\<lambda>v. v < 25) [10, 40, 20, 30 :: duration]) \<le> 4"
proof -
  have "median [10, 40, 20, 30] = Some (Some 25)"
    by (simp add: median_def duration_checked_add_def duration_limit_def)
  from median_splits [OF this] show ?thesis by simp
qed

lemma median_total:
  assumes "\<forall>v\<in>set vs. v < duration_limit div 2"
  shows "median vs \<noteq> None"
proof (cases "vs = []")
  case True
  then show ?thesis by (simp add: median_def)
next
  case False
  let ?n = "length vs"
  have mem: "sort vs ! j \<in> set vs" if "j < ?n" for j
    using that by (metis length_sort nth_mem set_sort)
  have "?n div 2 < ?n" "?n div 2 - 1 < ?n" using False by (cases vs; simp)+
  then have "sort vs ! (?n div 2) \<in> set vs" "sort vs ! (?n div 2 - 1) \<in> set vs"
    by (simp_all add: mem)
  with assms have "sort vs ! (?n div 2) < duration_limit div 2"
    "sort vs ! (?n div 2 - 1) < duration_limit div 2" by blast+
  then have "sort vs ! (?n div 2) + sort vs ! (?n div 2 - 1) < duration_limit"
    by linarith
  then show ?thesis
    by (simp add: median_def Let_def duration_checked_add_def add.commute)
qed

section \<open>Jitter\<close>

text \<open>The RTTs of a target in completion order, and the differences of consecutive values.\<close>

definition rtts_of :: "target \<Rightarrow> sample list \<Rightarrow> duration list" where
  "rtts_of t ss = List.map_filter (\<lambda>s. if sm_target s = t then sm_rtt s else None) ss"

fun consecutive_diffs :: "duration list \<Rightarrow> duration list" where
  "consecutive_diffs (a # b # xs) = abs_diff b a # consecutive_diffs (b # xs)"
| "consecutive_diffs xs = []"

lemma rtts_of_append: "rtts_of t (xs @ ys) = rtts_of t xs @ rtts_of t ys"
  by (simp add: rtts_of_def map_filter_def)

lemma rtts_of_single:
  "rtts_of t [s] = (case sm_rtt s of None \<Rightarrow> [] | Some r \<Rightarrow> if sm_target s = t then [r] else [])"
  by (simp add: rtts_of_def map_filter_def split: option.split)

lemma consecutive_diffs_snoc:
  "consecutive_diffs (xs @ [r])
     = consecutive_diffs xs @ (if xs = [] then [] else [abs_diff r (last xs)])"
  by (induction xs rule: consecutive_diffs.induct) auto

lemma difference_step_pair:
  "difference_step s (lst, ds) =
     (case sm_rtt s of
        None \<Rightarrow> (lst, ds)
      | Some rtt \<Rightarrow>
          (lst(sm_target s \<mapsto> rtt),
           case lst (sm_target s) of None \<Rightarrow> ds | Some prev \<Rightarrow> ds @ [abs_diff rtt prev]))"
  by (simp add: difference_step_def)

lemma fold_difference_last:
  "fst (fold difference_step ss (Map.empty, [])) t
     = (if rtts_of t ss = [] then None else Some (last (rtts_of t ss)))"
proof (induction ss rule: rev_induct)
  case Nil
  then show ?case by (simp add: rtts_of_def map_filter_def)
next
  case (snoc s ss)
  obtain lst ds where st: "fold difference_step ss (Map.empty, []) = (lst, ds)" by fastforce
  from snoc st show ?case
    by (auto simp: difference_step_pair rtts_of_append rtts_of_single split: option.splits)
qed

lemma rtt_differences_snoc:
  "rtt_differences (ss @ [s]) = rtt_differences ss @
     (case sm_rtt s of
        None \<Rightarrow> []
      | Some r \<Rightarrow>
          if rtts_of (sm_target s) ss = [] then [] else [abs_diff r (last (rtts_of (sm_target s) ss))])"
proof -
  obtain lst ds where st: "fold difference_step ss (Map.empty, []) = (lst, ds)" by fastforce
  have "lst t = (if rtts_of t ss = [] then None else Some (last (rtts_of t ss)))" for t
    using fold_difference_last [of ss t] by (simp add: st)
  then show ?thesis
    by (simp add: rtt_differences_def st difference_step_pair split: option.splits)
qed

lemma rtts_of_absent: "t \<notin> sm_target ` set ss \<Longrightarrow> rtts_of t ss = []"
  by (auto simp: rtts_of_def map_filter_def filter_empty_conv split: if_splits)

text \<open>
  Jitter compares only consecutive RTTs of one target: the differences are, up to their order,
  those of the RTT sequence of each target taken apart, however the targets interleave.
\<close>

theorem jitter_per_target:
  "mset (rtt_differences ss)
     = (\<Sum>t\<in>sm_target ` set ss. mset (consecutive_diffs (rtts_of t ss)))"
proof (induction ss rule: rev_induct)
  case Nil
  then show ?case by (simp add: rtt_differences_def)
next
  case (snoc s ss)
  let ?T = "sm_target ` set ss" and ?t = "sm_target s"
  let ?D = "\<lambda>t ss. mset (consecutive_diffs (rtts_of t ss))"
  have "(\<Sum>t\<in>insert ?t ?T. ?D t (ss @ [s])) = ?D ?t (ss @ [s]) + (\<Sum>t\<in>?T - {?t}. ?D t (ss @ [s]))"
    by (simp add: sum.insert_remove)
  also have "(\<Sum>t\<in>?T - {?t}. ?D t (ss @ [s])) = (\<Sum>t\<in>?T - {?t}. ?D t ss)"
    by (intro sum.cong) (auto simp: rtts_of_append rtts_of_single split: option.split)
  also have "?D ?t (ss @ [s]) = ?D ?t ss + (mset (rtt_differences (ss @ [s])) - mset (rtt_differences ss))"
    by (auto simp: rtts_of_append rtts_of_single rtt_differences_snoc consecutive_diffs_snoc
        split: option.split)
  also have "?D ?t ss + (mset (rtt_differences (ss @ [s])) - mset (rtt_differences ss))
      + (\<Sum>t\<in>?T - {?t}. ?D t ss)
    = (\<Sum>t\<in>insert ?t ?T. ?D t ss) + (mset (rtt_differences (ss @ [s])) - mset (rtt_differences ss))"
    by (simp add: sum.insert_remove)
  also have "(\<Sum>t\<in>insert ?t ?T. ?D t ss) = (\<Sum>t\<in>?T. ?D t ss)"
    by (cases "?t \<in> ?T") (simp_all add: insert_absorb rtts_of_absent)
  also have "\<dots> = mset (rtt_differences ss)" using snoc by simp
  finally show ?case by (simp add: rtt_differences_snoc)
qed

section \<open>The gates\<close>

text \<open>
  A loss violation is real: when the loss gate fires, the window holds at least
  \<open>quality_min_samples\<close> samples and the exact share of lost samples exceeds the limit, whatever
  the rounding of the floating-point quotient. The limit is a finite number of at least zero, as
  validation requires, and the window holds fewer than \<open>2^53\<close> samples.
\<close>

theorem loss_violation_sound:
  assumes "window_stats w = Some st" and "LossViolation v limit \<in> set (violations st q min_samples)"
    and "f64_unsigned limit" and "length (concat (wn_rounds w)) < 2 ^ 53"
  shows "max_loss q = Some limit
    \<and> unat min_samples \<le> length (concat (wn_rounds w))
    \<and> f64_real limit
        < real (length (filter (\<lambda>s. sm_rtt s = None) (concat (wn_rounds w))))
          / real (length (concat (wn_rounds w)))"
proof -
  let ?al = "concat (wn_rounds w)" and ?lost = "filter (\<lambda>s. sm_rtt s = None) (concat (wn_rounds w))"
  have st: "st_samples st = length ?al"
    "st_loss st = (if length ?al > 0 then Some (f64_ratio (length ?lost) (length ?al)) else None)"
    using assms(1) by (auto simp: window_stats_def Let_def split: option.splits)
  have v: "max_loss q = Some limit" "st_loss st = Some v" "unat min_samples \<le> st_samples st"
    "f64_gt v limit"
    using assms(2) by (auto simp: violations_def split: option.splits if_splits)
  then have "0 < length ?al" "f64_gt (f64_ratio (length ?lost) (length ?al)) limit"
    using st by (auto split: if_splits)
  then have "f64_real limit < real (length ?lost) / real (length ?al)"
    using assms(3,4) by (intro f64_gt_ratio_real) simp_all
  with v st show ?thesis by simp
qed

theorem loss_violation_sound_witness:
  "f64_real 0x3fc999999999999a < 1"
proof -
  let ?w = "\<lparr>wn_rounds = [[\<lparr>sm_target = TargetIcmp (IpV4 1), sm_rtt = None\<rparr>]]\<rparr>"
  let ?st = "\<lparr>st_samples = 1, st_lost = 1, st_loss = Some 0x3ff0000000000000, st_rtt = None,
    st_replies = 0, st_jitter = None, st_differences = 0\<rparr>"
  let ?q = "\<lparr>max_rtt = None, max_jitter = None, max_loss = Some 0x3fc999999999999a\<rparr>"
  have "norm_shift 1 1 52 = 52" by (subst norm_shift.simps) simp
  then have "f64_ratio 1 1 = 0x3ff0000000000000"
    by (simp add: f64_ratio_def round_div_def)
  then have "window_stats ?w = Some ?st"
    by (simp add: window_stats_def median_def rtt_differences_def difference_step_pair map_filter_def)
  moreover have "LossViolation 0x3ff0000000000000 0x3fc999999999999a \<in> set (violations ?st ?q 1)"
    by (simp add: violations_def f64_gt_def f64_nan_def f64_key_def f64_magnitude_def f64_negative_def)
  moreover have "f64_unsigned 0x3fc999999999999a" by (simp add: f64_unsigned_def)
  ultimately show ?thesis
    using loss_violation_sound [of ?w ?st "0x3ff0000000000000" "0x3fc999999999999a" ?q 1] by simp
qed

end
