(* ===== verification/Plan.thy ===== *)
theory Plan
  imports Config
begin

text \<open>
  The planner (\<open>plan.rs\<close>): a pure function from the configuration and the observed state of
  the paths to the routing rules and the routes the daemon wants installed. Additions on table and
  priority numbers are those of \<open>u32\<close>; the bounds of a valid configuration keep them from
  wrapping around.
\<close>

section \<open>Rules\<close>

datatype action = Lookup u32 | LookupMainSuppressDefault | Unreachable

datatype rule_kind =
    ProbeLookup uplink_id
  | ProbeGuard
  | MainBypass
  | PathLookup uplink_id
  | PathGuard
  | PolicyBalanceLookup uplink_id
  | PolicyBlockLookup uplink_id
  | PolicyBlockGuard
  | SourceLookup uplink_id
  | SourceGuard
  | BalanceRule
  | FinalGuard

fun is_class_guard :: "rule_kind \<Rightarrow> bool" where
  "is_class_guard ProbeGuard = True"
| "is_class_guard PathGuard = True"
| "is_class_guard PolicyBlockGuard = True"
| "is_class_guard _ = False"

record rule =
  r_family :: family
  r_priority :: u32
  r_fwmark :: "(u32 \<times> u32) option"
  r_source :: "ip_addr option"
  r_action :: action
  r_kind :: rule_kind

text \<open>The derived orders: the constructor's position first, then its argument.\<close>

fun action_rank :: "action \<Rightarrow> nat \<times> nat" where
  "action_rank (Lookup t) = (0, unat t)"
| "action_rank LookupMainSuppressDefault = (1, 0)"
| "action_rank Unreachable = (2, 0)"

lemma action_rank_inject: "action_rank a = action_rank b \<Longrightarrow> a = b"
  by (cases a; cases b) (simp_all add: word_unat_eq_iff)

instantiation action :: linorder
begin

definition less_eq_action :: "action \<Rightarrow> action \<Rightarrow> bool" where
  "less_eq_action a b \<longleftrightarrow> action_rank a \<le> action_rank b"

definition less_action :: "action \<Rightarrow> action \<Rightarrow> bool" where
  "less_action a b \<longleftrightarrow> action_rank a < action_rank b"

instance
  by standard
    (auto simp: less_eq_action_def less_action_def dest: action_rank_inject order.antisym)

end

fun kind_rank :: "rule_kind \<Rightarrow> nat \<times> nat" where
  "kind_rank (ProbeLookup i) = (0, unat (id_get i))"
| "kind_rank ProbeGuard = (1, 0)"
| "kind_rank MainBypass = (2, 0)"
| "kind_rank (PathLookup i) = (3, unat (id_get i))"
| "kind_rank PathGuard = (4, 0)"
| "kind_rank (PolicyBalanceLookup i) = (5, unat (id_get i))"
| "kind_rank (PolicyBlockLookup i) = (6, unat (id_get i))"
| "kind_rank PolicyBlockGuard = (7, 0)"
| "kind_rank (SourceLookup i) = (8, unat (id_get i))"
| "kind_rank SourceGuard = (9, 0)"
| "kind_rank BalanceRule = (10, 0)"
| "kind_rank FinalGuard = (11, 0)"

lemma kind_rank_inject: "kind_rank a = kind_rank b \<Longrightarrow> a = b"
  by (cases a; cases b) (simp_all add: uplink_id.expand word_unat_eq_iff [symmetric])

instantiation rule_kind :: linorder
begin

definition less_eq_rule_kind :: "rule_kind \<Rightarrow> rule_kind \<Rightarrow> bool" where
  "less_eq_rule_kind a b \<longleftrightarrow> kind_rank a \<le> kind_rank b"

definition less_rule_kind :: "rule_kind \<Rightarrow> rule_kind \<Rightarrow> bool" where
  "less_rule_kind a b \<longleftrightarrow> kind_rank a < kind_rank b"

instance
  by standard
    (auto simp: less_eq_rule_kind_def less_rule_kind_def dest: kind_rank_inject order.antisym)

end

instantiation rule_ext :: (linorder) linorder
begin

definition less_eq_rule_ext :: "'a rule_ext \<Rightarrow> 'a rule_ext \<Rightarrow> bool" where
  "less_eq_rule_ext a b \<longleftrightarrow>
     (r_family a, r_priority a, r_fwmark a, r_source a, r_action a, r_kind a, rule.more a)
     \<le> (r_family b, r_priority b, r_fwmark b, r_source b, r_action b, r_kind b, rule.more b)"

definition less_rule_ext :: "'a rule_ext \<Rightarrow> 'a rule_ext \<Rightarrow> bool" where
  "less_rule_ext a b \<longleftrightarrow>
     (r_family a, r_priority a, r_fwmark a, r_source a, r_action a, r_kind a, rule.more a)
     < (r_family b, r_priority b, r_fwmark b, r_source b, r_action b, r_kind b, rule.more b)"

instance
proof
  fix x y z :: "'a rule_ext"
  show "(x < y) = (x \<le> y \<and> \<not> y \<le> x)"
    unfolding less_eq_rule_ext_def less_rule_ext_def by (rule less_le_not_le)
  show "x \<le> x" unfolding less_eq_rule_ext_def by (rule order.refl)
  show "x \<le> y \<Longrightarrow> y \<le> z \<Longrightarrow> x \<le> z"
    unfolding less_eq_rule_ext_def by (rule order.trans)
  show "x \<le> y \<or> y \<le> x" unfolding less_eq_rule_ext_def by (rule linear)
  assume "x \<le> y" "y \<le> x"
  then show "x = y"
    unfolding less_eq_rule_ext_def by (cases x; cases y) (drule (1) order.antisym, simp)
qed

end

section \<open>Routes\<close>

record next_hop =
  nh_ifindex :: u32
  nh_gateway :: "ip_addr option"
  nh_onlink :: bool
  nh_weight :: u16

instantiation next_hop_ext :: (linorder) linorder
begin

definition less_eq_next_hop_ext :: "'a next_hop_ext \<Rightarrow> 'a next_hop_ext \<Rightarrow> bool" where
  "less_eq_next_hop_ext a b \<longleftrightarrow>
     (nh_ifindex a, nh_gateway a, nh_onlink a, nh_weight a, next_hop.more a)
     \<le> (nh_ifindex b, nh_gateway b, nh_onlink b, nh_weight b, next_hop.more b)"

definition less_next_hop_ext :: "'a next_hop_ext \<Rightarrow> 'a next_hop_ext \<Rightarrow> bool" where
  "less_next_hop_ext a b \<longleftrightarrow>
     (nh_ifindex a, nh_gateway a, nh_onlink a, nh_weight a, next_hop.more a)
     < (nh_ifindex b, nh_gateway b, nh_onlink b, nh_weight b, next_hop.more b)"

instance
proof
  fix x y z :: "'a next_hop_ext"
  show "(x < y) = (x \<le> y \<and> \<not> y \<le> x)"
    unfolding less_eq_next_hop_ext_def less_next_hop_ext_def by (rule less_le_not_le)
  show "x \<le> x" unfolding less_eq_next_hop_ext_def by (rule order.refl)
  show "x \<le> y \<Longrightarrow> y \<le> z \<Longrightarrow> x \<le> z"
    unfolding less_eq_next_hop_ext_def by (rule order.trans)
  show "x \<le> y \<or> y \<le> x" unfolding less_eq_next_hop_ext_def by (rule linear)
  assume "x \<le> y" "y \<le> x"
  then show "x = y"
    unfolding less_eq_next_hop_ext_def by (cases x; cases y) (drule (1) order.antisym, simp)
qed

end

record route =
  rt_family :: family
  rt_table :: u32
  rt_source :: "ip_addr option"
  rt_nexthops :: "next_hop list"

definition ROUTE_METRIC :: u32 where
  "ROUTE_METRIC = 100"

section \<open>Input and output\<close>

record ready_path =
  rp_ifindex :: u32
  rp_gateway :: "ip_addr option"
  rp_onlink :: bool
  rp_source :: ip_addr

record path_input =
  pi_ready :: "ready_path option"
  pi_local_addresses :: "ip_addr set"
  pi_healthy :: bool
  pi_drained :: bool

record input =
  in_paths :: "(path_key, path_input) btree_map"
  in_active :: "(family, uplink_id set) btree_map"

record desired =
  d_rules :: "rule set"
  d_routes :: "(family \<times> u32, route) btree_map"

definition desired_default :: desired where
  "desired_default = \<lparr>d_rules = {}, d_routes = []\<rparr>"

section \<open>The layout of tables and priorities\<close>

record layout =
  l_table_base :: u32
  l_priority_base :: u32
  l_mask :: fw_mask

definition layout_of :: "config \<Rightarrow> layout" where
  "layout_of c =
     \<lparr>l_table_base = table_base (c_routing c),
      l_priority_base = rule_priority_base (c_routing c),
      l_mask = fwmark_mask (c_routing c)\<rparr>"

definition balancing_table :: "layout \<Rightarrow> u32" where
  "balancing_table l = l_table_base l"

definition path_table :: "layout \<Rightarrow> uplink_id \<Rightarrow> u32" where
  "path_table l i = l_table_base l + ucast (id_get i)"

definition is_path_table :: "layout \<Rightarrow> u32 \<Rightarrow> bool" where
  "is_path_table l t \<longleftrightarrow> l_table_base l + 1 \<le> t \<and> t < l_table_base l + 64"

definition policy_balance_table :: "layout \<Rightarrow> uplink_id \<Rightarrow> u32" where
  "policy_balance_table l i = l_table_base l + 64 + ucast (id_get i)"

definition policy_block_table :: "layout \<Rightarrow> uplink_id \<Rightarrow> u32" where
  "policy_block_table l i = l_table_base l + 128 + ucast (id_get i)"

definition in_tables :: "layout \<Rightarrow> u32 \<Rightarrow> bool" where
  "in_tables l t \<longleftrightarrow> in_range (l_table_base l) (l_table_base l + 191) t"

definition in_priorities :: "layout \<Rightarrow> u32 \<Rightarrow> bool" where
  "in_priorities l p \<longleftrightarrow> in_range (l_priority_base l) (l_priority_base l + 699) p"

definition mark_value :: "layout \<Rightarrow> field_value \<Rightarrow> u32 \<times> u32" where
  "mark_value l v = (fwm_encode (l_mask l) v, fwm_mask (l_mask l))"

definition mark_class :: "layout \<Rightarrow> field_value \<Rightarrow> u32 \<times> u32" where
  "mark_class l v = (fwm_encode (l_mask l) v, fwm_class_mask (l_mask l))"

definition static_rule ::
  "family \<Rightarrow> u32 \<Rightarrow> (u32 \<times> u32) option \<Rightarrow> action \<Rightarrow> rule_kind \<Rightarrow> rule" where
  "static_rule f p m a k =
     \<lparr>r_family = f, r_priority = p, r_fwmark = m, r_source = None, r_action = a, r_kind = k\<rparr>"

definition uplink_rules :: "layout \<Rightarrow> family \<Rightarrow> uplink_id \<Rightarrow> rule list" where
  "uplink_rules l f i =
     (let b = l_priority_base l; n = ucast (id_get i)
      in [static_rule f (b + n) (Some (mark_value l (fv_probe i)))
            (Lookup (path_table l i)) (ProbeLookup i),
          static_rule f (b + 200 + n) (Some (mark_value l (fv_path i)))
            (Lookup (path_table l i)) (PathLookup i),
          static_rule f (b + 300 + n) (Some (mark_value l (fv_policy_balance i)))
            (Lookup (policy_balance_table l i)) (PolicyBalanceLookup i),
          static_rule f (b + 400 + n) (Some (mark_value l (fv_policy_block i)))
            (Lookup (policy_block_table l i)) (PolicyBlockLookup i)])"

definition path_guard_rule :: "layout \<Rightarrow> family \<Rightarrow> nat \<Rightarrow> rule" where
  "path_guard_rule l f k =
     (let b = push_bit k (1 :: u8);
          mark = fwm_encode (l_mask l) (fv_raw b);
          msk = fwm_encode (l_mask l) (fv_raw (0xc0 OR b))
      in static_rule f (l_priority_base l + 264) (Some (mark, msk)) Unreachable PathGuard)"

definition static_rules :: "layout \<Rightarrow> family \<Rightarrow> uplink_id list \<Rightarrow> rule list" where
  "static_rules l f uplinks =
     (let b = l_priority_base l
      in concat (map (uplink_rules l f) uplinks)
         @ [static_rule f (b + 64) (Some (mark_class l probe_class)) Unreachable ProbeGuard,
            static_rule f (b + 100) None LookupMainSuppressDefault MainBypass]
         @ map (path_guard_rule l f) [0..<6]
         @ [static_rule f (b + 464) (Some (mark_class l policy_block_class)) Unreachable
              PolicyBlockGuard,
            static_rule f (b + 600) None (Lookup (balancing_table l)) BalanceRule,
            static_rule f (b + 699) None Unreachable FinalGuard])"

definition source_rules :: "layout \<Rightarrow> family \<Rightarrow> uplink_id \<Rightarrow> ip_addr \<Rightarrow> rule list" where
  "source_rules l f i a =
     (let zero = Some (0, fwm_mask (l_mask l))
      in [\<lparr>r_family = f, r_priority = l_priority_base l + 500 + ucast (id_get i), r_fwmark = zero,
           r_source = Some a, r_action = Lookup (path_table l i), r_kind = SourceLookup i\<rparr>,
          \<lparr>r_family = f, r_priority = l_priority_base l + 564, r_fwmark = zero,
           r_source = Some a, r_action = Unreachable, r_kind = SourceGuard\<rparr>])"

section \<open>without and plan\<close>

definition without :: "input \<Rightarrow> path_key set \<Rightarrow> input" where
  "without i paths =
     \<lparr>in_paths = btm_map (\<lambda>k p. if k \<in> paths then p\<lparr>pi_healthy := False\<rparr> else p) (in_paths i),
      in_active =
        btm_map (\<lambda>f s. {u \<in> s. \<lparr>pk_uplink = u, pk_family = f\<rparr> \<notin> paths}) (in_active i)\<rparr>"

definition hop_route :: "family \<Rightarrow> ready_path \<Rightarrow> next_hop \<Rightarrow> u32 \<Rightarrow> route" where
  "hop_route f r hop t =
     \<lparr>rt_family = f, rt_table = t, rt_source = Some (rp_source r), rt_nexthops = [hop]\<rparr>"

definition ready_hop :: "ready_path \<Rightarrow> next_hop" where
  "ready_hop r =
     \<lparr>nh_ifindex = rp_ifindex r, nh_gateway = rp_gateway r, nh_onlink = rp_onlink r, nh_weight = 1\<rparr>"

text \<open>One iteration of the loop over the uplinks of a family.\<close>

definition plan_uplink ::
  "layout \<Rightarrow> input \<Rightarrow> family \<Rightarrow> uplink \<Rightarrow> desired \<times> next_hop list \<Rightarrow> desired \<times> next_hop list" where
  "plan_uplink l i f u st =
     (case st of (d, members) \<Rightarrow>
      case btm_get (in_paths i) \<lparr>pk_uplink = u_id u, pk_family = f\<rparr> of
        None \<Rightarrow> (d, members)
      | Some p \<Rightarrow>
          let d1 = d\<lparr>d_rules := d_rules d \<union>
                       (\<Union>a\<in>pi_local_addresses p. set (source_rules l f (u_id u) a))\<rparr>
          in (case pi_ready p of
                None \<Rightarrow> (d1, members)
              | Some r \<Rightarrow>
                  let hop = ready_hop r;
                      ins = (\<lambda>t m. btm_insert (f, t) (hop_route f r hop t) m);
                      routes1 = ins (path_table l (u_id u)) (d_routes d1);
                      routes2 = (if pi_healthy p \<and> \<not> pi_drained p
                                 then fold ins [policy_balance_table l (u_id u),
                                                policy_block_table l (u_id u)] routes1
                                 else routes1);
                      members1 = (if (case btm_get (in_active i) f of
                                        None \<Rightarrow> False | Some a \<Rightarrow> u_id u \<in> a)
                                  then members @ [hop\<lparr>nh_weight := u_weight u\<rparr>] else members)
                  in (d1\<lparr>d_routes := routes2\<rparr>, members1)))"

definition balance_route :: "layout \<Rightarrow> family \<Rightarrow> next_hop list \<Rightarrow> route" where
  "balance_route l f members =
     (let sorted_members = sort members
      in \<lparr>rt_family = f, rt_table = balancing_table l, rt_source = None,
          rt_nexthops =
            (if length sorted_members = 1
             then sorted_members[0 := (sorted_members ! 0)\<lparr>nh_weight := 1\<rparr>]
             else sorted_members)\<rparr>)"

definition family_uplinks :: "config \<Rightarrow> family \<Rightarrow> uplink list" where
  "family_uplinks c f = filter (\<lambda>u. uplink_path u f \<noteq> None) (c_uplinks c)"

definition plan_family :: "config \<Rightarrow> input \<Rightarrow> family \<Rightarrow> desired \<Rightarrow> desired" where
  "plan_family c i f d =
     (if \<not> config_manages c f then d
      else
        let l = layout_of c;
            uplinks = family_uplinks c f;
            d0 = d\<lparr>d_rules := d_rules d \<union> set (static_rules l f (map u_id uplinks))\<rparr>
        in (case fold (plan_uplink l i f) uplinks (d0, []) of (d1, members) \<Rightarrow>
              if members = [] then d1
              else d1\<lparr>d_routes :=
                       btm_insert (f, balancing_table l) (balance_route l f members) (d_routes d1)\<rparr>))"

definition plan :: "config \<Rightarrow> input \<Rightarrow> desired" where
  "plan c i = fold (plan_family c i) all_families desired_default"

section \<open>Numbers of the layout\<close>

definition layout_ok :: "layout \<Rightarrow> bool" where
  "layout_ok l \<longleftrightarrow> layout_bounds (l_table_base l) (l_priority_base l) \<and> fwm_ok (l_mask l)"

lemma layout_ok_of: "config_wf c \<Longrightarrow> layout_ok (layout_of c)"
  by (simp add: layout_ok_def layout_of_def config_wf_def routing_wf_def)

lemma unat_ucast_id: "unat (ucast (id_get i) :: u32) = unat (id_get i)"
  by (simp add: unsigned_ucast_eq take_bit_eq_mod less_le_trans [OF unsigned_less])

lemma base_numbers:
  assumes "layout_ok l"
  shows "unat (balancing_table l) = unat (l_table_base l)"
    and "unat (l_table_base l + 191) = unat (l_table_base l) + 191"
    and "unat (l_table_base l + 1) = unat (l_table_base l) + 1"
    and "unat (l_table_base l + 64) = unat (l_table_base l) + 64"
  using assms
  by (auto simp: balancing_table_def layout_ok_def layout_bounds_def unat_add_no_overflow)

lemma table_numbers:
  assumes "layout_ok l" and "valid_id i"
  shows "unat (path_table l i) = unat (l_table_base l) + unat (id_get i)"
    and "unat (policy_balance_table l i) = unat (l_table_base l) + 64 + unat (id_get i)"
    and "unat (policy_block_table l i) = unat (l_table_base l) + 128 + unat (id_get i)"
  using assms
  by (auto simp: path_table_def policy_balance_table_def policy_block_table_def
      layout_ok_def layout_bounds_def valid_id_unat unat_add_no_overflow unat_ucast_id)

lemma id_eq_iff: "i = j \<longleftrightarrow> unat (id_get i) = unat (id_get j)"
  by (metis uplink_id.expand word_unat_eq_iff)

text \<open>No two roles share a table, and no two uplinks share one in a role.\<close>

lemma table_eqs [layout_simps]:
  assumes "layout_ok l" and "valid_id i" and "valid_id j"
  shows "path_table l i = path_table l j \<longleftrightarrow> i = j"
    and "policy_balance_table l i = policy_balance_table l j \<longleftrightarrow> i = j"
    and "policy_block_table l i = policy_block_table l j \<longleftrightarrow> i = j"
    and "path_table l i \<noteq> policy_balance_table l j"
    and "path_table l i \<noteq> policy_block_table l j"
    and "policy_balance_table l i \<noteq> policy_block_table l j"
  using assms by (auto simp: word_unat_eq_iff table_numbers id_eq_iff valid_id_unat)

lemma balancing_table_neq [layout_simps]:
  assumes "layout_ok l" and "valid_id i"
  shows "path_table l i \<noteq> balancing_table l"
    and "policy_balance_table l i \<noteq> balancing_table l"
    and "policy_block_table l i \<noteq> balancing_table l"
  using assms by (auto simp: word_unat_eq_iff table_numbers base_numbers valid_id_unat)

lemma tables_owned:
  assumes "layout_ok l" and "valid_id i"
  shows "in_tables l (path_table l i)" and "in_tables l (policy_balance_table l i)"
    and "in_tables l (policy_block_table l i)" and "in_tables l (balancing_table l)"
  using assms
  by (auto simp: in_tables_def in_range_def word_le_iff_unat table_numbers base_numbers valid_id_unat)

lemma is_path_table_iff:
  assumes "layout_ok l"
  shows "is_path_table l t \<longleftrightarrow> (\<exists>i. valid_id i \<and> t = path_table l i)"
proof
  assume "is_path_table l t"
  then have b: "unat (l_table_base l) < unat t" "unat t < unat (l_table_base l) + 64"
    using base_numbers [OF assms]
    by (auto simp: is_path_table_def word_le_iff_unat word_less_iff_unat)
  define n where "n = unat t - unat (l_table_base l)"
  have n: "1 \<le> n" "n \<le> 63" using b by (auto simp: n_def)
  let ?i = "UplinkId (of_nat n)"
  have id: "unat (id_get ?i) = n" using n by (simp add: unat_of_nat_small)
  then have "valid_id ?i" using n by (simp add: valid_id_unat)
  moreover from this have "t = path_table l ?i"
    using b id by (simp add: word_unat_eq_iff table_numbers [OF assms] n_def)
  ultimately show "\<exists>i. valid_id i \<and> t = path_table l i" by blast
next
  assume "\<exists>i. valid_id i \<and> t = path_table l i"
  then show "is_path_table l t"
    using base_numbers [OF assms] table_numbers [OF assms]
    by (auto simp: is_path_table_def word_le_iff_unat word_less_iff_unat valid_id_unat)
qed

section \<open>Routes of the plan\<close>

text \<open>The readiness of a path as the planner reads it, and the tables its uplink fills.\<close>

definition input_path :: "input \<Rightarrow> family \<Rightarrow> uplink_id \<Rightarrow> path_input option" where
  "input_path i f n = btm_get (in_paths i) \<lparr>pk_uplink = n, pk_family = f\<rparr>"

definition input_ready :: "input \<Rightarrow> family \<Rightarrow> uplink_id \<Rightarrow> ready_path option" where
  "input_ready i f n = Option.bind (input_path i f n) pi_ready"

definition input_usable :: "input \<Rightarrow> family \<Rightarrow> uplink_id \<Rightarrow> bool" where
  "input_usable i f n = (case input_path i f n of None \<Rightarrow> False | Some p \<Rightarrow> pi_healthy p \<and> \<not> pi_drained p)"

definition input_active :: "input \<Rightarrow> family \<Rightarrow> uplink_id \<Rightarrow> bool" where
  "input_active i f n = (case btm_get (in_active i) f of None \<Rightarrow> False | Some a \<Rightarrow> n \<in> a)"

definition fills :: "layout \<Rightarrow> input \<Rightarrow> family \<Rightarrow> uplink_id \<Rightarrow> u32 \<Rightarrow> bool" where
  "fills l i f n t \<longleftrightarrow>
     t = path_table l n
     \<or> input_usable i f n \<and> (t = policy_balance_table l n \<or> t = policy_block_table l n)"

definition member_hop :: "input \<Rightarrow> family \<Rightarrow> uplink \<Rightarrow> next_hop option" where
  "member_hop i f u =
     (if input_active i f (u_id u)
      then map_option (\<lambda>r. (ready_hop r)\<lparr>nh_weight := u_weight u\<rparr>) (input_ready i f (u_id u))
      else None)"

lemma plan_uplink_snd:
  "snd (plan_uplink l i f u (d, ms)) = ms @ (case member_hop i f u of None \<Rightarrow> [] | Some h \<Rightarrow> [h])"
  by (auto simp: plan_uplink_def Let_def member_hop_def input_active_def input_ready_def
      input_path_def split: option.splits)

lemma plan_uplink_wf:
  "btm_wf (d_routes d) \<Longrightarrow> btm_wf (d_routes (fst (plan_uplink l i f u (d, ms))))"
  by (auto simp: plan_uplink_def Let_def btm_wf_insert split: option.splits)

lemma plan_uplink_get:
  assumes "btm_wf (d_routes d)"
  shows "btm_get (d_routes (fst (plan_uplink l i f u (d, ms)))) (g, t) =
    (case input_ready i f (u_id u) of
       Some r \<Rightarrow> if g = f \<and> fills l i f (u_id u) t then Some (hop_route f r (ready_hop r) t)
                 else btm_get (d_routes d) (g, t)
     | None \<Rightarrow> btm_get (d_routes d) (g, t))"
  using assms
  by (auto simp: plan_uplink_def Let_def input_ready_def input_path_def input_usable_def fills_def
      btm_get_insert btm_wf_insert split: option.splits)

lemma fold_plan_uplink_snd:
  "snd (fold (plan_uplink l i f) us (d, ms)) = ms @ List.map_filter (member_hop i f) us"
proof (induction us arbitrary: d ms)
  case Nil
  then show ?case by (simp add: map_filter_simps)
next
  case (Cons u us)
  obtain d1 ms1 where st: "plan_uplink l i f u (d, ms) = (d1, ms1)" by fastforce
  have "ms1 = ms @ (case member_hop i f u of None \<Rightarrow> [] | Some h \<Rightarrow> [h])"
    using plan_uplink_snd [of l i f u d ms] by (simp add: st)
  with Cons st show ?case by (simp add: map_filter_simps split: option.split)
qed

lemma fold_plan_uplink_wf:
  "btm_wf (d_routes d) \<Longrightarrow> btm_wf (d_routes (fst (fold (plan_uplink l i f) us (d, ms))))"
proof (induction us arbitrary: d ms)
  case (Cons u us)
  obtain d1 ms1 where st: "plan_uplink l i f u (d, ms) = (d1, ms1)" by fastforce
  with Cons plan_uplink_wf [of d l i f u ms] show ?case by simp
qed simp

lemma fills_unique:
  assumes "layout_ok l" "valid_id a" "valid_id b" "fills l i f a t" "fills l i f b t"
  shows "a = b"
  using assms(4,5) table_eqs [OF assms(1,2,3)] table_eqs [OF assms(1,3,2)]
  unfolding fills_def by metis

lemma fold_plan_uplink_get:
  assumes "btm_wf (d_routes d)" and "layout_ok l" and "\<forall>u\<in>set us. valid_id (u_id u)"
    and "distinct (map u_id us)"
  shows "btm_get (d_routes (fst (fold (plan_uplink l i f) us (d, ms)))) (g, t) = Some x \<longleftrightarrow>
    (g = f \<and> (\<exists>u\<in>set us. \<exists>r. input_ready i f (u_id u) = Some r \<and> fills l i f (u_id u) t
        \<and> x = hop_route f r (ready_hop r) t))
    \<or> (btm_get (d_routes d) (g, t) = Some x \<and>
        \<not> (g = f \<and> (\<exists>u\<in>set us. input_ready i f (u_id u) \<noteq> None \<and> fills l i f (u_id u) t)))"
  using assms
proof (induction us arbitrary: d ms)
  case (Cons u us)
  obtain d1 ms1 where st: "plan_uplink l i f u (d, ms) = (d1, ms1)" by fastforce
  have wf1: "btm_wf (d_routes d1)" using plan_uplink_wf [OF Cons.prems(1)] st by (metis fst_conv)
  have one: "btm_get (d_routes d1) (g, t) =
    (case input_ready i f (u_id u) of
       Some r \<Rightarrow> if g = f \<and> fills l i f (u_id u) t then Some (hop_route f r (ready_hop r) t)
                 else btm_get (d_routes d) (g, t)
     | None \<Rightarrow> btm_get (d_routes d) (g, t))"
    using plan_uplink_get [OF Cons.prems(1), of l i f u ms g t] st by simp
  have other: "\<not> fills l i f (u_id v) t" if "v \<in> set us" "fills l i f (u_id u) t" for v
    using fills_unique [of l "u_id u" "u_id v" i f t] that Cons.prems by auto
  have ih: "btm_get (d_routes (fst (fold (plan_uplink l i f) us (d1, ms1)))) (g, t) = Some x \<longleftrightarrow>
    (g = f \<and> (\<exists>u\<in>set us. \<exists>r. input_ready i f (u_id u) = Some r \<and> fills l i f (u_id u) t
        \<and> x = hop_route f r (ready_hop r) t))
    \<or> (btm_get (d_routes d1) (g, t) = Some x \<and>
        \<not> (g = f \<and> (\<exists>u\<in>set us. input_ready i f (u_id u) \<noteq> None \<and> fills l i f (u_id u) t)))"
    using Cons.IH [OF wf1, of ms1] Cons.prems by simp
  have step: "fst (fold (plan_uplink l i f) (u # us) (d, ms)) = fst (fold (plan_uplink l i f) us (d1, ms1))"
    by (simp add: st)
  show ?case
    unfolding step ih one using other
    by (cases "input_ready i f (u_id u)") (auto split: if_splits)
qed simp

definition plan_members :: "config \<Rightarrow> input \<Rightarrow> family \<Rightarrow> next_hop list" where
  "plan_members c i f = List.map_filter (member_hop i f) (family_uplinks c f)"

lemma family_uplinks_wf:
  assumes "config_wf c"
  shows "\<forall>u\<in>set (family_uplinks c f). valid_id (u_id u)" and "distinct (map u_id (family_uplinks c f))"
  using assms
  by (auto simp: config_wf_def uplinks_wf_def family_uplinks_def distinct_map inj_on_def)

lemma manages_family_uplinks: "config_manages c f \<longleftrightarrow> family_uplinks c f \<noteq> []"
  by (auto simp: config_manages_iff family_uplinks_def filter_empty_conv)

lemma plan_family_cases:
  assumes "config_manages c f"
  obtains d1 where
    "d1 = fst (fold (plan_uplink (layout_of c) i f) (family_uplinks c f)
      (d\<lparr>d_rules := d_rules d \<union> set (static_rules (layout_of c) f (map u_id (family_uplinks c f)))\<rparr>, []))"
    "plan_family c i f d =
      (if plan_members c i f = [] then d1
       else d1\<lparr>d_routes := btm_insert (f, balancing_table (layout_of c))
              (balance_route (layout_of c) f (plan_members c i f)) (d_routes d1)\<rparr>)"
proof
  let ?d = "d\<lparr>d_rules := d_rules d \<union> set (static_rules (layout_of c) f (map u_id (family_uplinks c f)))\<rparr>"
  let ?st = "fold (plan_uplink (layout_of c) i f) (family_uplinks c f) (?d, [])"
  have "snd ?st = plan_members c i f"
    by (simp add: fold_plan_uplink_snd plan_members_def)
  then show "plan_family c i f d =
      (if plan_members c i f = [] then fst ?st
       else (fst ?st)\<lparr>d_routes := btm_insert (f, balancing_table (layout_of c))
              (balance_route (layout_of c) f (plan_members c i f)) (d_routes (fst ?st))\<rparr>)"
    using assms by (simp add: plan_family_def Let_def case_prod_unfold)
qed (rule refl)

lemma plan_family_wf: "btm_wf (d_routes d) \<Longrightarrow> btm_wf (d_routes (plan_family c i f d))"
proof (cases "config_manages c f")
  case True
  assume wf: "btm_wf (d_routes d)"
  from True show ?thesis
    by (rule plan_family_cases [of c f i d]) (auto simp: wf fold_plan_uplink_wf btm_wf_insert)
qed (simp add: plan_family_def)

lemma plan_family_get:
  assumes c: "config_wf c" and wf: "btm_wf (d_routes d)" and fresh: "\<forall>t. btm_get (d_routes d) (f, t) = None"
  shows "btm_get (d_routes (plan_family c i f d)) (g, t) = Some x \<longleftrightarrow>
    (if g = f then
       (\<exists>u\<in>set (family_uplinks c f). \<exists>r. input_ready i f (u_id u) = Some r
          \<and> fills (layout_of c) i f (u_id u) t \<and> x = hop_route f r (ready_hop r) t)
       \<or> (t = balancing_table (layout_of c) \<and> plan_members c i f \<noteq> []
          \<and> x = balance_route (layout_of c) f (plan_members c i f))
     else btm_get (d_routes d) (g, t) = Some x)"
proof (cases "config_manages c f")
  case True
  let ?l = "layout_of c"
  obtain d1 where d1: "d1 = fst (fold (plan_uplink ?l i f) (family_uplinks c f)
      (d\<lparr>d_rules := d_rules d \<union> set (static_rules ?l f (map u_id (family_uplinks c f)))\<rparr>, []))"
    and pf: "plan_family c i f d =
      (if plan_members c i f = [] then d1
       else d1\<lparr>d_routes := btm_insert (f, balancing_table ?l)
              (balance_route ?l f (plan_members c i f)) (d_routes d1)\<rparr>)"
    using True by (rule plan_family_cases)
  have wf1: "btm_wf (d_routes d1)" by (simp add: d1 fold_plan_uplink_wf wf)
  have get1: "btm_get (d_routes d1) (g, t) = Some x \<longleftrightarrow>
    (if g = f then \<exists>u\<in>set (family_uplinks c f). \<exists>r. input_ready i f (u_id u) = Some r
          \<and> fills ?l i f (u_id u) t \<and> x = hop_route f r (ready_hop r) t
     else btm_get (d_routes d) (g, t) = Some x)"
    using fold_plan_uplink_get [OF _ layout_ok_of [OF c] family_uplinks_wf [OF c], where ms = "[]"] wf fresh
    by (auto simp: d1)
  have nobal: "\<not> fills ?l i f (u_id u) (balancing_table ?l)" if "u \<in> set (family_uplinks c f)" for u
    using balancing_table_neq [OF layout_ok_of [OF c], of "u_id u"] family_uplinks_wf(1) [OF c] that
    by (auto simp: fills_def)
  show ?thesis
  proof (cases "g = f \<and> t = balancing_table ?l \<and> plan_members c i f \<noteq> []")
    case True
    with nobal show ?thesis by (auto simp: pf btm_get_insert wf1)
  next
    case False
    then have "btm_get (d_routes (plan_family c i f d)) (g, t) = btm_get (d_routes d1) (g, t)"
      by (auto simp: pf btm_get_insert wf1)
    with False get1 show ?thesis by auto
  qed
next
  case False
  then have "family_uplinks c f = []" by (simp add: manages_family_uplinks)
  with False fresh show ?thesis
    by (auto simp: plan_family_def plan_members_def map_filter_simps)
qed

lemma plan_unfold: "plan c i = plan_family c i V6 (plan_family c i V4 desired_default)"
  by (simp add: plan_def all_families_def)

lemma plan_wf: "btm_wf (d_routes (plan c i))"
  by (simp add: plan_unfold plan_family_wf desired_default_def)

lemma plan_routes_iff:
  assumes "config_wf c"
  shows "btm_get (d_routes (plan c i)) (f, t) = Some x \<longleftrightarrow>
    (\<exists>u\<in>set (family_uplinks c f). \<exists>r. input_ready i f (u_id u) = Some r
       \<and> fills (layout_of c) i f (u_id u) t \<and> x = hop_route f r (ready_hop r) t)
    \<or> (t = balancing_table (layout_of c) \<and> plan_members c i f \<noteq> []
       \<and> x = balance_route (layout_of c) f (plan_members c i f))"
proof -
  have wf0: "btm_wf (d_routes desired_default)" by (simp add: desired_default_def)
  have none0: "btm_get (d_routes desired_default) k = None" for k
    by (simp add: desired_default_def btm_get_def)
  note first = plan_family_get [OF assms wf0, of V4 i] none0
  have none4: "btm_get (d_routes (plan_family c i V4 desired_default)) (V6, t) = None" for t
    using first by (auto simp: not_Some_eq [symmetric] simp del: not_Some_eq)
  note second = plan_family_get [OF assms plan_family_wf [OF wf0], of c i V4 V6 i] none4
  show ?thesis
    using first second by (cases f) (auto simp: plan_unfold)
qed

section \<open>Withholding paths\<close>

lemma without_paths:
  "input_path (without i ps) f n =
     map_option (\<lambda>p. if \<lparr>pk_uplink = n, pk_family = f\<rparr> \<in> ps then p\<lparr>pi_healthy := False\<rparr> else p)
       (input_path i f n)"
  by (simp add: input_path_def without_def btm_get_map)

lemma without_ready [simp]: "input_ready (without i ps) f n = input_ready i f n"
  by (cases "input_path i f n") (simp_all add: input_ready_def without_paths)

lemma without_usable [simp]:
  "input_usable (without i ps) f n \<longleftrightarrow> input_usable i f n \<and> \<lparr>pk_uplink = n, pk_family = f\<rparr> \<notin> ps"
  by (cases "input_path i f n") (simp_all add: input_usable_def without_paths)

lemma without_active [simp]:
  "input_active (without i ps) f n \<longleftrightarrow> input_active i f n \<and> \<lparr>pk_uplink = n, pk_family = f\<rparr> \<notin> ps"
  by (simp add: input_active_def without_def btm_get_map split: option.split)

definition example_ready :: "u32 \<Rightarrow> ready_path" where
  "example_ready n =
     \<lparr>rp_ifindex = n, rp_gateway = Some (IpV4 (0xc0000200 + n)), rp_onlink = False,
      rp_source = IpV4 (0xc0000264 + n)\<rparr>"

definition example_input :: input where
  "example_input =
     \<lparr>in_paths =
        [(\<lparr>pk_uplink = UplinkId 1, pk_family = V4\<rparr>,
          \<lparr>pi_ready = Some (example_ready 1), pi_local_addresses = {IpV4 0xc0000265},
           pi_healthy = True, pi_drained = False\<rparr>),
         (\<lparr>pk_uplink = UplinkId 2, pk_family = V4\<rparr>,
          \<lparr>pi_ready = Some (example_ready 2), pi_local_addresses = {IpV4 0xc0000266},
           pi_healthy = True, pi_drained = False\<rparr>)],
      in_active = [(V4, {UplinkId 1, UplinkId 2})]\<rparr>"

lemma example_uplink_sel [simp]:
  "u_id (example_uplink n name w) = UplinkId n" "\<exists>y. u_ipv4 (example_uplink n name w) = Some y"
  "u_ipv6 (example_uplink n name w) = None" "u_weight (example_uplink n name w) = w"
  by (simp_all add: example_uplink_def)

lemma example_input_ready [simp]:
  "input_ready example_input V4 (UplinkId 1) = Some (example_ready 1)"
  "input_ready example_input V4 (UplinkId 2) = Some (example_ready 2)"
  "input_usable example_input V4 (UplinkId 1)" "input_active example_input V4 (UplinkId 1)"
  by (simp_all add: input_ready_def input_usable_def input_active_def input_path_def
      example_input_def btm_get_def)

section \<open>Properties of the routes\<close>

lemma in_family_uplinks:
  "u \<in> set (family_uplinks c f) \<longleftrightarrow> u \<in> set (c_uplinks c) \<and> uplink_path u f \<noteq> None"
  by (simp add: family_uplinks_def)

lemma uplink_by_id:
  assumes "config_wf c" "u \<in> set (family_uplinks c f)" "v \<in> set (family_uplinks c f)" "u_id u = u_id v"
  shows "u = v"
  using family_uplinks_wf(2) [OF assms(1), of f] assms(2-4) by (auto simp: distinct_map dest: inj_onD)

lemma plan_routes_at:
  assumes c: "config_wf c" and u: "u \<in> set (family_uplinks c f)"
    and only: "\<And>v. v \<in> set (family_uplinks c f) \<Longrightarrow> fills (layout_of c) i f (u_id v) t \<Longrightarrow> v = u"
    and t: "t \<noteq> balancing_table (layout_of c)"
  shows "btm_get (d_routes (plan c i)) (f, t) =
    (if fills (layout_of c) i f (u_id u) t
     then map_option (\<lambda>r. hop_route f r (ready_hop r) t) (input_ready i f (u_id u)) else None)"
proof -
  have "btm_get (d_routes (plan c i)) (f, t) = Some x \<longleftrightarrow>
      fills (layout_of c) i f (u_id u) t \<and>
      (\<exists>r. input_ready i f (u_id u) = Some r \<and> x = hop_route f r (ready_hop r) t)" for x
    using plan_routes_iff [OF c, of i f t x] t u only by blast
  then show ?thesis
    by (cases "btm_get (d_routes (plan c i)) (f, t)"; cases "input_ready i f (u_id u)") auto
qed

lemma path_table_route:
  assumes "config_wf c" and "u \<in> set (c_uplinks c)" and "uplink_path u f \<noteq> None"
  shows "btm_get (d_routes (plan c i)) (f, path_table (layout_of c) (u_id u)) =
    map_option
      (\<lambda>r. \<lparr>rt_family = f, rt_table = path_table (layout_of c) (u_id u), rt_source = Some (rp_source r),
            rt_nexthops = [\<lparr>nh_ifindex = rp_ifindex r, nh_gateway = rp_gateway r,
                            nh_onlink = rp_onlink r, nh_weight = 1\<rparr>]\<rparr>)
      (input_ready i f (u_id u))"
proof -
  let ?l = "layout_of c"
  note ok = layout_ok_of [OF assms(1)] and wf = family_uplinks_wf [OF assms(1), of f]
  have u: "u \<in> set (family_uplinks c f)" using assms by (simp add: in_family_uplinks)
  have "v = u" if "v \<in> set (family_uplinks c f)" "fills ?l i f (u_id v) (path_table ?l (u_id u))" for v
    using uplink_by_id [OF assms(1) that(1) u] fills_unique [OF ok, of "u_id v" "u_id u"] that wf u
    by (simp add: fills_def)
  from plan_routes_at [OF assms(1) u this] show ?thesis
    using wf u ok by (simp add: balancing_table_neq fills_def hop_route_def ready_hop_def)
qed

lemma policy_table_route:
  assumes "config_wf c" and "u \<in> set (c_uplinks c)" and "uplink_path u f \<noteq> None"
    and "t = policy_balance_table (layout_of c) (u_id u) \<or> t = policy_block_table (layout_of c) (u_id u)"
  shows "btm_get (d_routes (plan c i)) (f, t) =
    (if input_usable i f (u_id u)
     then map_option (\<lambda>r. r\<lparr>rt_table := t\<rparr>)
            (btm_get (d_routes (plan c i)) (f, path_table (layout_of c) (u_id u)))
     else None)"
proof -
  let ?l = "layout_of c"
  note ok = layout_ok_of [OF assms(1)] and wf = family_uplinks_wf [OF assms(1), of f]
  have u: "u \<in> set (family_uplinks c f)" using assms by (simp add: in_family_uplinks)
  have vu: "v = u" if "v \<in> set (family_uplinks c f)"
      "fills ?l i f (u_id v) t \<or> fills ?l i f (u_id v) (path_table ?l (u_id u))" for v
  proof -
    have "u_id v = u_id u"
      using that assms(4) table_eqs [OF ok, of "u_id v" "u_id u"] table_eqs [OF ok, of "u_id u" "u_id v"]
        wf u unfolding fills_def by metis
    with that(1) u show ?thesis using uplink_by_id [OF assms(1)] by blast
  qed
  have nb: "t \<noteq> balancing_table ?l" "path_table ?l (u_id u) \<noteq> balancing_table ?l"
    using balancing_table_neq [OF ok, of "u_id u"] wf u assms(4) by auto
  have "btm_get (d_routes (plan c i)) (f, t) =
    (if fills ?l i f (u_id u) t
     then map_option (\<lambda>r. hop_route f r (ready_hop r) t) (input_ready i f (u_id u)) else None)"
    by (rule plan_routes_at [OF assms(1) u _ nb(1)]) (use vu in blast)
  moreover have "btm_get (d_routes (plan c i)) (f, path_table ?l (u_id u)) =
    map_option (\<lambda>r. hop_route f r (ready_hop r) (path_table ?l (u_id u))) (input_ready i f (u_id u))"
    using plan_routes_at [OF assms(1) u _ nb(2), of i] vu by (simp add: fills_def)
  moreover have "fills ?l i f (u_id u) t \<longleftrightarrow> input_usable i f (u_id u)"
    using assms(4) table_eqs [OF ok, of "u_id u" "u_id u"] wf u unfolding fills_def by metis
  ultimately show ?thesis
    by (simp add: option.map_comp comp_def hop_route_def)
qed

text \<open>
  The table of a path holds a route exactly while the path is ready, and the route is the default
  route through the interface and gateway observed, with the observed source address, whatever the
  health of the path: a connection bound to the path keeps it.
\<close>

theorem plan_path_table:
  assumes "config_wf c" and "u \<in> set (c_uplinks c)" and "uplink_path u f \<noteq> None"
  shows "btm_get (d_routes (plan c i)) (f, path_table (layout_of c) (u_id u)) =
    map_option
      (\<lambda>r. \<lparr>rt_family = f, rt_table = path_table (layout_of c) (u_id u), rt_source = Some (rp_source r),
            rt_nexthops = [\<lparr>nh_ifindex = rp_ifindex r, nh_gateway = rp_gateway r,
                            nh_onlink = rp_onlink r, nh_weight = 1\<rparr>]\<rparr>)
      (input_ready i f (u_id u))"
  using assms by (rule path_table_route)

theorem plan_path_table_witness:
  "btm_get (d_routes (plan example_config example_input)) (V4, path_table (layout_of example_config) (UplinkId 1))
     \<noteq> None"
  using plan_path_table [of example_config "example_uplink 1 ''a'' 1" V4 example_input]
  by (simp add: example_config_wf example_config_uplinks)

text \<open>
  The two policy tables of a path hold the same route exactly while the path is ready, healthy
  and not drained, and are empty otherwise: a policy falls back at once.
\<close>

theorem plan_policy_tables:
  assumes "config_wf c" and "u \<in> set (c_uplinks c)" and "uplink_path u f \<noteq> None"
    and "t = policy_balance_table (layout_of c) (u_id u) \<or> t = policy_block_table (layout_of c) (u_id u)"
  shows "btm_get (d_routes (plan c i)) (f, t) =
    (if input_usable i f (u_id u)
     then map_option (\<lambda>r. r\<lparr>rt_table := t\<rparr>)
            (btm_get (d_routes (plan c i)) (f, path_table (layout_of c) (u_id u)))
     else None)"
  using assms by (rule policy_table_route)

theorem plan_policy_tables_witness:
  "btm_get (d_routes (plan example_config (without example_input {\<lparr>pk_uplink = UplinkId 1, pk_family = V4\<rparr>})))
     (V4, policy_block_table (layout_of example_config) (UplinkId 1)) = None"
  using plan_policy_tables [of example_config "example_uplink 1 ''a'' 1" V4
    "policy_block_table (layout_of example_config) (UplinkId 1)"
    "without example_input {\<lparr>pk_uplink = UplinkId 1, pk_family = V4\<rparr>}"]
  by (simp add: example_config_wf example_config_uplinks)

lemma next_hop_le_ifindex: "(a :: next_hop) \<le> b \<Longrightarrow> nh_ifindex a \<le> nh_ifindex b"
  unfolding less_eq_next_hop_ext_def less_eq_prod_def fst_conv by (blast intro: less_imp_le)

lemma sorted_members_ifindex: "sorted (map nh_ifindex (sort (hs :: next_hop list)))"
proof -
  have "sorted (sort hs)" by simp
  then show ?thesis
    unfolding sorted_map by (rule sorted_wrt_mono_rel [rotated]) (rule next_hop_le_ifindex)
qed

lemma sort_eq_Nil_iff: "sort xs = [] \<longleftrightarrow> xs = []"
  by (metis length_0_conv length_sort)

lemma balance_route_hops:
  "rt_nexthops (balance_route l f hs) =
     (if length hs = 1 then [(hd hs)\<lparr>nh_weight := 1\<rparr>] else sort hs)"
  by (cases hs) (auto simp: balance_route_def Let_def)

lemma plan_balancing_iff:
  assumes "config_wf c"
  shows "btm_get (d_routes (plan c i)) (f, balancing_table (layout_of c)) =
    (if plan_members c i f = [] then None
     else Some (balance_route (layout_of c) f (plan_members c i f)))"
proof -
  have "\<not> fills (layout_of c) i f (u_id u) (balancing_table (layout_of c))"
    if "u \<in> set (family_uplinks c f)" for u
    using balancing_table_neq [OF layout_ok_of [OF assms], of "u_id u"]
      family_uplinks_wf(1) [OF assms] that by (auto simp: fills_def)
  then have "btm_get (d_routes (plan c i)) (f, balancing_table (layout_of c)) = Some x \<longleftrightarrow>
      plan_members c i f \<noteq> [] \<and> x = balance_route (layout_of c) f (plan_members c i f)" for x
    using plan_routes_iff [OF assms, of i f "balancing_table (layout_of c)" x] by auto
  then show ?thesis
    by (cases "btm_get (d_routes (plan c i)) (f, balancing_table (layout_of c))") auto
qed

lemma plan_members_mem:
  "h \<in> set (plan_members c i f) \<longleftrightarrow>
     (\<exists>u\<in>set (c_uplinks c). uplink_path u f \<noteq> None \<and> input_active i f (u_id u) \<and>
        (\<exists>r. input_ready i f (u_id u) = Some r \<and> h = (ready_hop r)\<lparr>nh_weight := u_weight u\<rparr>))"
  by (auto simp: plan_members_def map_filter_def member_hop_def in_family_uplinks image_iff
      split: if_splits)



section \<open>Rules of the plan\<close>

definition local_addresses :: "input \<Rightarrow> family \<Rightarrow> uplink_id \<Rightarrow> ip_addr set" where
  "local_addresses i f n = (case input_path i f n of None \<Rightarrow> {} | Some p \<Rightarrow> pi_local_addresses p)"

definition family_rules :: "config \<Rightarrow> input \<Rightarrow> family \<Rightarrow> rule set" where
  "family_rules c i f =
     set (static_rules (layout_of c) f (map u_id (family_uplinks c f)))
     \<union> (\<Union>u\<in>set (family_uplinks c f). \<Union>a\<in>local_addresses i f (u_id u).
          set (source_rules (layout_of c) f (u_id u) a))"

lemma plan_uplink_rules:
  "d_rules (fst (plan_uplink l i f u (d, ms)))
     = d_rules d \<union> (\<Union>a\<in>local_addresses i f (u_id u). set (source_rules l f (u_id u) a))"
  by (auto simp: plan_uplink_def Let_def local_addresses_def input_path_def split: option.splits)

lemma fold_plan_uplink_rules:
  "d_rules (fst (fold (plan_uplink l i f) us (d, ms)))
     = d_rules d \<union> (\<Union>u\<in>set us. \<Union>a\<in>local_addresses i f (u_id u). set (source_rules l f (u_id u) a))"
proof (induction us arbitrary: d ms)
  case (Cons u us)
  obtain d1 ms1 where st: "plan_uplink l i f u (d, ms) = (d1, ms1)" by fastforce
  with plan_uplink_rules [of l i f u d ms] Cons show ?case by (simp add: Un_assoc)
qed simp

lemma plan_family_rules:
  "d_rules (plan_family c i f d) = d_rules d \<union> (if config_manages c f then family_rules c i f else {})"
proof (cases "config_manages c f")
  case True
  from True show ?thesis
    by (rule plan_family_cases [of c f i d]) (simp add: True fold_plan_uplink_rules family_rules_def Un_assoc)
qed (simp add: plan_family_def)

lemma plan_rules:
  "d_rules (plan c i) = (\<Union>f\<in>{f. config_manages c f}. family_rules c i f)"
proof -
  have "{f. config_manages c f} = {f \<in> {V4, V6}. config_manages c f}"
    by (auto intro: family.exhaust)
  then show ?thesis
    by (auto simp: plan_unfold plan_family_rules desired_default_def split: if_splits)
qed

lemma local_addresses_without [simp]: "local_addresses (without i ps) f n = local_addresses i f n"
  by (simp add: local_addresses_def without_paths split: option.split)

text \<open>
  Withholding a set of paths takes them out of the balancing and policy tables and nothing else:
  the rules and the path tables of the plan stay what they are, the policy tables of a withheld path
  are empty, and the members of the balancing route are those of the paths that are not withheld.
\<close>

theorem without_plan:
  assumes "config_wf c" and "u \<in> set (c_uplinks c)" and "uplink_path u f \<noteq> None"
  shows "d_rules (plan c (without i ps)) = d_rules (plan c i)
    \<and> btm_get (d_routes (plan c (without i ps))) (f, path_table (layout_of c) (u_id u))
        = btm_get (d_routes (plan c i)) (f, path_table (layout_of c) (u_id u))
    \<and> (\<forall>t\<in>{policy_balance_table (layout_of c) (u_id u), policy_block_table (layout_of c) (u_id u)}.
         btm_get (d_routes (plan c (without i ps))) (f, t)
           = (if \<lparr>pk_uplink = u_id u, pk_family = f\<rparr> \<in> ps then None
              else btm_get (d_routes (plan c i)) (f, t)))
    \<and> plan_members c (without i ps) f
        = List.map_filter
            (\<lambda>v. if \<lparr>pk_uplink = u_id v, pk_family = f\<rparr> \<in> ps then None else member_hop i f v)
            (family_uplinks c f)"
proof (intro conjI)
  show "d_rules (plan c (without i ps)) = d_rules (plan c i)"
    by (simp add: plan_rules family_rules_def)
  show paths: "btm_get (d_routes (plan c (without i ps))) (f, path_table (layout_of c) (u_id u))
        = btm_get (d_routes (plan c i)) (f, path_table (layout_of c) (u_id u))"
    by (simp add: path_table_route [OF assms])
  show "\<forall>t\<in>{policy_balance_table (layout_of c) (u_id u), policy_block_table (layout_of c) (u_id u)}.
         btm_get (d_routes (plan c (without i ps))) (f, t)
           = (if \<lparr>pk_uplink = u_id u, pk_family = f\<rparr> \<in> ps then None
              else btm_get (d_routes (plan c i)) (f, t))"
    by (simp add: policy_table_route [OF assms] paths)
  show "plan_members c (without i ps) f
        = List.map_filter
            (\<lambda>v. if \<lparr>pk_uplink = u_id v, pk_family = f\<rparr> \<in> ps then None else member_hop i f v)
            (family_uplinks c f)"
    unfolding plan_members_def
    by (rule arg_cong2 [where f = List.map_filter]) (auto simp: member_hop_def fun_eq_iff)
qed

theorem without_plan_witness:
  "d_rules (plan example_config (without example_input {\<lparr>pk_uplink = UplinkId 2, pk_family = V4\<rparr>}))
     = d_rules (plan example_config example_input)"
  using without_plan [of example_config "example_uplink 1 ''a'' 1" V4 example_input
    "{\<lparr>pk_uplink = UplinkId 2, pk_family = V4\<rparr>}"]
  by (simp add: example_config_wf example_config_uplinks)

section \<open>Shape of the rules\<close>

text \<open>The offset of a rule's priority in the range and its action follow from its kind.\<close>

fun kind_offset :: "rule_kind \<Rightarrow> nat" where
  "kind_offset (ProbeLookup i) = unat (id_get i)"
| "kind_offset ProbeGuard = 64"
| "kind_offset MainBypass = 100"
| "kind_offset (PathLookup i) = 200 + unat (id_get i)"
| "kind_offset PathGuard = 264"
| "kind_offset (PolicyBalanceLookup i) = 300 + unat (id_get i)"
| "kind_offset (PolicyBlockLookup i) = 400 + unat (id_get i)"
| "kind_offset PolicyBlockGuard = 464"
| "kind_offset (SourceLookup i) = 500 + unat (id_get i)"
| "kind_offset SourceGuard = 564"
| "kind_offset BalanceRule = 600"
| "kind_offset FinalGuard = 699"

fun kind_action :: "layout \<Rightarrow> rule_kind \<Rightarrow> action" where
  "kind_action l (ProbeLookup i) = Lookup (path_table l i)"
| "kind_action l MainBypass = LookupMainSuppressDefault"
| "kind_action l (PathLookup i) = Lookup (path_table l i)"
| "kind_action l (PolicyBalanceLookup i) = Lookup (policy_balance_table l i)"
| "kind_action l (PolicyBlockLookup i) = Lookup (policy_block_table l i)"
| "kind_action l (SourceLookup i) = Lookup (path_table l i)"
| "kind_action l BalanceRule = Lookup (balancing_table l)"
| "kind_action l _ = Unreachable"

fun kind_uplink :: "rule_kind \<Rightarrow> uplink_id option" where
  "kind_uplink (ProbeLookup i) = Some i"
| "kind_uplink (PathLookup i) = Some i"
| "kind_uplink (PolicyBalanceLookup i) = Some i"
| "kind_uplink (PolicyBlockLookup i) = Some i"
| "kind_uplink (SourceLookup i) = Some i"
| "kind_uplink _ = None"

lemma static_rules_mem:
  "r \<in> set (static_rules l f ids) \<longleftrightarrow>
     (\<exists>i\<in>set ids. r \<in> set (uplink_rules l f i)) \<or> (\<exists>k<6. r = path_guard_rule l f k) \<or>
     r \<in> {static_rule f (l_priority_base l + 64) (Some (mark_class l probe_class)) Unreachable ProbeGuard,
          static_rule f (l_priority_base l + 100) None LookupMainSuppressDefault MainBypass,
          static_rule f (l_priority_base l + 464) (Some (mark_class l policy_block_class)) Unreachable
            PolicyBlockGuard,
          static_rule f (l_priority_base l + 600) None (Lookup (balancing_table l)) BalanceRule,
          static_rule f (l_priority_base l + 699) None Unreachable FinalGuard}"
  by (auto simp: static_rules_def Let_def image_iff)

lemma priority_one:
  assumes "layout_ok l" and "unat n \<le> 699"
  shows "unat (l_priority_base l + n) = unat (l_priority_base l) + unat n"
  using assms by (auto simp: layout_ok_def layout_bounds_def unat_add_no_overflow)

lemma priority_sum:
  assumes "layout_ok l" and "unat n + unat m \<le> 699"
  shows "unat (l_priority_base l + n + m) = unat (l_priority_base l) + unat n + unat m"
  using assms by (auto simp: layout_ok_def layout_bounds_def unat_add_no_overflow)

lemma static_rule_sel [simp]:
  "r_family (static_rule f p m a k) = f" "r_priority (static_rule f p m a k) = p"
  "r_fwmark (static_rule f p m a k) = m" "r_source (static_rule f p m a k) = None"
  "r_action (static_rule f p m a k) = a" "r_kind (static_rule f p m a k) = k"
  by (simp_all add: static_rule_def)

lemma path_guard_sel [simp]:
  "r_family (path_guard_rule l f k) = f" "r_kind (path_guard_rule l f k) = PathGuard"
  "r_priority (path_guard_rule l f k) = l_priority_base l + 264"
  "r_action (path_guard_rule l f k) = Unreachable" "r_source (path_guard_rule l f k) = None"
  by (simp_all add: path_guard_rule_def Let_def)

text \<open>What every rule built by the layout satisfies, for valid uplink ids.\<close>

definition rule_shape :: "layout \<Rightarrow> family \<Rightarrow> rule \<Rightarrow> bool" where
  "rule_shape l f r \<longleftrightarrow>
     r_family r = f \<and> unat (r_priority r) = unat (l_priority_base l) + kind_offset (r_kind r) \<and>
     r_action r = kind_action l (r_kind r) \<and> pred_option valid_id (kind_uplink (r_kind r))"

lemma uplink_rules_shape:
  "layout_ok l \<Longrightarrow> valid_id i \<Longrightarrow> r \<in> set (uplink_rules l f i) \<Longrightarrow> rule_shape l f r"
  by (auto simp: uplink_rules_def Let_def rule_shape_def priority_one priority_sum unat_ucast_id valid_id_unat)

lemma source_rules_shape:
  "layout_ok l \<Longrightarrow> valid_id i \<Longrightarrow> r \<in> set (source_rules l f i a) \<Longrightarrow> rule_shape l f r"
  by (auto simp: source_rules_def Let_def rule_shape_def priority_one priority_sum unat_ucast_id valid_id_unat)

lemma static_rules_shape:
  assumes "layout_ok l" and "\<forall>i\<in>set ids. valid_id i" and "r \<in> set (static_rules l f ids)"
  shows "rule_shape l f r"
  using assms unfolding static_rules_mem
  by (auto dest: uplink_rules_shape simp: rule_shape_def priority_one)

lemma family_rules_shape:
  assumes "config_wf c" and "r \<in> family_rules c i f"
  shows "rule_shape (layout_of c) f r"
  using assms(2) layout_ok_of [OF assms(1)] family_uplinks_wf(1) [OF assms(1), of f]
    static_rules_shape [OF layout_ok_of [OF assms(1)], of "map u_id (family_uplinks c f)" r f]
  by (auto simp: family_rules_def intro: source_rules_shape)

lemma kind_offset_bound: "pred_option valid_id (kind_uplink k) \<Longrightarrow> kind_offset k \<le> 699"
  by (cases k) (auto simp: valid_id_unat)

lemma rule_shape_priority:
  assumes "layout_ok l" and "rule_shape l f r"
  shows "in_priorities l (r_priority r)"
  using assms kind_offset_bound [of "r_kind r"] priority_one [OF assms(1), of 699]
  by (simp add: rule_shape_def in_priorities_def in_range_def word_le_iff_unat)

lemma fills_owned:
  "layout_ok l \<Longrightarrow> valid_id n \<Longrightarrow> fills l i f n t \<Longrightarrow> in_tables l t"
  by (auto simp: fills_def tables_owned)

lemma plan_members_weight:
  assumes "config_wf c" and "h \<in> set (plan_members c i f)"
  shows "1 \<le> unat (nh_weight h) \<and> unat (nh_weight h) \<le> 256"
  using assms by (auto simp: plan_members_mem config_wf_def uplinks_wf_def)

lemma plan_routes_owned:
  assumes "config_wf c" and "btm_get (d_routes (plan c i)) (f, t) = Some x"
  shows "rt_family x = f \<and> rt_table x = t \<and> in_tables (layout_of c) t \<and> rt_nexthops x \<noteq> [] \<and>
      (\<forall>h\<in>set (rt_nexthops x). 1 \<le> unat (nh_weight h) \<and> unat (nh_weight h) \<le> 256)"
proof -
  let ?l = "layout_of c" and ?ms = "plan_members c i f"
  note ok = layout_ok_of [OF assms(1)]
  have balance: "rt_nexthops (balance_route ?l f ?ms) \<noteq> [] \<and>
      (\<forall>h\<in>set (rt_nexthops (balance_route ?l f ?ms)). 1 \<le> unat (nh_weight h) \<and> unat (nh_weight h) \<le> 256)"
    if "?ms \<noteq> []"
    using plan_members_weight [OF assms(1), of _ i f] that by (auto simp: balance_route_hops sort_eq_Nil_iff)
  from assms(2) consider
    u n where "u \<in> set (family_uplinks c f)" "fills ?l i f (u_id u) t" "x = hop_route f n (ready_hop n) t"
    | "t = balancing_table ?l" "?ms \<noteq> []" "x = balance_route ?l f ?ms"
    using plan_routes_iff [OF assms(1), of i f t x] by blast
  then show ?thesis
  proof cases
    case 1
    then show ?thesis
      using fills_owned [OF ok] family_uplinks_wf(1) [OF assms(1), of f]
      by (auto simp: hop_route_def ready_hop_def)
  next
    case 2
    then show ?thesis
      using balance base_numbers [OF ok]
      by (auto simp: balance_route_def Let_def in_tables_def in_range_def word_le_iff_unat)
  qed
qed

lemma plan_rule_shape:
  assumes "config_wf c" and "r \<in> d_rules (plan c i)"
  shows "rule_shape (layout_of c) (r_family r) r"
proof -
  obtain f where "rule_shape (layout_of c) f r"
    using assms(2) family_rules_shape [OF assms(1)] by (auto simp: plan_rules)
  then show ?thesis by (auto simp: rule_shape_def)
qed

text \<open>
  Everything the planner asks for stays in the ranges the daemon owns: every route is filed under
  its own family and table, in the table range, with at least one next hop and weights between 1 and
  256; every rule has a priority in the owned range.
\<close>

theorem plan_stays_in_range:
  assumes "config_wf c"
  shows "(btm_get (d_routes (plan c i)) (f, t) = Some x \<longrightarrow>
      rt_family x = f \<and> rt_table x = t \<and> in_tables (layout_of c) t \<and> rt_nexthops x \<noteq> [] \<and>
      (\<forall>h\<in>set (rt_nexthops x). 1 \<le> unat (nh_weight h) \<and> unat (nh_weight h) \<le> 256))
    \<and> (r \<in> d_rules (plan c i) \<longrightarrow> in_priorities (layout_of c) (r_priority r))"
  using plan_routes_owned [OF assms] rule_shape_priority [OF layout_ok_of [OF assms] plan_rule_shape [OF assms]]
  by blast

theorem plan_stays_in_range_witness:
  "in_tables (layout_of example_config) (path_table (layout_of example_config) (UplinkId 1))"
proof -
  obtain x where "btm_get (d_routes (plan example_config example_input))
      (V4, path_table (layout_of example_config) (UplinkId 1)) = Some x"
    using path_table_route [of example_config "example_uplink 1 ''a'' 1" V4 example_input]
    by (auto simp: example_config_wf example_config_uplinks)
  with plan_stays_in_range [OF example_config_wf, where i = example_input and f = V4 and x = x] show ?thesis by blast
qed

end
