(* ===== verification/Fib.thy ===== *)
theory Fib
  imports Plan
begin

text \<open>
  What the planned rules make the kernel do. The decision procedure is that of Linux policy routing
  (\<open>ip-rule(8)\<close>): the rules of a family are tried in increasing priority, a rule applies when
  its mark and source selectors match, a lookup that finds no route falls through to the next rule,
  \<open>unreachable\<close> ends the search, and \<open>lookup main suppress_prefixlength 0\<close> only takes
  the routes of the main table that are more specific than a default route. The reference function
  \<open>intended\<close> says where the daemon wants a flow to go; the refinement lemma says that the
  planned rules send it there.
\<close>

unbundle bit_operations_syntax

section \<open>Policy routing\<close>

record flow =
  fl_mark :: u32
  fl_source :: ip_addr
  fl_local :: bool

datatype verdict = ViaTable u32 | ViaMain | Refused

definition selects :: "rule \<Rightarrow> flow \<Rightarrow> bool" where
  "selects r fl \<longleftrightarrow>
     (case r_fwmark r of None \<Rightarrow> True | Some (v, k) \<Rightarrow> fl_mark fl AND k = v AND k) \<and>
     (case r_source r of None \<Rightarrow> True | Some a \<Rightarrow> fl_source fl = a)"

fun act :: "(u32 \<Rightarrow> bool) \<Rightarrow> bool \<Rightarrow> action \<Rightarrow> verdict option" where
  "act has loc (Lookup t) = (if has t then Some (ViaTable t) else None)"
| "act has loc LookupMainSuppressDefault = (if loc then Some ViaMain else None)"
| "act has loc Unreachable = Some Refused"

definition decide :: "(u32 \<Rightarrow> bool) \<Rightarrow> flow \<Rightarrow> rule \<Rightarrow> verdict option" where
  "decide has fl r = (if selects r fl then act has (fl_local fl) (r_action r) else None)"

fun fib_lookup :: "(u32 \<Rightarrow> bool) \<Rightarrow> flow \<Rightarrow> rule list \<Rightarrow> verdict option" where
  "fib_lookup has fl [] = None"
| "fib_lookup has fl (r # rs) =
     (case decide has fl r of None \<Rightarrow> fib_lookup has fl rs | Some v \<Rightarrow> Some v)"

text \<open>The rules of a family as the kernel orders them; equal priorities may come in any order.\<close>

definition installed_order :: "rule set \<Rightarrow> family \<Rightarrow> rule list \<Rightarrow> bool" where
  "installed_order rules f rs \<longleftrightarrow>
     set rs = {r \<in> rules. r_family r = f} \<and> sorted (map r_priority rs)"

section \<open>The intended decision\<close>

definition owner :: "config \<Rightarrow> input \<Rightarrow> family \<Rightarrow> ip_addr \<Rightarrow> uplink_id option" where
  "owner c i f a =
     map_option u_id (find (\<lambda>u. a \<in> local_addresses i f (u_id u)) (family_uplinks c f))"

definition via :: "(u32 \<Rightarrow> bool) \<Rightarrow> u32 \<Rightarrow> verdict" where
  "via has t = (if has t then ViaTable t else Refused)"

definition intended :: "config \<Rightarrow> input \<Rightarrow> family \<Rightarrow> (u32 \<Rightarrow> bool) \<Rightarrow> flow \<Rightarrow> verdict" where
  "intended c i f has fl =
     (let l = layout_of c;
          v = fv_get (fwm_field (l_mask l) (fl_mark fl));
          cls = v AND class_bits;
          n = UplinkId (v AND 0x3f);
          conf = n \<in> u_id ` set (family_uplinks c f)
      in if cls = fv_get probe_class then (if conf then via has (path_table l n) else Refused)
         else if fl_local fl then ViaMain
         else if v = 0 then
           (case owner c i f (fl_source fl) of
              Some m \<Rightarrow> via has (path_table l m)
            | None \<Rightarrow> via has (balancing_table l))
         else if cls = 0 then (if conf then via has (path_table l n) else Refused)
         else if cls = fv_get policy_block_class then
           (if conf then via has (policy_block_table l n) else Refused)
         else if conf \<and> has (policy_balance_table l n) then ViaTable (policy_balance_table l n)
         else via has (balancing_table l))"

text \<open>No address is local to two uplinks.\<close>

definition owners_unique :: "config \<Rightarrow> input \<Rightarrow> family \<Rightarrow> bool" where
  "owners_unique c i f \<longleftrightarrow>
     (\<forall>u\<in>set (family_uplinks c f). \<forall>v\<in>set (family_uplinks c f).
        local_addresses i f (u_id u) \<inter> local_addresses i f (u_id v) \<noteq> {} \<longrightarrow> u_id u = u_id v)"

section \<open>Selectors\<close>

lemma encode_and: "fwm_encode m (fv_raw a) AND fwm_encode m (fv_raw b) = fwm_encode m (fv_raw (a AND b))"
  by (rule bit_word_eqI) (auto simp: fwm_encode_def fv_raw_def bit_push_bit_iff bit_ucast_iff bit_and_iff)

lemma field_selector:
  assumes "fwm_ok m" and "v AND k = v"
  shows "mark AND fwm_encode m (fv_raw k) = fwm_encode m (fv_raw v) AND fwm_encode m (fv_raw k) \<longleftrightarrow>
    fv_get (fwm_field m mark) AND k = v"
  using mark_selects_iff [OF assms(1), of mark k v] assms(2) by (simp add: encode_and)

lemma raw_get: "fv_raw (fv_get v) = v"
  by (simp add: fv_raw_def)

lemma select_value:
  assumes "fwm_ok (l_mask l)"
  shows "(case Some (mark_value l v) of None \<Rightarrow> True | Some (a, k) \<Rightarrow> mark AND k = a AND k) \<longleftrightarrow>
    fwm_field (l_mask l) mark = v"
proof -
  have ff: "x AND 0xff = x" for x :: u8
    by (rule bit_word_eqI) (auto simp: bit_and_iff dest: bit_imp_le_length)
  show ?thesis
    using field_selector [OF assms, of "fv_get v" "0xff" mark] ff
    by (auto simp: mark_value_def fwm_mask_encode raw_get field_value.expand)
qed

lemma select_class:
  assumes "fwm_ok (l_mask l)" and "fv_get v AND class_bits = fv_get v"
  shows "(case Some (mark_class l v) of None \<Rightarrow> True | Some (a, k) \<Rightarrow> mark AND k = a AND k) \<longleftrightarrow>
    fv_get (fwm_field (l_mask l) mark) AND class_bits = fv_get v"
  using field_selector [OF assms, of mark]
  by (simp add: mark_class_def fwm_class_mask_encode raw_get)

lemma word_bits_eq: "a = b \<longleftrightarrow> (\<forall>n<LENGTH('a). bit a n = bit b n)" for a b :: "'a::len word"
  by (auto intro: bit_word_eqI)

lemma bit_class_bits: "bit class_bits n \<longleftrightarrow> n = 6 \<or> n = 7"
proof -
  have fin: "\<forall>n\<in>set [0..<8]. bit class_bits n \<longleftrightarrow> n = 6 \<or> n = 7" by code_simp
  then show ?thesis
    using bit_imp_le_length [of class_bits n] by (cases "n < 8") auto
qed

lemma class_guard_bit:
  assumes "k < 6"
  shows "v AND (0xc0 OR push_bit k (1 :: u8)) = push_bit k 1 \<longleftrightarrow> v AND 0xc0 = 0 \<and> bit v k"
proof -
  have bits: "bit (0xc0 :: u8) n \<longleftrightarrow> n = 6 \<or> n = 7" for n
    using bit_class_bits by (simp only: class_bits_def)
  have k: "k \<noteq> 6" "k \<noteq> 7" "k < 8" using assms by auto
  have one: "bit (push_bit k (1 :: u8)) n \<longleftrightarrow> n = k" for n
    using k(3) by (auto simp: bit_push_bit_iff bit_1_iff simp del: push_bit_of_1)
  have sel: "bit (v AND (0xc0 OR push_bit k 1)) n \<longleftrightarrow> bit v n \<and> (n = 6 \<or> n = 7 \<or> n = k)" for n
    by (simp only: bit_and_iff bit_or_iff bits one disj_assoc)
  have cls: "bit (v AND 0xc0) n \<longleftrightarrow> bit v n \<and> (n = 6 \<or> n = 7)" for n
    by (simp only: bit_and_iff bits)
  show ?thesis
  proof
    assume eq: "v AND (0xc0 OR push_bit k 1) = push_bit k 1"
    then have "bit v n \<and> (n = 6 \<or> n = 7 \<or> n = k) \<longleftrightarrow> n = k" for n
      by (metis sel one)
    with k have "\<not> bit v 6" "\<not> bit v 7" "bit v k" by metis+
    then show "v AND 0xc0 = 0 \<and> bit v k" by (auto simp: word_bits_eq cls)
  next
    assume a: "v AND 0xc0 = 0 \<and> bit v k"
    then have "\<not> bit v 6" "\<not> bit v 7" by (metis bit_0_eq bot_apply bot_bool_def cls)+
    with a k show "v AND (0xc0 OR push_bit k 1) = push_bit k 1"
      unfolding word_bits_eq sel one by auto
  qed
qed

definition field_of :: "layout \<Rightarrow> flow \<Rightarrow> u8" where
  "field_of l fl = fv_get (fwm_field (l_mask l) (fl_mark fl))"

lemma select_path_guard:
  assumes "fwm_ok (l_mask l)" and "k < 6"
  shows "selects (path_guard_rule l f k) fl \<longleftrightarrow>
    field_of l fl AND class_bits = 0 \<and> bit (field_of l fl) k"
proof -
  let ?b = "push_bit k (1 :: u8)"
  have "?b AND (0xc0 OR ?b) = ?b"
    by (simp add: bit.conj_disj_distrib or.commute)
  then show ?thesis
    using field_selector [OF assms(1), of ?b "0xc0 OR ?b" "fl_mark fl"] class_guard_bit [OF assms(2)]
    by (simp add: selects_def path_guard_rule_def Let_def field_of_def class_bits_def
        del: push_bit_of_1)
qed

lemma path_guards_cover:
  assumes "fwm_ok (l_mask l)"
  shows "(\<exists>k<6. selects (path_guard_rule l f k) fl) \<longleftrightarrow>
    field_of l fl AND class_bits = 0 \<and> field_of l fl \<noteq> 0"
proof -
  have "\<exists>k<6. bit v k" if cls: "v AND class_bits = 0" and nz: "v \<noteq> 0" for v :: u8
  proof -
    have six: "\<not> bit v 6" "\<not> bit v 7"
      using cls bit_class_bits by (metis bit_0_eq bit_and_iff bot_apply bot_bool_def)+
    obtain k where "k < 8" "bit v k" using nz by (auto simp: word_bits_eq)
    moreover have "k \<noteq> 6" "k \<noteq> 7" using six \<open>bit v k\<close> by auto
    ultimately show ?thesis by (intro exI [of _ k]) auto
  qed
  moreover have "v \<noteq> 0" if "bit v k" for v :: u8 and k using that by auto
  ultimately show ?thesis
    using select_path_guard [OF assms] by metis
qed

section \<open>Decisions by kind\<close>

text \<open>When some rule of a kind selects a flow with field value \<open>v\<close> and source \<open>a\<close>.\<close>

definition configured :: "config \<Rightarrow> family \<Rightarrow> uplink_id \<Rightarrow> bool" where
  "configured c f n \<longleftrightarrow> n \<in> u_id ` set (family_uplinks c f)"

fun kind_sel :: "config \<Rightarrow> input \<Rightarrow> family \<Rightarrow> u8 \<Rightarrow> ip_addr \<Rightarrow> rule_kind \<Rightarrow> bool" where
  "kind_sel c i f v a (ProbeLookup n) \<longleftrightarrow> configured c f n \<and> v = fv_get (fv_probe n)"
| "kind_sel c i f v a ProbeGuard \<longleftrightarrow> v AND class_bits = fv_get probe_class"
| "kind_sel c i f v a (PathLookup n) \<longleftrightarrow> configured c f n \<and> v = fv_get (fv_path n)"
| "kind_sel c i f v a PathGuard \<longleftrightarrow> v AND class_bits = 0 \<and> v \<noteq> 0"
| "kind_sel c i f v a (PolicyBalanceLookup n) \<longleftrightarrow> configured c f n \<and> v = fv_get (fv_policy_balance n)"
| "kind_sel c i f v a (PolicyBlockLookup n) \<longleftrightarrow> configured c f n \<and> v = fv_get (fv_policy_block n)"
| "kind_sel c i f v a PolicyBlockGuard \<longleftrightarrow> v AND class_bits = fv_get policy_block_class"
| "kind_sel c i f v a (SourceLookup n) \<longleftrightarrow> configured c f n \<and> v = 0 \<and> a \<in> local_addresses i f n"
| "kind_sel c i f v a SourceGuard \<longleftrightarrow>
     v = 0 \<and> (\<exists>n. configured c f n \<and> a \<in> local_addresses i f n)"
| "kind_sel c i f v a _ \<longleftrightarrow> True"

lemma layout_mask_ok: "config_wf c \<Longrightarrow> fwm_ok (l_mask (layout_of c))"
  using layout_ok_of by (auto simp: layout_ok_def)

lemma fv_eq_iff: "x = y \<longleftrightarrow> fv_get x = fv_get y"
  by (auto simp: field_value.expand)

lemma class_values [simp]:
  "fv_get probe_class AND class_bits = fv_get probe_class"
  "fv_get policy_block_class AND class_bits = fv_get policy_block_class"
  by (simp_all add: probe_class_def policy_block_class_def class_bits_def)

lemma selects_zero:
  fixes l :: layout
  assumes "fwm_ok (l_mask l)"
  shows "mark AND fwm_mask (l_mask l) = 0 AND fwm_mask (l_mask l) \<longleftrightarrow>
    fv_get (fwm_field (l_mask l) mark) = 0"
proof -
  have "mark_value l fv_none = (0, fwm_mask (l_mask l))"
    by (simp add: mark_value_def fv_none_def fwm_encode_def)
  with select_value [OF assms, where v = fv_none and mark = mark] show ?thesis
    by (simp add: fv_eq_iff fv_none_def)
qed

lemma uplink_rules_sel:
  assumes "config_wf c" and "configured c f n" and "r \<in> set (uplink_rules (layout_of c) f n)"
  shows "selects r fl \<longleftrightarrow> kind_sel c i f (field_of (layout_of c) fl) (fl_source fl) (r_kind r)"
  using assms(2,3) select_value [OF layout_mask_ok [OF assms(1)], where mark = "fl_mark fl"]
  by (auto simp: uplink_rules_def Let_def selects_def field_of_def fv_eq_iff)

lemma source_rules_sel:
  assumes "config_wf c" and "configured c f n" and "a \<in> local_addresses i f n"
    and "r \<in> set (source_rules (layout_of c) f n a)" and "selects r fl"
  shows "kind_sel c i f (field_of (layout_of c) fl) (fl_source fl) (r_kind r)"
  using assms(2-5) selects_zero [OF layout_mask_ok [OF assms(1)], of "fl_mark fl"]
  by (auto simp: source_rules_def Let_def selects_def field_of_def)

lemma configured_uplinks: "set (map u_id (family_uplinks c f)) = {n. configured c f n}"
  by (auto simp: configured_def)

lemma family_rules_cases:
  assumes "r \<in> family_rules c i f"
  obtains
    n where "configured c f n" "r \<in> set (uplink_rules (layout_of c) f n)"
  | k where "k < 6" "r = path_guard_rule (layout_of c) f k"
  | n a where "configured c f n" "a \<in> local_addresses i f n" "r \<in> set (source_rules (layout_of c) f n a)"
  | "r_kind r \<in> {MainBypass, BalanceRule, FinalGuard}" "r_fwmark r = None" "r_source r = None"
  | v where "r_kind r = ProbeGuard \<and> v = probe_class \<or> r_kind r = PolicyBlockGuard \<and> v = policy_block_class"
      "r_fwmark r = Some (mark_class (layout_of c) v)" "r_source r = None"
proof -
  from assms consider "r \<in> set (static_rules (layout_of c) f (map u_id (family_uplinks c f)))"
    | u a where "u \<in> set (family_uplinks c f)" "a \<in> local_addresses i f (u_id u)"
        "r \<in> set (source_rules (layout_of c) f (u_id u) a)"
    by (auto simp: family_rules_def)
  then show thesis
  proof cases
    case 1
    then show thesis
      unfolding static_rules_mem configured_uplinks using that by auto
  next
    case 2
    then show thesis using that(3) [of "u_id u" a] by (auto simp: configured_def)
  qed
qed

lemma selects_kind:
  assumes "config_wf c" and "r \<in> family_rules c i f" and "selects r fl"
  shows "kind_sel c i f (field_of (layout_of c) fl) (fl_source fl) (r_kind r)"
  using assms(2)
proof (cases rule: family_rules_cases)
  case (1 n)
  with uplink_rules_sel [OF assms(1) 1] assms(3) show ?thesis by blast
next
  case (2 k)
  then show ?thesis
    using assms(3) path_guards_cover [OF layout_mask_ok [OF assms(1)], of f fl] by auto
next
  case (3 n a)
  with source_rules_sel [OF assms(1) 3 assms(3)] show ?thesis by blast
next
  case 4
  then show ?thesis by auto
next
  case (5 v)
  then show ?thesis
    using assms(3) select_class [OF layout_mask_ok [OF assms(1)], where v = v and mark = "fl_mark fl"]
    by (auto simp: selects_def field_of_def)
qed

lemma configured_wf: "config_wf c \<Longrightarrow> configured c f n \<Longrightarrow> valid_id n"
  using family_uplinks_wf(1) by (auto simp: configured_def)

lemma static_in_family:
  "r \<in> set (static_rules (layout_of c) f (map u_id (family_uplinks c f))) \<Longrightarrow> r \<in> family_rules c i f"
  by (simp add: family_rules_def)

lemma uplink_in_family:
  assumes "configured c f n" and "r \<in> set (uplink_rules (layout_of c) f n)"
  shows "r \<in> family_rules c i f"
  by (rule static_in_family) (use assms in \<open>auto simp: static_rules_mem configured_def\<close>)

text \<open>Conversely, some rule of the kind selects the flow.\<close>

definition has_rule :: "config \<Rightarrow> input \<Rightarrow> family \<Rightarrow> flow \<Rightarrow> rule_kind \<Rightarrow> bool" where
  "has_rule c i f fl k \<longleftrightarrow> (\<exists>r\<in>family_rules c i f. r_kind r = k \<and> selects r fl)"

lemma has_uplink_rule:
  assumes "config_wf c" and "configured c f n" and "r \<in> set (uplink_rules (layout_of c) f n)"
    and "kind_sel c i f (field_of (layout_of c) fl) (fl_source fl) (r_kind r)"
  shows "has_rule c i f fl (r_kind r)"
  using uplink_rules_sel [OF assms(1-3), of fl i] uplink_in_family [OF assms(2,3), of i] assms(4)
  by (auto simp: has_rule_def)

lemma has_static_rule:
  assumes "r \<in> set (static_rules (layout_of c) f (map u_id (family_uplinks c f)))" and "selects r fl"
  shows "has_rule c i f fl (r_kind r)"
  using static_in_family [OF assms(1), of i] assms(2) by (auto simp: has_rule_def)

lemma has_source_rule:
  assumes "config_wf c" and "configured c f n" and "fl_source fl \<in> local_addresses i f n"
    and "field_of (layout_of c) fl = 0" and "k = SourceLookup n \<or> k = SourceGuard"
  shows "has_rule c i f fl k"
proof -
  have "k \<in> r_kind ` set (source_rules (layout_of c) f n (fl_source fl))"
    using assms(5) by (simp add: source_rules_def Let_def)
  then obtain r where r: "r \<in> set (source_rules (layout_of c) f n (fl_source fl))" "r_kind r = k"
    by blast
  then have "r \<in> family_rules c i f"
    using assms(2,3) by (auto simp: family_rules_def configured_def)
  moreover have "selects r fl"
    using r(1) assms(4) selects_zero [OF layout_mask_ok [OF assms(1)], of "fl_mark fl"]
    by (auto simp: source_rules_def Let_def selects_def field_of_def)
  ultimately show ?thesis using r(2) by (auto simp: has_rule_def)
qed

lemma has_guard_rule:
  assumes "config_wf c" and "kind_sel c i f (field_of (layout_of c) fl) (fl_source fl) k"
    and "is_class_guard k"
  shows "has_rule c i f fl k"
proof -
  let ?l = "layout_of c"
  note cls = select_class [OF layout_mask_ok [OF assms(1)], where mark = "fl_mark fl"]
  from assms(3) have "k = ProbeGuard \<or> k = PathGuard \<or> k = PolicyBlockGuard"
    by (cases k) simp_all
  then show ?thesis
  proof (elim disjE)
    assume "k = ProbeGuard"
    with assms(2) cls [of probe_class] show ?thesis
      using has_static_rule [of "static_rule f (l_priority_base ?l + 64)
        (Some (mark_class ?l probe_class)) Unreachable ProbeGuard" c f fl i]
      by (simp add: static_rules_mem selects_def field_of_def)
  next
    assume k: "k = PathGuard"
    with assms(2) obtain j where "j < 6" "selects (path_guard_rule ?l f j) fl"
      using path_guards_cover [OF layout_mask_ok [OF assms(1)], of f fl] by auto
    with k show ?thesis
      using has_static_rule [of "path_guard_rule ?l f j" c f fl i] by (auto simp: static_rules_mem)
  next
    assume "k = PolicyBlockGuard"
    with assms(2) cls [of policy_block_class] show ?thesis
      using has_static_rule [of "static_rule f (l_priority_base ?l + 464)
        (Some (mark_class ?l policy_block_class)) Unreachable PolicyBlockGuard" c f fl i]
      by (simp add: static_rules_mem selects_def field_of_def)
  qed
qed

lemma has_common_rules:
  "has_rule c i f fl MainBypass" "has_rule c i f fl BalanceRule" "has_rule c i f fl FinalGuard"
  using
    has_static_rule [of "static_rule f (l_priority_base (layout_of c) + 100) None
      LookupMainSuppressDefault MainBypass" c f fl i]
    has_static_rule [of "static_rule f (l_priority_base (layout_of c) + 600) None
      (Lookup (balancing_table (layout_of c))) BalanceRule" c f fl i]
    has_static_rule [of "static_rule f (l_priority_base (layout_of c) + 699) None
      Unreachable FinalGuard" c f fl i]
  by (simp_all add: static_rules_mem selects_def)

lemma uplink_rule_kinds:
  "r_kind ` set (uplink_rules l f n) = {ProbeLookup n, PathLookup n, PolicyBalanceLookup n, PolicyBlockLookup n}"
  by (auto simp: uplink_rules_def Let_def)

lemma kind_selects:
  assumes "config_wf c" and "kind_sel c i f (field_of (layout_of c) fl) (fl_source fl) k"
  shows "has_rule c i f fl k"
proof -
  have lookup: "has_rule c i f fl k" if "configured c f n"
    "k \<in> {ProbeLookup n, PathLookup n, PolicyBalanceLookup n, PolicyBlockLookup n}" for n
  proof -
    from that(2) obtain r where "r \<in> set (uplink_rules (layout_of c) f n)" "r_kind r = k"
      unfolding uplink_rule_kinds [of "layout_of c" f n, symmetric] by auto
    with has_uplink_rule [OF assms(1) that(1), of r] assms(2) show ?thesis by simp
  qed
  show ?thesis
    using assms(2) lookup has_source_rule [OF assms(1)] has_guard_rule [OF assms] has_common_rules [of c i f fl]
    by (cases k) auto
qed

section \<open>The first deciding rule\<close>

lemma fib_first:
  assumes "sorted (map r_priority rs)" and "r \<in> set rs" and "decide has fl r = Some V"
    and "\<forall>s\<in>set rs. r_priority s \<le> r_priority r \<longrightarrow> decide has fl s \<in> {None, Some V}"
  shows "fib_lookup has fl rs = Some V"
  using assms
proof (induction rs)
  case (Cons s rs)
  show ?case
  proof (cases "decide has fl s")
    case None
    with Cons show ?thesis by auto
  next
    case (Some W)
    have "r_priority s \<le> r_priority r" using Cons.prems(1,2) by auto
    with Cons.prems(4) Some show ?thesis by auto
  qed
qed simp

lemma installed_family:
  assumes "config_wf c" and "config_manages c f" and "installed_order (d_rules (plan c i)) f rs"
  shows "set rs = family_rules c i f"
proof -
  have "r_family r = g" if "r \<in> family_rules c i g" for r g
    using family_rules_shape [OF assms(1) that] by (simp add: rule_shape_def)
  with assms(2,3) show ?thesis by (auto simp: installed_order_def plan_rules)
qed

lemma fib_kind:
  assumes c: "config_wf c" and "config_manages c f" and rs: "installed_order (d_rules (plan c i)) f rs"
    and k: "kind_sel c i f (field_of (layout_of c) fl) (fl_source fl) k"
    and V: "act has (fl_local fl) (kind_action (layout_of c) k) = Some V"
    and before: "\<And>j. kind_sel c i f (field_of (layout_of c) fl) (fl_source fl) j \<Longrightarrow>
      kind_offset j \<le> kind_offset k \<Longrightarrow>
      act has (fl_local fl) (kind_action (layout_of c) j) \<in> {None, Some V}"
  shows "fib_lookup has fl rs = Some V"
proof -
  let ?l = "layout_of c"
  have set: "set rs = family_rules c i f" using installed_family assms(1-3) .
  obtain r where r: "r \<in> family_rules c i f" "r_kind r = k" "selects r fl"
    using kind_selects [OF c k] by (auto simp: has_rule_def)
  have shape: "unat (r_priority s) = unat (l_priority_base ?l) + kind_offset (r_kind s)"
    "r_action s = kind_action ?l (r_kind s)" if "s \<in> family_rules c i f" for s
    using family_rules_shape [OF c that] by (auto simp: rule_shape_def)
  show ?thesis
  proof (rule fib_first [of rs r])
    show "sorted (map r_priority rs)" using rs by (simp add: installed_order_def)
    show "r \<in> set rs" by (simp add: set r)
    show "decide has fl r = Some V" using r V shape [OF r(1)] by (simp add: decide_def)
    show "\<forall>s\<in>set rs. r_priority s \<le> r_priority r \<longrightarrow> decide has fl s \<in> {None, Some V}"
    proof (intro ballI impI)
      fix s assume s: "s \<in> set rs" and le: "r_priority s \<le> r_priority r"
      then have "kind_offset (r_kind s) \<le> kind_offset k"
        using shape [of s] shape [OF r(1)] r(2) by (simp add: set word_le_iff_unat)
      then show "decide has fl s \<in> {None, Some V}"
        using before [of "r_kind s"] selects_kind [OF c, of s i f fl] shape [of s] s
        by (auto simp: decide_def set)
    qed
  qed
qed

section \<open>Field values by class\<close>

lemma bit_low_bits: "bit (0x3f :: u8) n \<longleftrightarrow> n < 6"
proof -
  have fin: "\<forall>n\<in>set [0..<8]. bit (0x3f :: u8) n \<longleftrightarrow> n < 6" by code_simp
  then show ?thesis
    using bit_imp_le_length [of "0x3f :: u8" n] by (cases "n < 8") auto
qed

lemma field_split: "v = (v AND class_bits) OR (v AND 0x3f)" for v :: u8
proof (rule bit_word_eqI)
  fix n assume "n < LENGTH(8)"
  then have "n = 6 \<or> n = 7 \<or> n < 6" by auto
  then show "bit v n = bit ((v AND class_bits) OR (v AND 0x3f)) n"
    unfolding bit_or_iff bit_and_iff bit_class_bits bit_low_bits by blast
qed

lemma value_iff:
  assumes "valid_id m"
  shows "v = fv_get (fv_probe m) \<longleftrightarrow> v AND class_bits = fv_get probe_class \<and> m = UplinkId (v AND 0x3f)"
    and "v = fv_get (fv_path m) \<longleftrightarrow> v AND class_bits = 0 \<and> m = UplinkId (v AND 0x3f)"
    and "v = fv_get (fv_policy_balance m) \<longleftrightarrow>
      v AND class_bits = fv_get policy_balance_class \<and> m = UplinkId (v AND 0x3f)"
    and "v = fv_get (fv_policy_block m) \<longleftrightarrow>
      v AND class_bits = fv_get policy_block_class \<and> m = UplinkId (v AND 0x3f)"
proof -
  note cls = class_of_values [OF assms] and ids = id_of_values [OF assms] and split = field_split [of v]
  have m: "m = UplinkId (id_get m)" by simp
  show "v = fv_get (fv_probe m) \<longleftrightarrow> v AND class_bits = fv_get probe_class \<and> m = UplinkId (v AND 0x3f)"
    using cls(2) ids(2) split m by (auto simp: fv_probe_def probe_class_def)
  show "v = fv_get (fv_path m) \<longleftrightarrow> v AND class_bits = 0 \<and> m = UplinkId (v AND 0x3f)"
    using cls(1) ids(1) split m by (auto simp: fv_path_def)
  show "v = fv_get (fv_policy_balance m) \<longleftrightarrow>
      v AND class_bits = fv_get policy_balance_class \<and> m = UplinkId (v AND 0x3f)"
    using cls(3) ids(3) split m by (auto simp: fv_policy_balance_def policy_balance_class_def)
  show "v = fv_get (fv_policy_block m) \<longleftrightarrow>
      v AND class_bits = fv_get policy_block_class \<and> m = UplinkId (v AND 0x3f)"
    using cls(4) ids(4) split m by (auto simp: fv_policy_block_def policy_block_class_def)
qed

lemma class_exhaust:
  "v AND class_bits \<in> {0, fv_get probe_class, fv_get policy_balance_class, fv_get policy_block_class}"
  for v :: u8
proof -
  have "v AND class_bits = (if bit v 6 then 0x40 else 0) OR (if bit v 7 then 0x80 else 0)"
  proof (rule bit_word_eqI)
    fix n assume "n < LENGTH(8)"
    then have "n \<in> set [0..<8]" by simp
    moreover have "\<forall>n\<in>set [0..<8]. (bit (0x40 :: u8) n \<longleftrightarrow> n = 6) \<and> (bit (0x80 :: u8) n \<longleftrightarrow> n = 7)"
      by code_simp
    ultimately show "bit (v AND class_bits) n =
        bit ((if bit v 6 then 0x40 else 0) OR (if bit v 7 then 0x80 else 0) :: u8) n"
      by (auto simp: bit_and_iff bit_or_iff bit_class_bits)
  qed
  then show ?thesis
    by (auto simp: probe_class_def policy_balance_class_def policy_block_class_def)
qed

lemma class_distinct:
  "fv_get probe_class \<noteq> 0" "fv_get policy_balance_class \<noteq> 0" "fv_get policy_block_class \<noteq> 0"
  "fv_get probe_class \<noteq> fv_get policy_balance_class" "fv_get probe_class \<noteq> fv_get policy_block_class"
  "fv_get policy_balance_class \<noteq> fv_get policy_block_class"
  by (simp_all add: probe_class_def policy_balance_class_def policy_block_class_def)

lemma kind_sel_lookup:
  assumes "config_wf c"
  shows "kind_sel c i f v a (ProbeLookup m) \<longleftrightarrow>
      configured c f m \<and> v AND class_bits = fv_get probe_class \<and> m = UplinkId (v AND 0x3f)"
    and "kind_sel c i f v a (PathLookup m) \<longleftrightarrow>
      configured c f m \<and> v AND class_bits = 0 \<and> v \<noteq> 0 \<and> m = UplinkId (v AND 0x3f)"
    and "kind_sel c i f v a (PolicyBalanceLookup m) \<longleftrightarrow>
      configured c f m \<and> v AND class_bits = fv_get policy_balance_class \<and> m = UplinkId (v AND 0x3f)"
    and "kind_sel c i f v a (PolicyBlockLookup m) \<longleftrightarrow>
      configured c f m \<and> v AND class_bits = fv_get policy_block_class \<and> m = UplinkId (v AND 0x3f)"
proof -
  note valid = configured_wf [OF assms, of f m]
  show "kind_sel c i f v a (ProbeLookup m) \<longleftrightarrow>
      configured c f m \<and> v AND class_bits = fv_get probe_class \<and> m = UplinkId (v AND 0x3f)"
    using value_iff(1) [of m v] valid by auto
  show "kind_sel c i f v a (PolicyBalanceLookup m) \<longleftrightarrow>
      configured c f m \<and> v AND class_bits = fv_get policy_balance_class \<and> m = UplinkId (v AND 0x3f)"
    using value_iff(3) [of m v] valid by auto
  show "kind_sel c i f v a (PolicyBlockLookup m) \<longleftrightarrow>
      configured c f m \<and> v AND class_bits = fv_get policy_block_class \<and> m = UplinkId (v AND 0x3f)"
    using value_iff(4) [of m v] valid by auto
  have "m \<noteq> UplinkId 0" if "configured c f m"
    using valid [OF that] by (auto simp: valid_id_unat)
  then show "kind_sel c i f v a (PathLookup m) \<longleftrightarrow>
      configured c f m \<and> v AND class_bits = 0 \<and> v \<noteq> 0 \<and> m = UplinkId (v AND 0x3f)"
    using value_iff(2) [of m v] valid by auto
qed

declare kind_sel.simps(1,3,5,6) [simp del]

lemma offset_configured: "config_wf c \<Longrightarrow> configured c f n \<Longrightarrow> 1 \<le> unat (id_get n) \<and> unat (id_get n) \<le> 63"
  using configured_wf by (auto simp: valid_id_unat)

section \<open>The planned rules decide as intended\<close>

text \<open>What the cases below share: a valid configuration and its planned rules, installed.\<close>

definition planned :: "config \<Rightarrow> input \<Rightarrow> family \<Rightarrow> rule list \<Rightarrow> bool" where
  "planned c i f rs \<longleftrightarrow>
     config_wf c \<and> config_manages c f \<and> installed_order (d_rules (plan c i)) f rs"

definition flow_kind :: "config \<Rightarrow> input \<Rightarrow> family \<Rightarrow> flow \<Rightarrow> rule_kind \<Rightarrow> bool" where
  "flow_kind c i f fl = kind_sel c i f (field_of (layout_of c) fl) (fl_source fl)"

abbreviation flow_class :: "config \<Rightarrow> flow \<Rightarrow> u8" where
  "flow_class c fl \<equiv> field_of (layout_of c) fl AND class_bits"

abbreviation flow_uplink :: "config \<Rightarrow> flow \<Rightarrow> uplink_id" where
  "flow_uplink c fl \<equiv> UplinkId (field_of (layout_of c) fl AND 0x3f)"

lemmas sel_simps = flow_kind_def kind_sel_lookup class_distinct class_distinct [symmetric]

lemma decided:
  assumes "planned c i f rs" and "flow_kind c i f fl k"
    and "act has (fl_local fl) (kind_action (layout_of c) k) = Some V"
    and "\<And>j. flow_kind c i f fl j \<Longrightarrow> kind_offset j \<le> kind_offset k \<Longrightarrow>
      act has (fl_local fl) (kind_action (layout_of c) j) \<in> {None, Some V}"
  shows "fib_lookup has fl rs = Some V"
  using fib_kind [of c f i rs fl k has V] assms by (simp add: planned_def flow_kind_def)

lemma probe_flow:
  assumes p: "planned c i f rs" and cls: "flow_class c fl = fv_get probe_class"
  shows "fib_lookup has fl rs =
    Some (if configured c f (flow_uplink c fl) then via has (path_table (layout_of c) (flow_uplink c fl))
          else Refused)"
proof -
  let ?n = "flow_uplink c fl"
  have wf: "config_wf c" using p by (simp add: planned_def)
  show ?thesis
  proof (cases "configured c f ?n \<and> has (path_table (layout_of c) ?n)")
    case True
    then have "fib_lookup has fl rs = Some (ViaTable (path_table (layout_of c) ?n))"
    proof (intro decided [OF p, of fl "ProbeLookup ?n"])
      fix j assume "flow_kind c i f fl j" "kind_offset j \<le> kind_offset (ProbeLookup ?n)"
      then show "act has (fl_local fl) (kind_action (layout_of c) j) \<in>
          {None, Some (ViaTable (path_table (layout_of c) ?n))}"
        using True cls offset_configured [OF wf, of f ?n] by (cases j) (auto simp: sel_simps wf)
    qed (use True cls in \<open>auto simp: sel_simps wf\<close>)
    with True show ?thesis by (simp add: via_def)
  next
    case False
    then have "fib_lookup has fl rs = Some Refused"
    proof (intro decided [OF p, of fl ProbeGuard])
      fix j assume "flow_kind c i f fl j" "kind_offset j \<le> kind_offset ProbeGuard"
      then show "act has (fl_local fl) (kind_action (layout_of c) j) \<in> {None, Some Refused}"
        using False cls by (cases j) (auto simp: sel_simps wf)
    qed (use cls in \<open>auto simp: flow_kind_def\<close>)
    with False show ?thesis by (auto simp: via_def)
  qed
qed

lemma local_flow:
  assumes p: "planned c i f rs" and cls: "flow_class c fl \<noteq> fv_get probe_class" and "fl_local fl"
  shows "fib_lookup has fl rs = Some ViaMain"
proof (rule decided [OF p, of fl MainBypass])
  have wf: "config_wf c" using p by (simp add: planned_def)
  fix j assume "flow_kind c i f fl j" "kind_offset j \<le> kind_offset MainBypass"
  then show "act has (fl_local fl) (kind_action (layout_of c) j) \<in> {None, Some ViaMain}"
    using assms(2,3) by (cases j) (auto simp: sel_simps wf)
qed (use assms(3) in \<open>auto simp: flow_kind_def\<close>)

text \<open>
  A lookup rule followed by its guard: the lookup decides when its table has a route, the guard
  otherwise, provided every rule up to the guard that selects the flow is the lookup, the guard or
  the main bypass.
\<close>

lemma lookup_or_guard:
  assumes p: "planned c i f rs" and loc: "\<not> fl_local fl"
    and guard: "flow_kind c i f fl g" "kind_action (layout_of c) g = Unreachable"
    and conf: "conf \<Longrightarrow> flow_kind c i f fl k" "kind_action (layout_of c) k = Lookup t"
      "conf \<Longrightarrow> kind_offset k \<le> kind_offset g"
    and only: "\<And>j. flow_kind c i f fl j \<Longrightarrow> kind_offset j \<le> kind_offset g \<Longrightarrow>
      conf \<and> j = k \<or> kind_offset j = kind_offset g \<and> j = g \<or> j = MainBypass"
    and before: "conf \<Longrightarrow> kind_offset k < kind_offset g"
  shows "fib_lookup has fl rs = Some (if conf then via has t else Refused)"
proof (cases "conf \<and> has t")
  case True
  have "fib_lookup has fl rs = Some (ViaTable t)"
  proof (rule decided [OF p conf(1)])
    fix j assume "flow_kind c i f fl j" "kind_offset j \<le> kind_offset k"
    with only [of j] before True show "act has (fl_local fl) (kind_action (layout_of c) j) \<in> {None, Some (ViaTable t)}"
      using conf(2) loc by auto
  qed (use True conf(2) in auto)
  with True show ?thesis by (simp add: via_def)
next
  case False
  have "fib_lookup has fl rs = Some Refused"
  proof (rule decided [OF p guard(1)])
    fix j assume "flow_kind c i f fl j" "kind_offset j \<le> kind_offset g"
    with only [of j] False show "act has (fl_local fl) (kind_action (layout_of c) j) \<in> {None, Some Refused}"
      using conf(2) guard(2) loc by auto
  qed (use guard(2) in auto)
  with False show ?thesis by (auto simp: via_def)
qed

lemma path_flow:
  assumes p: "planned c i f rs" and loc: "\<not> fl_local fl"
    and cls: "flow_class c fl = 0" "field_of (layout_of c) fl \<noteq> 0"
  shows "fib_lookup has fl rs =
    Some (if configured c f (flow_uplink c fl) then via has (path_table (layout_of c) (flow_uplink c fl))
          else Refused)"
proof (rule lookup_or_guard [OF p loc, where k = "PathLookup (flow_uplink c fl)" and g = PathGuard])
  have wf: "config_wf c" using p by (simp add: planned_def)
  note off = offset_configured [OF wf, of f "flow_uplink c fl"]
  show "flow_kind c i f fl PathGuard" using cls by (simp add: flow_kind_def)
  show "configured c f (flow_uplink c fl) \<Longrightarrow> flow_kind c i f fl (PathLookup (flow_uplink c fl))"
    using cls by (simp add: sel_simps wf)
  show "configured c f (flow_uplink c fl) \<Longrightarrow> kind_offset (PathLookup (flow_uplink c fl)) < kind_offset PathGuard"
    "configured c f (flow_uplink c fl) \<Longrightarrow> kind_offset (PathLookup (flow_uplink c fl)) \<le> kind_offset PathGuard"
    using off by simp_all
  fix j assume "flow_kind c i f fl j" "kind_offset j \<le> kind_offset PathGuard"
  then show "configured c f (flow_uplink c fl) \<and> j = PathLookup (flow_uplink c fl)
      \<or> kind_offset j = kind_offset PathGuard \<and> j = PathGuard \<or> j = MainBypass"
    using cls by (cases j) (auto simp: sel_simps wf)
qed simp_all

lemma block_flow:
  assumes p: "planned c i f rs" and loc: "\<not> fl_local fl"
    and cls: "flow_class c fl = fv_get policy_block_class"
  shows "fib_lookup has fl rs =
    Some (if configured c f (flow_uplink c fl)
          then via has (policy_block_table (layout_of c) (flow_uplink c fl)) else Refused)"
proof (rule lookup_or_guard [OF p loc, where k = "PolicyBlockLookup (flow_uplink c fl)" and g = PolicyBlockGuard])
  have wf: "config_wf c" using p by (simp add: planned_def)
  note off = offset_configured [OF wf, of f "flow_uplink c fl"]
  show "flow_kind c i f fl PolicyBlockGuard" using cls by (simp add: flow_kind_def)
  show "configured c f (flow_uplink c fl) \<Longrightarrow> flow_kind c i f fl (PolicyBlockLookup (flow_uplink c fl))"
    using cls by (simp add: sel_simps wf)
  show "configured c f (flow_uplink c fl) \<Longrightarrow>
      kind_offset (PolicyBlockLookup (flow_uplink c fl)) < kind_offset PolicyBlockGuard"
    "configured c f (flow_uplink c fl) \<Longrightarrow>
      kind_offset (PolicyBlockLookup (flow_uplink c fl)) \<le> kind_offset PolicyBlockGuard"
    using off by simp_all
  fix j assume "flow_kind c i f fl j" "kind_offset j \<le> kind_offset PolicyBlockGuard"
  then show "configured c f (flow_uplink c fl) \<and> j = PolicyBlockLookup (flow_uplink c fl)
      \<or> kind_offset j = kind_offset PolicyBlockGuard \<and> j = PolicyBlockGuard \<or> j = MainBypass"
    using cls by (cases j) (auto simp: sel_simps wf)
qed simp_all

lemma sourced_flow:
  assumes p: "planned c i f rs" and loc: "\<not> fl_local fl" and zero: "field_of (layout_of c) fl = 0"
    and own: "configured c f n" "fl_source fl \<in> local_addresses i f n" and unique: "owners_unique c i f"
  shows "fib_lookup has fl rs = Some (via has (path_table (layout_of c) n))"
proof -
  have wf: "config_wf c" using p by (simp add: planned_def)
  note off = offset_configured [OF wf own(1)]
  have same: "m = n" if "configured c f m" "fl_source fl \<in> local_addresses i f m" for m
    using unique own that by (auto simp: owners_unique_def configured_def)
  have "fib_lookup has fl rs = Some (if True then via has (path_table (layout_of c) n) else Refused)"
  proof (rule lookup_or_guard [OF p loc, where k = "SourceLookup n" and g = SourceGuard])
    show "flow_kind c i f fl SourceGuard" "flow_kind c i f fl (SourceLookup n)"
      using zero own by (auto simp: flow_kind_def)
    fix j assume "flow_kind c i f fl j" "kind_offset j \<le> kind_offset SourceGuard"
    then show "True \<and> j = SourceLookup n \<or> kind_offset j = kind_offset SourceGuard \<and> j = SourceGuard
        \<or> j = MainBypass"
      using zero same by (cases j) (auto simp: sel_simps wf)
  qed (use off in simp_all)
  then show ?thesis by simp
qed

lemma balanced_flow:
  assumes p: "planned c i f rs" and loc: "\<not> fl_local fl"
    and only: "\<And>j. flow_kind c i f fl j \<Longrightarrow> kind_offset j \<le> 699 \<Longrightarrow>
      j \<in> {MainBypass, BalanceRule, FinalGuard} \<or>
      act has (fl_local fl) (kind_action (layout_of c) j) = None"
  shows "fib_lookup has fl rs = Some (via has (balancing_table (layout_of c)))"
proof -
  have "fib_lookup has fl rs =
    Some (if True then via has (balancing_table (layout_of c)) else Refused)"
  proof (cases "has (balancing_table (layout_of c))")
    case True
    have "fib_lookup has fl rs = Some (ViaTable (balancing_table (layout_of c)))"
    proof (rule decided [OF p, of fl BalanceRule])
      fix j assume "flow_kind c i f fl j" "kind_offset j \<le> kind_offset BalanceRule"
      with only [of j] True show "act has (fl_local fl) (kind_action (layout_of c) j) \<in>
          {None, Some (ViaTable (balancing_table (layout_of c)))}"
        using loc by auto
    qed (use True in \<open>auto simp: flow_kind_def\<close>)
    with True show ?thesis by (simp add: via_def)
  next
    case False
    have "fib_lookup has fl rs = Some Refused"
    proof (rule decided [OF p, of fl FinalGuard])
      fix j assume "flow_kind c i f fl j" "kind_offset j \<le> kind_offset FinalGuard"
      with only [of j] False show "act has (fl_local fl) (kind_action (layout_of c) j) \<in> {None, Some Refused}"
        using loc by auto
    qed (auto simp: flow_kind_def)
    with False show ?thesis by (simp add: via_def)
  qed
  then show ?thesis by simp
qed

lemma unowned_flow:
  assumes p: "planned c i f rs" and loc: "\<not> fl_local fl" and zero: "field_of (layout_of c) fl = 0"
    and none: "\<And>n. configured c f n \<Longrightarrow> fl_source fl \<notin> local_addresses i f n"
  shows "fib_lookup has fl rs = Some (via has (balancing_table (layout_of c)))"
proof (rule balanced_flow [OF p loc])
  have wf: "config_wf c" using p by (simp add: planned_def)
  fix j assume "flow_kind c i f fl j" "kind_offset j \<le> 699"
  then show "j \<in> {MainBypass, BalanceRule, FinalGuard} \<or>
      act has (fl_local fl) (kind_action (layout_of c) j) = None"
    using zero none by (cases j) (auto simp: sel_simps wf)
qed

lemma policy_balance_flow:
  assumes p: "planned c i f rs" and loc: "\<not> fl_local fl"
    and cls: "flow_class c fl = fv_get policy_balance_class"
  shows "fib_lookup has fl rs =
    Some (if configured c f (flow_uplink c fl) \<and> has (policy_balance_table (layout_of c) (flow_uplink c fl))
          then ViaTable (policy_balance_table (layout_of c) (flow_uplink c fl))
          else via has (balancing_table (layout_of c)))"
proof -
  let ?n = "flow_uplink c fl"
  have wf: "config_wf c" using p by (simp add: planned_def)
  have nz: "field_of (layout_of c) fl \<noteq> 0" using cls class_distinct(2) by auto
  show ?thesis
  proof (cases "configured c f ?n \<and> has (policy_balance_table (layout_of c) ?n)")
    case True
    have "fib_lookup has fl rs = Some (ViaTable (policy_balance_table (layout_of c) ?n))"
    proof (rule decided [OF p, of fl "PolicyBalanceLookup ?n"])
      fix j assume "flow_kind c i f fl j" "kind_offset j \<le> kind_offset (PolicyBalanceLookup ?n)"
      then show "act has (fl_local fl) (kind_action (layout_of c) j) \<in>
          {None, Some (ViaTable (policy_balance_table (layout_of c) ?n))}"
        using True cls nz loc offset_configured [OF wf, of f ?n] by (cases j) (auto simp: sel_simps wf)
    qed (use True cls in \<open>auto simp: sel_simps wf\<close>)
    with True show ?thesis by simp
  next
    case False
    have "fib_lookup has fl rs = Some (via has (balancing_table (layout_of c)))"
    proof (rule balanced_flow [OF p loc])
      fix j assume "flow_kind c i f fl j" "kind_offset j \<le> 699"
      then show "j \<in> {MainBypass, BalanceRule, FinalGuard} \<or>
          act has (fl_local fl) (kind_action (layout_of c) j) = None"
        using False cls nz by (cases j) (auto simp: sel_simps wf)
    qed
    with False show ?thesis by auto
  qed
qed

lemma owner_Some:
  assumes "owner c i f a = Some n"
  shows "configured c f n \<and> a \<in> local_addresses i f n"
  using assms by (auto simp: owner_def configured_def dest: find_Some_iff_mem)

lemma owner_None:
  assumes "owner c i f a = None" and "configured c f n"
  shows "a \<notin> local_addresses i f n"
  using assms by (auto simp: owner_def configured_def find_None_iff_mem)

lemma intended_cases:
  "intended c i f has fl =
     (if flow_class c fl = fv_get probe_class then
        (if configured c f (flow_uplink c fl) then via has (path_table (layout_of c) (flow_uplink c fl)) else Refused)
      else if fl_local fl then ViaMain
      else if field_of (layout_of c) fl = 0 then
        (case owner c i f (fl_source fl) of
           Some m \<Rightarrow> via has (path_table (layout_of c) m)
         | None \<Rightarrow> via has (balancing_table (layout_of c)))
      else if flow_class c fl = 0 then
        (if configured c f (flow_uplink c fl) then via has (path_table (layout_of c) (flow_uplink c fl)) else Refused)
      else if flow_class c fl = fv_get policy_block_class then
        (if configured c f (flow_uplink c fl) then via has (policy_block_table (layout_of c) (flow_uplink c fl)) else Refused)
      else if configured c f (flow_uplink c fl) \<and> has (policy_balance_table (layout_of c) (flow_uplink c fl))
        then ViaTable (policy_balance_table (layout_of c) (flow_uplink c fl))
        else via has (balancing_table (layout_of c)))"
  by (simp add: intended_def field_of_def configured_def Let_def)

lemma fib_intended:
  assumes p: "planned c i f rs" and unique: "owners_unique c i f"
  shows "fib_lookup has fl rs = Some (intended c i f has fl)"
proof -
  consider (probe) "flow_class c fl = fv_get probe_class"
    | (main) "flow_class c fl \<noteq> fv_get probe_class" "fl_local fl"
    | (zero) "\<not> fl_local fl" "field_of (layout_of c) fl = 0" "flow_class c fl \<noteq> fv_get probe_class"
    | (path) "\<not> fl_local fl" "flow_class c fl = 0" "field_of (layout_of c) fl \<noteq> 0"
    | (block) "\<not> fl_local fl" "flow_class c fl = fv_get policy_block_class"
    | (balance) "\<not> fl_local fl" "flow_class c fl = fv_get policy_balance_class"
    using class_exhaust [of "field_of (layout_of c) fl"] by blast
  then show ?thesis
  proof cases
    case probe
    with probe_flow [OF p probe] show ?thesis by (simp add: intended_cases)
  next
    case main
    with local_flow [OF p main] show ?thesis by (simp add: intended_cases)
  next
    case zero
    then show ?thesis
      using sourced_flow [OF p zero(1,2) _ _ unique] unowned_flow [OF p zero(1,2)]
        owner_Some [of c i f "fl_source fl"] owner_None [of c i f "fl_source fl"]
      by (cases "owner c i f (fl_source fl)") (auto simp: intended_cases)
  next
    case path
    with path_flow [OF p path] show ?thesis by (simp add: intended_cases class_distinct [symmetric])
  next
    case block
    have "field_of (layout_of c) fl \<noteq> 0" using block(2) class_distinct(3) by auto
    with block block_flow [OF p block] show ?thesis
      by (simp add: intended_cases class_distinct class_distinct [symmetric])
  next
    case balance
    have "field_of (layout_of c) fl \<noteq> 0" using balance(2) class_distinct(2) by auto
    with balance policy_balance_flow [OF p balance] show ?thesis
      by (simp add: intended_cases class_distinct class_distinct [symmetric])
  qed
qed

section \<open>Properties\<close>

text \<open>
  C2. For every flow and whatever routes the tables hold, the kernel's decision over the planned rules,
  in any order compatible with their priorities, is the intended one: probe marks use the path table
  of their uplink and nothing else; more specific routes of the main table come before everything but
  probes; a path mark sticks to its uplink's table; a policy mark uses its policy table and then
  blocks or falls back to balancing; an unmarked flow from a local address of an uplink uses that
  uplink's table; every other flow is balanced; and a flow whose table has no route is refused, never
  passed on to rules outside the daemon's range.
\<close>

theorem planned_rules_decide:
  assumes "config_wf c" and "config_manages c f" and "installed_order (d_rules (plan c i)) f rs"
    and "owners_unique c i f"
  shows "fib_lookup has fl rs = Some (intended c i f has fl)"
  using assms by (intro fib_intended) (simp_all add: planned_def)

lemma example_manages: "config_manages example_config V4"
  by (simp add: config_manages_def example_config_uplinks)

lemma example_family: "family_uplinks example_config V4 = c_uplinks example_config"
  by (simp add: family_uplinks_def example_config_uplinks)

lemma example_addresses:
  "local_addresses example_input V4 (UplinkId 1) = {IpV4 0xc0000265}"
  "local_addresses example_input V4 (UplinkId 2) = {IpV4 0xc0000266}"
  by (simp_all add: local_addresses_def input_path_def example_input_def btm_get_def)

lemma example_owners: "owners_unique example_config example_input V4"
  by (auto simp: owners_unique_def example_family example_config_uplinks example_addresses)

lemma installed_order_exists:
  assumes "finite rules"
  shows "\<exists>rs. installed_order rules f rs"
proof
  show "installed_order rules f (sort_key r_priority (sorted_list_of_set {r \<in> rules. r_family r = f}))"
    using assms by (simp add: installed_order_def)
qed

lemma example_installed: "\<exists>rs. installed_order (d_rules (plan example_config example_input)) V4 rs"
proof (rule installed_order_exists)
  have "family_uplinks example_config V6 = []" by (simp add: family_uplinks_def example_config_uplinks)
  then have "config_manages example_config f \<longleftrightarrow> f = V4" for f
    using example_manages by (cases f) (simp_all add: manages_family_uplinks)
  then have "{f. config_manages example_config f} = {V4}" by simp
  then show "finite (d_rules (plan example_config example_input))"
    by (simp add: plan_rules family_rules_def example_family example_config_uplinks example_addresses)
qed

theorem planned_rules_decide_witness:
  "\<exists>rs. installed_order (d_rules (plan example_config example_input)) V4 rs \<and>
     (\<forall>has fl. fib_lookup has fl rs = Some (intended example_config example_input V4 has fl))"
proof -
  obtain rs where rs: "installed_order (d_rules (plan example_config example_input)) V4 rs"
    using example_installed by blast
  with planned_rules_decide [OF example_config_wf example_manages rs example_owners] show ?thesis by blast
qed

definition planned_table :: "config \<Rightarrow> input \<Rightarrow> family \<Rightarrow> u32 \<Rightarrow> bool" where
  "planned_table c i f t \<longleftrightarrow> btm_get (d_routes (plan c i)) (f, t) \<noteq> None"

lemma planned_path_table:
  assumes "config_wf c" and "u \<in> set (family_uplinks c f)"
  shows "planned_table c i f (path_table (layout_of c) (u_id u)) \<longleftrightarrow> input_ready i f (u_id u) \<noteq> None"
  using path_table_route [OF assms(1), of u f i] assms(2) by (simp add: planned_table_def in_family_uplinks)

lemma planned_policy_table:
  assumes "config_wf c" and "u \<in> set (family_uplinks c f)"
    and "t = policy_balance_table (layout_of c) (u_id u) \<or> t = policy_block_table (layout_of c) (u_id u)"
  shows "planned_table c i f t \<longleftrightarrow> input_usable i f (u_id u) \<and> input_ready i f (u_id u) \<noteq> None"
  using policy_table_route [OF assms(1) _ _ assms(3), of f i] planned_path_table [OF assms(1,2), of i] assms(2)
  by (simp add: planned_table_def in_family_uplinks)

lemma field_uplink:
  assumes "config_wf c" and "u \<in> set (family_uplinks c f)"
  shows "configured c f (u_id u)" and "valid_id (u_id u)"
  using assms family_uplinks_wf(1) by (auto simp: configured_def)

lemma path_mark_lookup:
  assumes "config_wf c" and "u \<in> set (c_uplinks c)" and "uplink_path u f \<noteq> None"
    and "installed_order (d_rules (plan c i)) f rs"
    and "fwm_field (l_mask (layout_of c)) (fl_mark fl) = fv_path (u_id u)" and "\<not> fl_local fl"
  shows "fib_lookup (planned_table c i f) fl rs =
    Some (if input_ready i f (u_id u) \<noteq> None then ViaTable (path_table (layout_of c) (u_id u)) else Refused)"
proof -
  have u: "u \<in> set (family_uplinks c f)" using assms(2,3) by (simp add: in_family_uplinks)
  note fu = field_uplink [OF assms(1) u]
  have p: "planned c i f rs"
    using assms(1,4) u by (auto simp: planned_def manages_family_uplinks)
  have v: "field_of (layout_of c) fl = fv_get (fv_path (u_id u))" using assms(5) by (simp add: field_of_def)
  then have n: "flow_uplink c fl = u_id u" and cls: "flow_class c fl = 0"
    using value_iff(2) [OF fu(2), of "field_of (layout_of c) fl"] by simp_all
  have nz: "field_of (layout_of c) fl \<noteq> 0" using v id_bits(3) [OF fu(2)] by (simp add: fv_path_def)
  show ?thesis
    unfolding path_flow [OF p assms(6) cls nz] n
    using fu planned_path_table [OF assms(1) u, of i] by (simp add: via_def)
qed

text \<open>
  Established connections do not move: with the planned routes installed, a flow that carries the
  path mark of a configured uplink, and that no specific route of the main table takes, leaves through
  the table of that uplink while its path is ready and is refused while it is not, whatever the health
  and the active set.
\<close>

theorem path_mark_sticks:
  assumes "config_wf c" and "u \<in> set (c_uplinks c)" and "uplink_path u f \<noteq> None"
    and "installed_order (d_rules (plan c i)) f rs"
    and "fwm_field (l_mask (layout_of c)) (fl_mark fl) = fv_path (u_id u)" and "\<not> fl_local fl"
  shows "fib_lookup (planned_table c i f) fl rs =
    Some (if input_ready i f (u_id u) \<noteq> None then ViaTable (path_table (layout_of c) (u_id u)) else Refused)"
  by (rule path_mark_lookup [OF assms])


definition example_flow :: "field_value \<Rightarrow> flow" where
  "example_flow v =
     \<lparr>fl_mark = fwm_encode (l_mask (layout_of example_config)) v, fl_source = IpV4 0x0a000001,
      fl_local = False\<rparr>"

lemma example_flow_local [simp]: "\<not> fl_local (example_flow v)"
  by (simp add: example_flow_def)

lemma example_flow_field:
  "fwm_field (l_mask (layout_of example_config)) (fl_mark (example_flow v)) = v"
proof -
  have "fwm_ok (l_mask (layout_of example_config))" by (rule layout_mask_ok [OF example_config_wf])
  then have "bit (fv_get (fwm_field (l_mask (layout_of example_config)) (fl_mark (example_flow v)))) n
      = bit (fv_get v) n" if "n < 8" for n
    using that by (simp add: bit_fwm_field example_flow_def bit_fwm_encode)
  then show ?thesis by (auto simp: fv_eq_iff word_bits_eq)
qed

theorem path_mark_sticks_witness:
  "\<exists>rs. fib_lookup (planned_table example_config example_input V4) (example_flow (fv_path (UplinkId 1))) rs
     = Some (ViaTable (path_table (layout_of example_config) (UplinkId 1)))"
proof -
  obtain rs where rs: "installed_order (d_rules (plan example_config example_input)) V4 rs"
    using example_installed by blast
  from path_mark_sticks [OF example_config_wf _ _ rs, of "example_uplink 1 ''a'' 1"
      "example_flow (fv_path (UplinkId 1))"]
  show ?thesis
    by (intro exI [of _ rs]) (simp add: example_config_uplinks example_flow_field)
qed


end
