(* ===== verification/Netlink_Msg.thy ===== *)
theory Netlink_Msg
  imports Plan
begin

text \<open>
  Construction and parsing of rule, route, link and address messages (\<open>netlink/msg.rs\<close>). The
  message types belong to the packet library: a message here has the header fields and the attribute
  constructors the code names, with one constructor for every other attribute. A protocol and a scope
  are their numbers and a flag field is the set of its flags, except where the code only asks whether
  it is empty. The default messages of the packet library, which the constructors start from, are a
  parameter (\<open>netlink_defaults\<close>); \<open>netlink_defaults_ok\<close> states what is relied upon: they
  carry no attribute, flag or prefix length. An \<open>Instant\<close> is an integer number of nanoseconds;
  additions that overflow it are not modelled.
\<close>

section \<open>Messages of the packet library\<close>

type_synonym instant = int

datatype address_family = AfInet | AfInet6 | AfOther u8

datatype route_address = RouteInet u32 | RouteInet6 u128 | RouteAddressOther

datatype rule_action = ToTable | RuleUnreachable | RuleActionOther

datatype rule_attribute =
    FraPriority u32
  | FraProtocol u8
  | FraTable u32
  | FraFwMark u32
  | FraFwMask u32
  | FraSource ip_addr
  | FraSuppressPrefixLen u32
  | FraL3MDev bool
  | FraSuppressIfGroup u32
  | FraOther

record rule_message =
  rm_family :: address_family
  rm_table :: u8
  rm_action :: rule_action
  rm_src_len :: u8
  rm_dst_len :: u8
  rm_tos :: u8
  rm_flags :: u32
  rm_attributes :: "rule_attribute list"

datatype route_type = Unicast | UnspecType | OtherType u8

datatype route_flag = RouteOnlink | RouteDead | RouteLinkdown

datatype route_preference = PrefHigh | PrefLow | PrefOther

datatype route_attribute =
    RtaTable u32
  | RtaPriority u32
  | RtaDestination route_address
  | RtaPrefSource route_address
  | RtaGateway route_address
  | RtaOif u32
  | RtaNhId u32
  | RtaMultiPath "route_next_hop list"
  | RtaPreference route_preference
  | RtaCacheInfo u32
  | RtaOther
and route_next_hop =
    RouteNextHop (rnh_index: u32) (rnh_hops: u8) (rnh_flags: "route_flag set")
      (rnh_attributes: "route_attribute list")

record route_message =
  rtm_family :: address_family
  rtm_table :: u8
  rtm_protocol :: u8
  rtm_scope :: u8
  rtm_kind :: route_type
  rtm_flags :: "route_flag set"
  rtm_dst_len :: u8
  rtm_attributes :: "route_attribute list"

datatype link_attribute = IfName string | LinkAttributeOther

datatype link_flag = LinkUp | LinkLowerUp | LinkPointopoint

record link_message =
  lm_index :: u32
  lm_flags :: "link_flag set"
  lm_attributes :: "link_attribute list"

datatype address_flag = AfSecondary | AfDadfailed | AfDeprecated | AfTentative | AfPermanent

datatype address_attribute =
    IfaLocal ip_addr
  | IfaAddress ip_addr
  | IfaFlags "address_flag set"
  | IfaOther

record address_message =
  am_family :: address_family
  am_prefix_len :: u8
  am_scope :: u8
  am_index :: u32
  am_flags :: u8
  am_attributes :: "address_attribute list"

datatype route_netlink_message =
    GetRule rule_message
  | GetRoute route_message
  | GetLink link_message
  | GetAddress address_message
  | NewRule rule_message
  | DelRule rule_message
  | NewRoute route_message
  | DelRoute route_message
  | NewLink link_message
  | DelLink link_message
  | NewAddress address_message
  | DelAddress address_message
  | OtherMessage

record netlink_defaults =
  default_rule :: rule_message
  default_route :: route_message
  default_next_hop :: route_next_hop
  default_link :: link_message
  default_address :: address_message

definition netlink_defaults_ok :: "netlink_defaults \<Rightarrow> bool" where
  "netlink_defaults_ok nd \<longleftrightarrow>
     rm_attributes (default_rule nd) = [] \<and> rm_dst_len (default_rule nd) = 0 \<and>
     rm_tos (default_rule nd) = 0 \<and> rm_flags (default_rule nd) = 0 \<and>
     rtm_attributes (default_route nd) = [] \<and> rtm_flags (default_route nd) = {} \<and>
     rtm_dst_len (default_route nd) = 0 \<and>
     rnh_attributes (default_next_hop nd) = [] \<and> rnh_flags (default_next_hop nd) = {}"

section \<open>Families and addresses\<close>

definition TABLE_MAIN :: u32 where
  "TABLE_MAIN = 254"

fun address_family_of :: "family \<Rightarrow> address_family" where
  "address_family_of V4 = AfInet"
| "address_family_of V6 = AfInet6"

fun family_of_af :: "address_family \<Rightarrow> family option" where
  "family_of_af AfInet = Some V4"
| "family_of_af AfInet6 = Some V6"
| "family_of_af (AfOther _) = None"

fun host_len :: "ip_addr \<Rightarrow> u8" where
  "host_len (IpV4 _) = 32"
| "host_len (IpV6 _) = 128"

text \<open>\<open>Instant::checked_sub\<close> fails below the least instant, \<open>-2^63\<close> seconds.\<close>

definition instant_checked_sub :: "instant \<Rightarrow> duration \<Rightarrow> instant option" where
  "instant_checked_sub t d =
     (if t - int d < - (2 ^ 63) * 10 ^ 9 then None else Some (t - int d))"

definition expiry :: "instant \<Rightarrow> u32 \<Rightarrow> instant option" where
  "expiry now ticks =
     (let t = sint ticks; left = from_millis (nat \<bar>t\<bar> * 10)
      in if t = 0 then None
         else if t > 0 then Some (now + int left)
         else Some (case instant_checked_sub now left of Some x \<Rightarrow> x | None \<Rightarrow> now))"

fun ip :: "route_address \<Rightarrow> ip_addr option" where
  "ip (RouteInet v) = Some (IpV4 v)"
| "ip (RouteInet6 v) = Some (IpV6 v)"
| "ip RouteAddressOther = None"

fun route_address_of :: "ip_addr \<Rightarrow> route_address" where
  "route_address_of (IpV4 v) = RouteInet v"
| "route_address_of (IpV6 v) = RouteInet6 v"

section \<open>Rules\<close>

definition rule_message :: "netlink_defaults \<Rightarrow> rule \<Rightarrow> u8 \<Rightarrow> rule_message" where
  "rule_message nd r protocol =
     (let m = (default_rule nd)\<lparr>rm_family := address_family_of (r_family r), rm_table := 0\<rparr>;
          push = (\<lambda>as m. m\<lparr>rm_attributes := rm_attributes m @ as\<rparr>);
          m = push [FraPriority (r_priority r), FraProtocol protocol] m;
          m = (case r_action r of
                 Lookup t \<Rightarrow> push [FraTable t] (m\<lparr>rm_action := ToTable\<rparr>)
               | LookupMainSuppressDefault \<Rightarrow>
                   push [FraTable TABLE_MAIN, FraSuppressPrefixLen 0] (m\<lparr>rm_action := ToTable\<rparr>)
               | Unreachable \<Rightarrow> m\<lparr>rm_action := RuleUnreachable\<rparr>);
          m = (case r_fwmark r of
                 Some (mark, msk) \<Rightarrow> push [FraFwMark mark, FraFwMask msk] m
               | None \<Rightarrow> m)
      in case r_source r of
           Some a \<Rightarrow> push [FraSource a] (m\<lparr>rm_src_len := host_len a\<rparr>)
         | None \<Rightarrow> m)"

datatype observed_action =
    ObservedLookup u32 "u32 option"
  | ObservedUnreachable
  | ObservedOther

record observed_rule =
  or_family :: family
  or_priority :: u32
  or_protocol :: u8
  or_fwmark :: "(u32 \<times> u32) option"
  or_source :: "(ip_addr \<times> u8) option"
  or_action :: observed_action
  or_foreign_selectors :: bool
  or_l3mdev :: bool
  or_message :: rule_message

text \<open>The local variables of \<open>ObservedRule::parse\<close>.\<close>

record rule_scan =
  rs_priority :: u32
  rs_protocol :: u8
  rs_table :: u32
  rs_mark :: "u32 option"
  rs_mask :: "u32 option"
  rs_source :: "(ip_addr \<times> u8) option"
  rs_spl :: "u32 option"
  rs_foreign :: bool
  rs_l3mdev :: bool

fun rule_scan_step :: "u8 \<Rightarrow> rule_attribute \<Rightarrow> rule_scan \<Rightarrow> rule_scan" where
  "rule_scan_step len (FraPriority p) s = s\<lparr>rs_priority := p\<rparr>"
| "rule_scan_step len (FraProtocol p) s = s\<lparr>rs_protocol := p\<rparr>"
| "rule_scan_step len (FraTable t) s = s\<lparr>rs_table := t\<rparr>"
| "rule_scan_step len (FraFwMark v) s = s\<lparr>rs_mark := Some v\<rparr>"
| "rule_scan_step len (FraFwMask v) s = s\<lparr>rs_mask := Some v\<rparr>"
| "rule_scan_step len (FraSource a) s = s\<lparr>rs_source := Some (a, len)\<rparr>"
| "rule_scan_step len (FraSuppressPrefixLen v) s =
     s\<lparr>rs_spl := (if v \<noteq> - 1 then Some v else None)\<rparr>"
| "rule_scan_step len (FraL3MDev b) s = (if b then s\<lparr>rs_l3mdev := True\<rparr> else s)"
| "rule_scan_step len (FraSuppressIfGroup _) s = s"
| "rule_scan_step len FraOther s = s\<lparr>rs_foreign := True\<rparr>"

definition observed_rule_parse :: "rule_message \<Rightarrow> observed_rule option" where
  "observed_rule_parse m =
     (case family_of_af (rm_family m) of
        None \<Rightarrow> None
      | Some f \<Rightarrow>
          let s = fold (rule_scan_step (rm_src_len m)) (rm_attributes m)
                    \<lparr>rs_priority = 0, rs_protocol = 0, rs_table = ucast (rm_table m), rs_mark = None,
                     rs_mask = None, rs_source = None, rs_spl = None,
                     rs_foreign = (rm_dst_len m \<noteq> 0 \<or> rm_tos m \<noteq> 0 \<or> rm_flags m \<noteq> 0),
                     rs_l3mdev = False\<rparr>;
              fwmark = (case (rs_mark s, rs_mask s) of
                          (None, None) \<Rightarrow> None
                        | (v, k) \<Rightarrow> Some (case v of Some x \<Rightarrow> x | None \<Rightarrow> 0,
                                           case k of Some x \<Rightarrow> x | None \<Rightarrow> - 1));
              act = (if rs_l3mdev s then ObservedOther
                     else case rm_action m of
                            ToTable \<Rightarrow> ObservedLookup (rs_table s) (rs_spl s)
                          | RuleUnreachable \<Rightarrow> ObservedUnreachable
                          | RuleActionOther \<Rightarrow> ObservedOther)
          in Some \<lparr>or_family = f, or_priority = rs_priority s, or_protocol = rs_protocol s,
                   or_fwmark = fwmark, or_source = rs_source s, or_action = act,
                   or_foreign_selectors = (rs_foreign s \<or> rs_l3mdev s), or_l3mdev = rs_l3mdev s,
                   or_message = m\<rparr>)"

fun planned_action :: "action \<Rightarrow> observed_action" where
  "planned_action (Lookup t) = ObservedLookup t None"
| "planned_action LookupMainSuppressDefault = ObservedLookup TABLE_MAIN (Some 0)"
| "planned_action Unreachable = ObservedUnreachable"

definition observed_rule_is :: "observed_rule \<Rightarrow> rule \<Rightarrow> u8 \<Rightarrow> bool" where
  "observed_rule_is ob r protocol \<longleftrightarrow>
     or_family ob = r_family r \<and> or_priority ob = r_priority r \<and> or_protocol ob = protocol \<and>
     \<not> or_foreign_selectors ob \<and> or_fwmark ob = r_fwmark r \<and>
     or_source ob = map_option (\<lambda>a. (a, host_len a)) (r_source r) \<and>
     or_action ob = planned_action (r_action r)"

definition rule_dump :: "netlink_defaults \<Rightarrow> family \<Rightarrow> route_netlink_message" where
  "rule_dump nd f = GetRule ((default_rule nd)\<lparr>rm_family := address_family_of f\<rparr>)"

section \<open>Routes\<close>

definition RT_TABLE_UNSPEC :: u8 where
  "RT_TABLE_UNSPEC = 0"

definition route_header :: "route_message \<Rightarrow> family \<Rightarrow> u32 \<Rightarrow> u8 \<Rightarrow> route_message" where
  "route_header m f t protocol =
     m\<lparr>rtm_family := address_family_of f, rtm_table := RT_TABLE_UNSPEC, rtm_protocol := protocol,
       rtm_scope := 0, rtm_kind := Unicast,
       rtm_attributes := rtm_attributes m @ [RtaTable t, RtaPriority ROUTE_METRIC]\<rparr>"

text \<open>The kernel's form of a weight: \<open>weight - 1\<close> in eight bits.\<close>

definition hop_weight :: "u16 \<Rightarrow> u8" where
  "hop_weight w =
     (let n = min (max (unat w) 1) 256 - 1 in if n < 256 then of_nat n else - 1)"

definition multipath_hop :: "netlink_defaults \<Rightarrow> next_hop \<Rightarrow> route_next_hop" where
  "multipath_hop nd h =
     RouteNextHop (nh_ifindex h) (hop_weight (nh_weight h))
       (rnh_flags (default_next_hop nd) \<union> (if nh_onlink h then {RouteOnlink} else {}))
       (rnh_attributes (default_next_hop nd)
        @ (case nh_gateway h of Some g \<Rightarrow> [RtaGateway (route_address_of g)] | None \<Rightarrow> []))"

definition route_message :: "netlink_defaults \<Rightarrow> route \<Rightarrow> u8 \<Rightarrow> route_message" where
  "route_message nd r protocol =
     (let m = route_header (default_route nd) (rt_family r) (rt_table r) protocol;
          push = (\<lambda>as m. m\<lparr>rtm_attributes := rtm_attributes m @ as\<rparr>);
          m = (case rt_source r of Some s \<Rightarrow> push [RtaPrefSource (route_address_of s)] m | None \<Rightarrow> m)
      in case rt_nexthops r of
           [h] \<Rightarrow>
             let m = (case nh_gateway h of
                        Some g \<Rightarrow> push [RtaGateway (route_address_of g)] m | None \<Rightarrow> m);
                 m = push [RtaOif (nh_ifindex h)] m
             in if nh_onlink h then m\<lparr>rtm_flags := insert RouteOnlink (rtm_flags m)\<rparr> else m
         | hops \<Rightarrow> push [RtaMultiPath (map (multipath_hop nd) hops)] m)"

definition route_delete_key :: "netlink_defaults \<Rightarrow> family \<Rightarrow> u32 \<Rightarrow> u8 \<Rightarrow> route_message" where
  "route_delete_key nd f t protocol = route_header (default_route nd) f t protocol"

definition route_dump ::
  "netlink_defaults \<Rightarrow> family \<Rightarrow> u32 option \<Rightarrow> route_netlink_message" where
  "route_dump nd f t =
     (let m = (default_route nd)\<lparr>rtm_family := address_family_of f, rtm_kind := UnspecType,
                                  rtm_scope := 0, rtm_protocol := 0\<rparr>
      in GetRoute (case t of
                     Some n \<Rightarrow> m\<lparr>rtm_attributes := rtm_attributes m @ [RtaTable n]\<rparr>
                   | None \<Rightarrow> m))"

record observed_hop =
  oh_ifindex :: u32
  oh_gateway :: "ip_addr option"
  oh_weight :: u16
  oh_onlink :: bool
  oh_dead :: bool
  oh_linkdown :: bool

record observed_route =
  ort_family :: family
  ort_table :: u32
  ort_protocol :: u8
  ort_metric :: u32
  ort_destination :: "(ip_addr \<times> u8) option"
  ort_kind :: route_type
  ort_source :: "ip_addr option"
  ort_nexthops :: "observed_hop list"
  ort_nexthop_id :: "u32 option"
  ort_preference :: int
  ort_expires_at :: "instant option"
  ort_message :: route_message

text \<open>The local variables of \<open>ObservedRoute::parse\<close>.\<close>

record route_scan =
  sc_table :: u32
  sc_metric :: u32
  sc_dst :: "ip_addr option"
  sc_source :: "ip_addr option"
  sc_gateway :: "ip_addr option"
  sc_oif :: "u32 option"
  sc_nh_id :: "u32 option"
  sc_multipath :: "route_next_hop list option"
  sc_preference :: int
  sc_expires_at :: "instant option"

fun route_scan_step :: "instant \<Rightarrow> route_attribute \<Rightarrow> route_scan \<Rightarrow> route_scan" where
  "route_scan_step now (RtaCacheInfo e) s = s\<lparr>sc_expires_at := expiry now e\<rparr>"
| "route_scan_step now (RtaTable t) s = s\<lparr>sc_table := t\<rparr>"
| "route_scan_step now (RtaPriority p) s = s\<lparr>sc_metric := p\<rparr>"
| "route_scan_step now (RtaDestination d) s = s\<lparr>sc_dst := ip d\<rparr>"
| "route_scan_step now (RtaPrefSource a) s = s\<lparr>sc_source := ip a\<rparr>"
| "route_scan_step now (RtaGateway g) s = s\<lparr>sc_gateway := ip g\<rparr>"
| "route_scan_step now (RtaOif i) s = s\<lparr>sc_oif := Some i\<rparr>"
| "route_scan_step now (RtaNhId i) s = s\<lparr>sc_nh_id := Some i\<rparr>"
| "route_scan_step now (RtaMultiPath h) s = s\<lparr>sc_multipath := Some h\<rparr>"
| "route_scan_step now (RtaPreference p) s =
     s\<lparr>sc_preference := (case p of PrefHigh \<Rightarrow> 1 | PrefLow \<Rightarrow> - 1 | PrefOther \<Rightarrow> 0)\<rparr>"
| "route_scan_step now RtaOther s = s"

fun first_gateway :: "route_attribute list \<Rightarrow> ip_addr option" where
  "first_gateway [] = None"
| "first_gateway (RtaGateway g # as) = (case ip g of Some a \<Rightarrow> Some a | None \<Rightarrow> first_gateway as)"
| "first_gateway (_ # as) = first_gateway as"

definition observed_hop_of :: "route_next_hop \<Rightarrow> observed_hop" where
  "observed_hop_of h =
     \<lparr>oh_ifindex = rnh_index h, oh_gateway = first_gateway (rnh_attributes h),
      oh_weight = ucast (rnh_hops h) + 1, oh_onlink = (RouteOnlink \<in> rnh_flags h),
      oh_dead = (RouteDead \<in> rnh_flags h), oh_linkdown = (RouteLinkdown \<in> rnh_flags h)\<rparr>"

definition observed_route_parse :: "instant \<Rightarrow> route_message \<Rightarrow> observed_route option" where
  "observed_route_parse now m =
     (case family_of_af (rtm_family m) of
        None \<Rightarrow> None
      | Some f \<Rightarrow>
          let s = fold (route_scan_step now) (rtm_attributes m)
                    \<lparr>sc_table = ucast (rtm_table m), sc_metric = 0, sc_dst = None, sc_source = None,
                     sc_gateway = None, sc_oif = None, sc_nh_id = None, sc_multipath = None,
                     sc_preference = 0, sc_expires_at = None\<rparr>;
              flags = rtm_flags m;
              nexthops =
                (case sc_multipath s of
                   Some hops \<Rightarrow> map observed_hop_of hops
                 | None \<Rightarrow>
                     (case sc_oif s of
                        Some i \<Rightarrow>
                          [\<lparr>oh_ifindex = i, oh_gateway = sc_gateway s, oh_weight = 1,
                            oh_onlink = (RouteOnlink \<in> flags), oh_dead = (RouteDead \<in> flags),
                            oh_linkdown = (RouteLinkdown \<in> flags)\<rparr>]
                      | None \<Rightarrow> []));
              len = rtm_dst_len m;
              destination =
                (if len = 0 then None
                 else case sc_dst s of
                        Some d \<Rightarrow> Some (d, len)
                      | None \<Rightarrow> Some (if f = V4 then IpV4 0 else IpV6 0, len))
          in Some \<lparr>ort_family = f, ort_table = sc_table s, ort_protocol = rtm_protocol m,
                   ort_metric = sc_metric s, ort_destination = destination, ort_kind = rtm_kind m,
                   ort_source = sc_source s, ort_nexthops = nexthops, ort_nexthop_id = sc_nh_id s,
                   ort_preference = sc_preference s, ort_expires_at = sc_expires_at s,
                   ort_message = m\<rparr>)"

definition route_expired :: "observed_route \<Rightarrow> instant \<Rightarrow> bool" where
  "route_expired r now \<longleftrightarrow> (case ort_expires_at r of None \<Rightarrow> False | Some t \<Rightarrow> t \<le> now)"

definition is_default :: "observed_route \<Rightarrow> bool" where
  "is_default r \<longleftrightarrow> ort_destination r = None"

definition as_planned :: "observed_route \<Rightarrow> route option" where
  "as_planned r =
     (if \<not> is_default r \<or> ort_kind r \<noteq> Unicast \<or> ort_metric r \<noteq> ROUTE_METRIC \<or> ort_nexthops r = []
      then None
      else
        let single = (length (ort_nexthops r) = 1);
            nexthops = map (\<lambda>h. \<lparr>nh_ifindex = oh_ifindex h, nh_gateway = oh_gateway h,
                                 nh_onlink = oh_onlink h,
                                 nh_weight = (if single then 1 else oh_weight h)\<rparr>) (ort_nexthops r)
        in Some \<lparr>rt_family = ort_family r, rt_table = ort_table r, rt_source = ort_source r,
                 rt_nexthops = sort nexthops\<rparr>)"

section \<open>Links and addresses\<close>

record observed_link =
  ol_index :: u32
  ol_name :: string
  ol_up :: bool
  ol_lower_up :: bool
  ol_point_to_point :: bool

fun first_name :: "link_attribute list \<Rightarrow> string option" where
  "first_name [] = None"
| "first_name (IfName n # as) = Some n"
| "first_name (LinkAttributeOther # as) = first_name as"

definition observed_link_parse :: "link_message \<Rightarrow> observed_link option" where
  "observed_link_parse m =
     (case first_name (lm_attributes m) of
        None \<Rightarrow> None
      | Some name \<Rightarrow>
          Some \<lparr>ol_index = lm_index m, ol_name = name, ol_up = (LinkUp \<in> lm_flags m),
                ol_lower_up = (LinkLowerUp \<in> lm_flags m),
                ol_point_to_point = (LinkPointopoint \<in> lm_flags m)\<rparr>)"

definition link_usable :: "observed_link \<Rightarrow> bool" where
  "link_usable l \<longleftrightarrow> ol_up l \<and> ol_lower_up l"

record observed_address =
  oa_index :: u32
  oa_family :: family
  oa_address :: ip_addr
  oa_prefix_len :: u8
  oa_scope :: u8
  oa_flags :: "address_flag set"

definition link_dump :: "netlink_defaults \<Rightarrow> route_netlink_message" where
  "link_dump nd = GetLink (default_link nd)"

definition address_dump :: "netlink_defaults \<Rightarrow> family \<Rightarrow> route_netlink_message" where
  "address_dump nd f = GetAddress ((default_address nd)\<lparr>am_family := address_family_of f\<rparr>)"

text \<open>\<open>flags_of\<close> reads the eight flag bits of the header (\<open>AddressFlags::from_bits_retain\<close>).\<close>

fun address_scan_step ::
  "address_attribute \<Rightarrow> ip_addr option \<times> ip_addr option \<times> address_flag set option
     \<Rightarrow> ip_addr option \<times> ip_addr option \<times> address_flag set option" where
  "address_scan_step (IfaLocal l) (local, address, flags) = (Some l, address, flags)"
| "address_scan_step (IfaAddress a) (local, address, flags) = (local, Some a, flags)"
| "address_scan_step (IfaFlags f) (local, address, flags) = (local, address, Some f)"
| "address_scan_step IfaOther st = st"

definition observed_address_parse ::
  "(u8 \<Rightarrow> address_flag set) \<Rightarrow> address_message \<Rightarrow> observed_address option" where
  "observed_address_parse flags_of m =
     (case family_of_af (am_family m) of
        None \<Rightarrow> None
      | Some f \<Rightarrow>
          (case fold address_scan_step (am_attributes m) (None, None, None) of
             (local, address, flags) \<Rightarrow>
               (case (case local of Some l \<Rightarrow> Some l | None \<Rightarrow> address) of
                  None \<Rightarrow> None
                | Some a \<Rightarrow>
                    Some \<lparr>oa_index = am_index m, oa_family = f, oa_address = a,
                          oa_prefix_len = am_prefix_len m, oa_scope = am_scope m,
                          oa_flags = (case flags of Some x \<Rightarrow> x | None \<Rightarrow> flags_of (am_flags m))\<rparr>)))"

definition address_global :: "observed_address \<Rightarrow> bool" where
  "address_global a \<longleftrightarrow> oa_scope a = 0"

definition address_tentative :: "observed_address \<Rightarrow> bool" where
  "address_tentative a \<longleftrightarrow> AfTentative \<in> oa_flags a"

definition address_dad_failed :: "observed_address \<Rightarrow> bool" where
  "address_dad_failed a \<longleftrightarrow> AfDadfailed \<in> oa_flags a"

definition address_deprecated :: "observed_address \<Rightarrow> bool" where
  "address_deprecated a \<longleftrightarrow> AfDeprecated \<in> oa_flags a"

definition address_temporary :: "observed_address \<Rightarrow> bool" where
  "address_temporary a \<longleftrightarrow> oa_family a = V6 \<and> AfSecondary \<in> oa_flags a"

definition address_secondary :: "observed_address \<Rightarrow> bool" where
  "address_secondary a \<longleftrightarrow> oa_family a = V4 \<and> AfSecondary \<in> oa_flags a"

definition address_permanent :: "observed_address \<Rightarrow> bool" where
  "address_permanent a \<longleftrightarrow> AfPermanent \<in> oa_flags a"

section \<open>Rules survive the round trip\<close>

text \<open>
  The kernel's form of a rule it dumps, as the source documents it: a zero mark is dumped with
  its mask only, and a rule without \<open>suppress_prefixlength\<close> carries the value
  \<open>0xffffffff\<close>.
\<close>

definition kernel_form :: "rule_message \<Rightarrow> rule_message" where
  "kernel_form m =
     m\<lparr>rm_attributes :=
         filter (\<lambda>a. a \<noteq> FraFwMark 0) (rm_attributes m)
         @ (if \<exists>v. FraSuppressPrefixLen v \<in> set (rm_attributes m) then []
            else [FraSuppressPrefixLen (- 1)])\<rparr>"

definition observed_form :: "rule \<Rightarrow> u8 \<Rightarrow> rule_message \<Rightarrow> observed_rule" where
  "observed_form r protocol m =
     \<lparr>or_family = r_family r, or_priority = r_priority r, or_protocol = protocol,
      or_fwmark = r_fwmark r, or_source = map_option (\<lambda>a. (a, host_len a)) (r_source r),
      or_action = planned_action (r_action r), or_foreign_selectors = False, or_l3mdev = False,
      or_message = m\<rparr>"

lemma family_of_address_family [simp]: "family_of_af (address_family_of f) = Some f"
  by (cases f) simp_all

lemma parse_rule_message:
  assumes "netlink_defaults_ok nd"
  shows "observed_rule_parse (rule_message nd r protocol)
    = Some (observed_form r protocol (rule_message nd r protocol))"
  using assms
  by (cases "r_action r"; cases "r_fwmark r"; cases "r_source r")
    (auto simp: observed_rule_parse_def rule_message_def observed_form_def netlink_defaults_ok_def Let_def)

lemma parse_kernel_form:
  assumes "netlink_defaults_ok nd"
  shows "observed_rule_parse (kernel_form (rule_message nd r protocol))
    = Some (observed_form r protocol (kernel_form (rule_message nd r protocol)))"
  using assms
  by (cases "r_action r"; cases "r_fwmark r"; cases "r_source r")
    (auto simp: observed_rule_parse_def rule_message_def observed_form_def netlink_defaults_ok_def Let_def
      kernel_form_def)

lemma planned_action_inject: "planned_action a = planned_action b \<longleftrightarrow> a = b"
  by (cases a; cases b) (auto simp: TABLE_MAIN_def)

text \<open>The identity of a rule: everything but its role, which the kernel does not store.\<close>

definition same_identity :: "rule \<Rightarrow> rule \<Rightarrow> bool" where
  "same_identity r s \<longleftrightarrow> r\<lparr>r_kind := r_kind s\<rparr> = s"

lemma host_pair_inject:
  "map_option (\<lambda>a. (a, host_len a)) x = map_option (\<lambda>a. (a, host_len a)) y \<longleftrightarrow> x = y"
  by (cases x; cases y) auto

lemma observed_form_is:
  "observed_rule_is (observed_form r protocol m) s protocol' \<longleftrightarrow> same_identity r s \<and> protocol' = protocol"
  by (cases r; cases s)
    (auto simp: observed_rule_is_def observed_form_def same_identity_def planned_action_inject host_pair_inject)

text \<open>
  C26. A rule survives the round trip through the kernel: parsing the message that creates it, or
  that message in the form the kernel dumps, always succeeds, and the parsed rule is recognised as
  a planned rule exactly when the two have the same identity (family, priority, mark, source and
  action) and the same protocol.
\<close>

theorem rule_roundtrip:
  assumes "netlink_defaults_ok nd"
    and "m = rule_message nd r protocol \<or> m = kernel_form (rule_message nd r protocol)"
  shows "\<exists>ob. observed_rule_parse m = Some ob \<and> or_message ob = m
    \<and> (\<forall>s protocol'. observed_rule_is ob s protocol' \<longleftrightarrow> same_identity r s \<and> protocol' = protocol)"
proof -
  from assms have "observed_rule_parse m = Some (observed_form r protocol m)"
    using parse_rule_message parse_kernel_form by blast
  moreover have "or_message (observed_form r protocol m) = m" by (simp add: observed_form_def)
  ultimately show ?thesis using observed_form_is by blast
qed

section \<open>Routes survive the round trip\<close>

text \<open>The routes the planner produces: sorted next hops, weights from 1 to 256, 1 when single.\<close>

definition route_shape :: "route \<Rightarrow> bool" where
  "route_shape r \<longleftrightarrow>
     rt_nexthops r \<noteq> [] \<and> sorted (rt_nexthops r) \<and>
     (\<forall>h\<in>set (rt_nexthops r). 1 \<le> unat (nh_weight h) \<and> unat (nh_weight h) \<le> 256) \<and>
     (length (rt_nexthops r) = 1 \<longrightarrow> nh_weight (hd (rt_nexthops r)) = 1)"

lemma ip_route_address [simp]: "ip (route_address_of a) = Some a"
  by (cases a) simp_all

lemma weight_roundtrip:
  assumes "1 \<le> unat w" "unat w \<le> 256"
  shows "ucast (hop_weight w) + (1 :: u16) = w"
proof -
  have n: "min (max (unat w) 1) 256 - 1 = unat w - 1" "unat w - 1 < 256" using assms by auto
  then have "hop_weight w = of_nat (unat w - 1)"
    by (simp only: hop_weight_def Let_def if_True)
  moreover have "unat (of_nat (unat w - 1) :: u8) = unat w - 1"
    using n(2) by (intro unat_of_nat_small) simp
  ultimately have "unat (hop_weight w) = unat w - 1" by simp
  then have "unat (ucast (hop_weight w) :: u16) = unat w - 1"
    using n(2) by (simp add: unsigned_ucast_eq take_bit_eq_mod)
  with assms show ?thesis
    by (simp add: word_unat_eq_iff unat_add_no_overflow)
qed

lemma multipath_roundtrip:
  assumes "netlink_defaults_ok nd" "1 \<le> unat (nh_weight h)" "unat (nh_weight h) \<le> 256"
  shows "let ob = observed_hop_of (multipath_hop nd h)
    in \<lparr>nh_ifindex = oh_ifindex ob, nh_gateway = oh_gateway ob, nh_onlink = oh_onlink ob,
        nh_weight = oh_weight ob\<rparr> = h"
  using assms
  by (cases h) (auto simp: observed_hop_of_def multipath_hop_def netlink_defaults_ok_def Let_def
      weight_roundtrip split: option.split)

lemma parse_route_message:
  assumes "netlink_defaults_ok nd" and "route_shape r"
  shows "Option.bind (observed_route_parse now (route_message nd r protocol)) as_planned = Some r"
proof (cases "length (rt_nexthops r) = 1")
  case True
  then obtain h where h: "rt_nexthops r = [h]" by (auto simp: length_Suc_conv)
  with assms show ?thesis
    by (cases "nh_gateway h"; cases "rt_source r"; cases r; cases h)
      (auto simp: observed_route_parse_def route_message_def route_header_def as_planned_def is_default_def
        netlink_defaults_ok_def route_shape_def Let_def ROUTE_METRIC_def)
next
  case False
  let ?hops = "rt_nexthops r"
  let ?hop_of = "\<lambda>ob. \<lparr>nh_ifindex = oh_ifindex ob, nh_gateway = oh_gateway ob, nh_onlink = oh_onlink ob,
    nh_weight = oh_weight ob\<rparr>"
  have hops: "map (?hop_of \<circ> observed_hop_of \<circ> multipath_hop nd) ?hops = ?hops"
    using multipath_roundtrip [OF assms(1)] assms(2)
    by (intro map_idI) (simp add: route_shape_def Let_def)
  have "sort ?hops = ?hops" using assms(2) by (simp add: route_shape_def sorted_sort_id)
  with False assms hops show ?thesis
    by (cases "rt_source r")
      (auto simp: observed_route_parse_def route_message_def route_header_def as_planned_def is_default_def
        netlink_defaults_ok_def route_shape_def Let_def ROUTE_METRIC_def comp_def split: list.split)
qed

text \<open>
  C25. A planned route survives the round trip: the message that installs it parses to a route whose
  planned form is that route, so that a route the kernel holds unchanged is never replaced.
\<close>

theorem route_roundtrip:
  assumes "netlink_defaults_ok nd" and "route_shape r"
  shows "Option.bind (observed_route_parse now (route_message nd r protocol)) as_planned = Some r"
  using assms by (rule parse_route_message)

lemma plan_route_shape:
  assumes "config_wf c" and "btm_get (d_routes (plan c i)) (f, t) = Some x"
  shows "route_shape x"
proof -
  let ?ms = "plan_members c i f"
  from plan_routes_iff [OF assms(1), of i f t x] assms(2) consider
    r where "x = hop_route f r (ready_hop r) t"
    | "?ms \<noteq> []" "x = balance_route (layout_of c) f ?ms"
    by blast
  then show ?thesis
  proof cases
    case 1
    then show ?thesis by (simp add: route_shape_def hop_route_def ready_hop_def)
  next
    case 2
    have w: "\<forall>h\<in>set ?ms. 1 \<le> unat (nh_weight h) \<and> unat (nh_weight h) \<le> 256"
      using plan_members_weight [OF assms(1)] by blast
    show ?thesis
      using 2 w by (cases "length ?ms = 1")
        (simp_all add: route_shape_def balance_route_hops sort_eq_Nil_iff)
  qed
qed

section \<open>Concrete instances\<close>

definition example_defaults :: netlink_defaults where
  "example_defaults =
     \<lparr>default_rule = \<lparr>rm_family = AfOther 0, rm_table = 0, rm_action = RuleActionOther, rm_src_len = 0,
        rm_dst_len = 0, rm_tos = 0, rm_flags = 0, rm_attributes = []\<rparr>,
      default_route = \<lparr>rtm_family = AfOther 0, rtm_table = 0, rtm_protocol = 0, rtm_scope = 0,
        rtm_kind = UnspecType, rtm_flags = {}, rtm_dst_len = 0, rtm_attributes = []\<rparr>,
      default_next_hop = RouteNextHop 0 0 {} [],
      default_link = \<lparr>lm_index = 0, lm_flags = {}, lm_attributes = []\<rparr>,
      default_address = \<lparr>am_family = AfOther 0, am_prefix_len = 0, am_scope = 0, am_index = 0,
        am_flags = 0, am_attributes = []\<rparr>\<rparr>"

lemma example_defaults_ok: "netlink_defaults_ok example_defaults"
  by (simp add: netlink_defaults_ok_def example_defaults_def)

theorem rule_roundtrip_witness:
  "\<exists>ob. observed_rule_parse (kernel_form (rule_message example_defaults
        \<lparr>r_family = V4, r_priority = 10564, r_fwmark = Some (0, 0xff0000), r_source = Some (IpV4 1),
         r_action = Unreachable, r_kind = SourceGuard\<rparr> 187)) = Some ob
     \<and> observed_rule_is ob
         \<lparr>r_family = V4, r_priority = 10564, r_fwmark = Some (0, 0xff0000), r_source = Some (IpV4 1),
          r_action = Unreachable, r_kind = SourceGuard\<rparr> 187"
  using rule_roundtrip [OF example_defaults_ok disjI2, OF refl, of
      "\<lparr>r_family = V4, r_priority = 10564, r_fwmark = Some (0, 0xff0000), r_source = Some (IpV4 1),
        r_action = Unreachable, r_kind = SourceGuard\<rparr>" 187]
  by (auto simp: same_identity_def)

theorem route_roundtrip_witness:
  "Option.bind (observed_route_parse 0 (route_message example_defaults
      \<lparr>rt_family = V4, rt_table = 1000, rt_source = None,
       rt_nexthops = [\<lparr>nh_ifindex = 1, nh_gateway = Some (IpV4 7), nh_onlink = False, nh_weight = 1\<rparr>]\<rparr> 187))
     as_planned
   = Some \<lparr>rt_family = V4, rt_table = 1000, rt_source = None,
       rt_nexthops = [\<lparr>nh_ifindex = 1, nh_gateway = Some (IpV4 7), nh_onlink = False, nh_weight = 1\<rparr>]\<rparr>"
  by (rule route_roundtrip [OF example_defaults_ok]) (simp add: route_shape_def)

end
