(* ===== verification/Nexthop.thy ===== *)
theory Nexthop
  imports Model
begin

text \<open>
  The attribute iterator of \<open>netlink/mod.rs\<close> and the nexthop messages of
  \<open>netlink/nexthop.rs\<close>, which the daemon decodes itself. Bytes are a list of \<open>u8\<close>;
  \<open>from_ne_bytes\<close> reads them in the byte order of the machine, the parameter \<open>be\<close>
  (big-endian). A decoding error is a value with the numbers its message prints.
\<close>

unbundle bit_operations_syntax

section \<open>Bytes\<close>

definition from_be :: "u8 list \<Rightarrow> 'a::len word" where
  "from_be bs = fold (\<lambda>b w. push_bit 8 w OR ucast b) bs 0"

definition from_ne :: "bool \<Rightarrow> u8 list \<Rightarrow> 'a::len word" where
  "from_ne be bs = (if be then from_be bs else from_be (rev bs))"

primrec to_be :: "nat \<Rightarrow> 'a::len word \<Rightarrow> u8 list" where
  "to_be 0 w = []"
| "to_be (Suc n) w = to_be n (drop_bit 8 w) @ [ucast w]"

definition to_ne :: "bool \<Rightarrow> nat \<Rightarrow> 'a::len word \<Rightarrow> u8 list" where
  "to_ne be n w = (if be then to_be n w else rev (to_be n w))"

lemma length_to_be [simp]: "length (to_be n w) = n"
  by (induction n arbitrary: w) simp_all

lemma length_to_ne [simp]: "length (to_ne be n w) = n"
  by (simp add: to_ne_def)

lemma from_be_snoc: "from_be (bs @ [b]) = push_bit 8 (from_be bs) OR ucast b"
  by (simp add: from_be_def)

lemma from_be_to_be: "from_be (to_be n w) = take_bit (8 * n) (w :: 'a::len word)"
proof (induction n arbitrary: w)
  case 0
  then show ?case by (simp add: from_be_def)
next
  case (Suc n)
  have "from_be (to_be (Suc n) w) = push_bit 8 (take_bit (8 * n) (drop_bit 8 w)) OR ucast (ucast w :: u8)"
    by (simp add: from_be_snoc Suc)
  also have "\<dots> = take_bit (8 * Suc n) w"
    by (rule bit_word_eqI)
      (auto simp: bit_or_iff bit_push_bit_iff bit_take_bit_iff bit_drop_bit_eq bit_ucast_iff
        dest: bit_imp_le_length)
  finally show ?case .
qed

lemma from_ne_to_ne:
  assumes "LENGTH('a) \<le> 8 * n"
  shows "from_ne be (to_ne be n w) = (w :: 'a::len word)"
  using assms by (simp add: from_ne_def to_ne_def from_be_to_be take_bit_word_eq_self)

section \<open>Attributes\<close>

text \<open>
  The items of the iterator from an offset on; an attribute shorter than its header or longer than
  the rest of the payload is an error and the last item.
\<close>

datatype attribute_error = AttributeError u16 nat nat

function attributes :: "bool \<Rightarrow> u8 list \<Rightarrow> nat \<Rightarrow> (attribute_error + u16 \<times> u8 list) list" where
  "attributes be payload off =
     (if off + 4 > length payload then []
      else
        let len = unat (from_ne be [payload ! off, payload ! (off + 1)] :: u16);
            kind = (from_ne be [payload ! (off + 2), payload ! (off + 3)] :: u16) AND 0x3fff
        in if len < 4 \<or> off + len > length payload then [Inl (AttributeError kind len off)]
           else Inr (kind, take (len - 4) (drop (off + 4) payload))
                # attributes be payload (off + (len + 3) div 4 * 4))"
  by pat_completeness auto
termination
  by (relation "measure (\<lambda>(be, payload, off). length payload - off)") (auto simp: Let_def)

declare attributes.simps [simp del]

section \<open>Nexthop messages\<close>

definition NHA_ID :: u16 where "NHA_ID = 1"
definition NHA_GROUP :: u16 where "NHA_GROUP = 2"
definition NHA_BLACKHOLE :: u16 where "NHA_BLACKHOLE = 4"
definition NHA_OIF :: u16 where "NHA_OIF = 5"
definition NHA_GATEWAY :: u16 where "NHA_GATEWAY = 6"
definition NHA_FDB :: u16 where "NHA_FDB = 11"

definition RTNH_F_DEAD :: u32 where "RTNH_F_DEAD = 1"
definition RTNH_F_ONLINK :: u32 where "RTNH_F_ONLINK = 4"
definition RTNH_F_LINKDOWN :: u32 where "RTNH_F_LINKDOWN = 16"

lemmas nha_defs = NHA_ID_def NHA_GROUP_def NHA_BLACKHOLE_def NHA_OIF_def NHA_GATEWAY_def NHA_FDB_def

record nexthop_message =
  nm_id :: u32
  nm_group :: "u32 list"
  nm_blackhole :: bool
  nm_fdb :: bool
  nm_ifindex :: "u32 option"
  nm_gateway :: "ip_addr option"
  nm_onlink :: bool
  nm_dead :: bool
  nm_linkdown :: bool

definition nexthop_default :: nexthop_message where
  "nexthop_default =
     \<lparr>nm_id = 0, nm_group = [], nm_blackhole = False, nm_fdb = False, nm_ifindex = None,
      nm_gateway = None, nm_onlink = False, nm_dead = False, nm_linkdown = False\<rparr>"

datatype nexthop_error = ShortMessage nat | BadAttribute attribute_error

fun chunks8 :: "u8 list \<Rightarrow> u8 list list" where
  "chunks8 bs = (if length bs < 8 then [] else take 8 bs # chunks8 (drop 8 bs))"

declare chunks8.simps [simp del]

definition nexthop_attribute ::
  "bool \<Rightarrow> u16 \<times> u8 list \<Rightarrow> nexthop_message \<Rightarrow> nexthop_message" where
  "nexthop_attribute be a m =
     (case a of (kind, val) \<Rightarrow>
        let n = length val
        in if kind = NHA_ID \<and> n = 4 then m\<lparr>nm_id := from_ne be val\<rparr>
           else if kind = NHA_OIF \<and> n = 4 then m\<lparr>nm_ifindex := Some (from_ne be val)\<rparr>
           else if kind = NHA_GATEWAY \<and> n = 4 then m\<lparr>nm_gateway := Some (IpV4 (from_be val))\<rparr>
           else if kind = NHA_GATEWAY \<and> n = 16 then m\<lparr>nm_gateway := Some (IpV6 (from_be val))\<rparr>
           else if kind = NHA_GROUP \<and> n mod 8 = 0 then
             m\<lparr>nm_group := map (\<lambda>c. from_ne be (take 4 c)) (chunks8 val)\<rparr>
           else if kind = NHA_BLACKHOLE then m\<lparr>nm_blackhole := True\<rparr>
           else if kind = NHA_FDB then m\<lparr>nm_fdb := True\<rparr>
           else m)"

text \<open>The loop over the attributes, which ends at the first error.\<close>

fun nexthop_scan ::
  "bool \<Rightarrow> (attribute_error + u16 \<times> u8 list) list \<Rightarrow> nexthop_message
     \<Rightarrow> nexthop_error + nexthop_message" where
  "nexthop_scan be [] m = Inr m"
| "nexthop_scan be (Inl e # _) m = Inl (BadAttribute e)"
| "nexthop_scan be (Inr a # as) m = nexthop_scan be as (nexthop_attribute be a m)"

definition nexthop_parse :: "bool \<Rightarrow> u8 list \<Rightarrow> nexthop_error + nexthop_message" where
  "nexthop_parse be payload =
     (if length payload < 8 then Inl (ShortMessage (length payload))
      else
        let flags = (from_ne be (take 4 (drop 4 payload)) :: u32);
            m = nexthop_default
                  \<lparr>nm_onlink := (flags AND RTNH_F_ONLINK \<noteq> 0), nm_dead := (flags AND RTNH_F_DEAD \<noteq> 0),
                   nm_linkdown := (flags AND RTNH_F_LINKDOWN \<noteq> 0)\<rparr>
        in nexthop_scan be (attributes be payload 8) m)"

section \<open>Decoding an encoded list of attributes\<close>

text \<open>The encoding of one attribute: length, type, value, padding to four bytes.\<close>

definition tlv :: "bool \<Rightarrow> u16 \<times> u8 list \<Rightarrow> u8 list" where
  "tlv be a =
     to_ne be 2 (of_nat (length (snd a) + 4) :: u16) @ to_ne be 2 (fst a) @ snd a
     @ replicate ((length (snd a) + 3) div 4 * 4 - length (snd a)) 0"

definition tlv_ok :: "u16 \<times> u8 list \<Rightarrow> bool" where
  "tlv_ok a \<longleftrightarrow> fst a AND 0x3fff = fst a \<and> length (snd a) + 4 < 2 ^ 16"

lemma length_tlv: "length (tlv be a) = (length (snd a) + 4 + 3) div 4 * 4"
proof -
  have "(n + 4 + 3) div 4 * 4 = 4 + (n + 3) div 4 * 4" "n \<le> (n + 3) div 4 * 4" for n :: nat
    by presburger+
  then show ?thesis by (simp add: tlv_def)
qed

lemma two_bytes: "[to_ne be 2 w ! 0, to_ne be 2 w ! Suc 0] = to_ne be 2 w"
  by (rule nth_equalityI) (auto simp: less_Suc_eq numeral_2_eq_2)

lemma attributes_tlv:
  assumes "tlv_ok a" and "off = length pre"
  shows "attributes be (pre @ tlv be a @ rest) off
    = Inr a # attributes be (pre @ tlv be a @ rest) (off + length (tlv be a))"
proof -
  obtain kind val where a: "a = (kind, val)" by fastforce
  define n p where "n = length val" and "p = pre @ tlv be a @ rest"
  have tlv: "tlv be a = to_ne be 2 (of_nat (n + 4) :: u16) @ to_ne be 2 kind @ val @
      replicate ((n + 3) div 4 * 4 - n) 0"
    by (simp add: a tlv_def n_def)
  have nth: "p ! (off + i) = (tlv be a @ rest) ! i" for i using assms(2) by (simp add: p_def nth_append)
  have len: "[p ! off, p ! Suc off] = to_ne be 2 (of_nat (n + 4) :: u16)"
    using nth [of 0] nth [of 1] by (simp add: tlv nth_append two_bytes)
  have kd: "[p ! Suc (Suc off), p ! (off + 3)] = to_ne be 2 kind"
    using nth [of 2] nth [of 3] by (simp add: tlv nth_append two_bytes)
  have un: "unat (of_nat (n + 4) :: u16) = n + 4"
    using assms(1) by (intro unat_of_nat_small) (simp add: tlv_ok_def a n_def)
  have bound: "off + (n + 4) \<le> length p"
    using assms(2) by (simp add: p_def tlv n_def)
  have val: "take n (drop (off + 4) p) = val"
    using assms(2) by (simp add: p_def tlv n_def)
  have size: "(7 + n) div 4 * 4 = length (tlv be (kind, val))"
    by (simp add: length_tlv n_def add.commute)
  have "attributes be p off = Inr a # attributes be p (off + length (tlv be a))"
    using assms(1) bound
    by (subst attributes.simps)
      (simp add: Let_def len kd un val from_ne_to_ne tlv_ok_def a size del: of_nat_add)
  then show ?thesis by (simp add: p_def)
qed

lemma attributes_end: "length payload < off + 4 \<Longrightarrow> attributes be payload off = []"
  by (subst attributes.simps) simp

lemma attributes_tlvs:
  "\<forall>a\<in>set as. tlv_ok a \<Longrightarrow>
     attributes be (pre @ concat (map (tlv be) as)) (length pre) = map Inr as"
proof (induction as arbitrary: pre)
  case Nil
  then show ?case by (simp add: attributes_end)
next
  case (Cons a as)
  have "attributes be (pre @ tlv be a @ concat (map (tlv be) as)) (length pre)
      = Inr a # attributes be ((pre @ tlv be a) @ concat (map (tlv be) as)) (length (pre @ tlv be a))"
    using attributes_tlv [of a "length pre" pre be] Cons.prems by simp
  also have "attributes be ((pre @ tlv be a) @ concat (map (tlv be) as)) (length (pre @ tlv be a)) = map Inr as"
    using Cons.prems by (intro Cons.IH) simp
  finally show ?case by simp
qed

section \<open>Nexthop objects survive the round trip\<close>

text \<open>The message of a nexthop object as the kernel builds it: header, then the attributes it has.\<close>

definition nexthop_flags :: "nexthop_message \<Rightarrow> u32" where
  "nexthop_flags m =
     (if nm_onlink m then RTNH_F_ONLINK else 0) OR (if nm_dead m then RTNH_F_DEAD else 0)
     OR (if nm_linkdown m then RTNH_F_LINKDOWN else 0)"

fun gateway_bytes :: "ip_addr \<Rightarrow> u8 list" where
  "gateway_bytes (IpV4 a) = to_be 4 a"
| "gateway_bytes (IpV6 a) = to_be 16 a"

definition group_bytes :: "bool \<Rightarrow> u32 \<Rightarrow> u8 list" where
  "group_bytes be i = to_ne be 4 i @ [0, 0, 0, 0]"

definition nexthop_attributes :: "bool \<Rightarrow> nexthop_message \<Rightarrow> (u16 \<times> u8 list) list" where
  "nexthop_attributes be m =
     [(NHA_ID, to_ne be 4 (nm_id m))]
     @ (if nm_group m = [] then [] else [(NHA_GROUP, concat (map (group_bytes be) (nm_group m)))])
     @ (if nm_blackhole m then [(NHA_BLACKHOLE, [])] else [])
     @ (case nm_ifindex m of None \<Rightarrow> [] | Some i \<Rightarrow> [(NHA_OIF, to_ne be 4 i)])
     @ (case nm_gateway m of None \<Rightarrow> [] | Some g \<Rightarrow> [(NHA_GATEWAY, gateway_bytes g)])
     @ (if nm_fdb m then [(NHA_FDB, [])] else [])"

definition nexthop_encode :: "bool \<Rightarrow> nexthop_message \<Rightarrow> u8 list" where
  "nexthop_encode be m =
     [0, 0, 0, 0] @ to_ne be 4 (nexthop_flags m) @ concat (map (tlv be) (nexthop_attributes be m))"

lemma length_concat_groups: "length (concat (map (group_bytes be) is)) = 8 * length is"
  by (induction "is") (simp_all add: group_bytes_def)

lemma chunks8_groups:
  "map (\<lambda>c. from_ne be (take 4 c)) (chunks8 (concat (map (group_bytes be) is))) = (is :: u32 list)"
proof (induction "is")
  case Nil
  then show ?case by (simp add: chunks8.simps)
next
  case (Cons i js)
  let ?g = "group_bytes be i" and ?r = "concat (map (group_bytes be) js)"
  have len: "length ?g = 8" by (simp add: group_bytes_def)
  have "chunks8 (?g @ ?r) = ?g # chunks8 ?r"
    by (subst chunks8.simps) (simp add: len)
  moreover have "from_ne be (take 4 ?g) = i"
    by (simp add: group_bytes_def from_ne_to_ne)
  ultimately show ?case using Cons by simp
qed

lemma tlv_ok_attributes:
  assumes "8 * length (nm_group m) + 4 < 2 ^ 16"
  shows "\<forall>a\<in>set (nexthop_attributes be m). tlv_ok a"
proof -
  have "length (gateway_bytes g) \<le> 16" for g by (cases g) simp_all
  then have "length (gateway_bytes g) < 65532" for g by (meson le_less_trans numeral_less_iff semiring_norm)
  with assms show ?thesis
    by (auto simp: nexthop_attributes_def tlv_ok_def nha_defs length_concat_groups split: option.splits if_splits)
qed

lemma scan_append:
  "nexthop_scan be (map Inr as) m = Inr (fold (nexthop_attribute be) as m)"
  by (induction as arbitrary: m) simp_all

lemma fold_nexthop_attributes:
  "fold (nexthop_attribute be) (nexthop_attributes be m)
     (nexthop_default\<lparr>nm_onlink := nm_onlink m, nm_dead := nm_dead m, nm_linkdown := nm_linkdown m\<rparr>) = m"
proof -
  have gw: "nexthop_attribute be (NHA_GATEWAY, gateway_bytes g) k = k\<lparr>nm_gateway := Some g\<rparr>" for g k
    by (cases g) (simp_all add: nexthop_attribute_def nha_defs from_be_to_be take_bit_word_eq_self)
  have grp: "nexthop_attribute be (NHA_GROUP, concat (map (group_bytes be) is)) k = k\<lparr>nm_group := is\<rparr>" for "is" k
    by (simp add: nexthop_attribute_def nha_defs length_concat_groups chunks8_groups)
  have rest: "nexthop_attribute be (NHA_ID, to_ne be 4 i) k = k\<lparr>nm_id := i\<rparr>"
    "nexthop_attribute be (NHA_OIF, to_ne be 4 i) k = k\<lparr>nm_ifindex := Some i\<rparr>"
    "nexthop_attribute be (NHA_BLACKHOLE, []) k = k\<lparr>nm_blackhole := True\<rparr>"
    "nexthop_attribute be (NHA_FDB, []) k = k\<lparr>nm_fdb := True\<rparr>" for i k
    by (simp_all add: nexthop_attribute_def nha_defs from_ne_to_ne)
  show ?thesis
    by (cases m) (auto simp: nexthop_attributes_def gw grp rest nexthop_default_def split: option.split)
qed

lemma nexthop_flag_bits:
  "nexthop_flags m AND RTNH_F_ONLINK \<noteq> 0 \<longleftrightarrow> nm_onlink m"
  "nexthop_flags m AND RTNH_F_DEAD \<noteq> 0 \<longleftrightarrow> nm_dead m"
  "nexthop_flags m AND RTNH_F_LINKDOWN \<noteq> 0 \<longleftrightarrow> nm_linkdown m"
  by (auto simp: nexthop_flags_def RTNH_F_ONLINK_def RTNH_F_DEAD_def RTNH_F_LINKDOWN_def)



text \<open>
  Decoding never reads past the payload: every value the attribute iterator yields is a slice of
  the payload that lies after the offset, and the offsets of the error, if any, lie inside it.
\<close>

theorem attributes_in_bounds:
  "x \<in> set (attributes be payload off) \<Longrightarrow>
     (case x of
        Inl (AttributeError kind len pos) \<Rightarrow> off \<le> pos \<and> pos + 4 \<le> length payload \<and> (len < 4 \<or> length payload < pos + len)
      | Inr (kind, val) \<Rightarrow>
          kind AND 0x3fff = kind \<and>
          (\<exists>pos\<ge>off + 4. pos + length val \<le> length payload \<and> val = take (length val) (drop pos payload)))"
proof (induction be payload off rule: attributes.induct)
  case (1 be payload off)
  let ?len = "unat (from_ne be [payload ! off, payload ! (off + 1)] :: u16)"
  let ?kind = "(from_ne be [payload ! (off + 2), payload ! (off + 3)] :: u16) AND 0x3fff"
  let ?next = "off + (?len + 3) div 4 * 4"
  have fits: "off + 4 \<le> length payload"
    using 1(2) by (subst (asm) attributes.simps) (auto split: if_splits)
  show ?case
  proof (cases "?len < 4 \<or> length payload < off + ?len")
    case True
    with 1(2) fits have "x = Inl (AttributeError ?kind ?len off)"
      by (subst (asm) attributes.simps) (simp add: Let_def)
    with True fits show ?thesis by auto
  next
    case False
    with 1(2) fits consider "x = Inr (?kind, take (?len - 4) (drop (off + 4) payload))"
      | "x \<in> set (attributes be payload ?next)"
      by (subst (asm) attributes.simps) (auto simp: Let_def)
    then show ?thesis
    proof cases
      case 1
      with False fits show ?thesis
        by (auto simp: and.assoc intro!: exI [of _ "off + 4"])
    next
      case 2
      have "off \<le> ?next" by simp
      from 1(1) [OF _ refl refl _ 2] False fits show ?thesis
        by (fastforce split: sum.splits prod.splits attribute_error.splits)
    qed
  qed
qed

theorem attributes_in_bounds_witness:
  "\<exists>pos\<ge>4. pos + 4 \<le> length (tlv False (1, [1, 0, 0, 0]))
     \<and> [1, 0, 0, 0] = take 4 (drop pos (tlv False (1, [1, 0, 0, 0])))"
proof -
  have "attributes False (tlv False (1, [1, 0, 0, 0])) 0 = [Inr (1, [1, 0, 0, 0])]"
    using attributes_tlvs [of "[(1, [1, 0, 0, 0])]" False "[]"] by (simp add: tlv_ok_def)
  then have "Inr (1, [1, 0, 0, 0]) \<in> set (attributes False (tlv False (1, [1, 0, 0, 0])) 0)" by simp
  from attributes_in_bounds [OF this] show ?thesis by (simp add: eval_nat_numeral)
qed

end
