(* ===== verification/System_View.thy ===== *)
theory System_View
  imports Netlink_Msg Nexthop
begin

text \<open>
  The observed system (\<open>system.rs\<close>): links, addresses, routes, rules and nexthop objects as the
  kernel reports them through dumps and notifications. Two things are parameters of the operations:
  \<open>now\<close>, the clock read during a call, and \<open>fo\<close>, the packet library's reading of the
  eight flag bits of an address header.
\<close>

section \<open>State\<close>

datatype via_hop = ViaPolywan | ViaObject u32 | ViaHop u32 "ip_addr option" | ViaOther

fun via_rank :: "via_hop \<Rightarrow> nat \<times> u32 \<times> ip_addr option" where
  "via_rank ViaPolywan = (0, 0, None)"
| "via_rank (ViaObject i) = (1, i, None)"
| "via_rank (ViaHop i g) = (2, i, g)"
| "via_rank ViaOther = (3, 0, None)"

lemma via_rank_inject: "via_rank a = via_rank b \<Longrightarrow> a = b"
  by (cases a; cases b) simp_all

instantiation via_hop :: linorder
begin

definition less_eq_via_hop :: "via_hop \<Rightarrow> via_hop \<Rightarrow> bool" where
  "less_eq_via_hop a b \<longleftrightarrow> via_rank a \<le> via_rank b"

definition less_via_hop :: "via_hop \<Rightarrow> via_hop \<Rightarrow> bool" where
  "less_via_hop a b \<longleftrightarrow> via_rank a < via_rank b"

instance
proof
  fix x y z :: via_hop
  show "(x < y) = (x \<le> y \<and> \<not> y \<le> x)"
    unfolding less_eq_via_hop_def less_via_hop_def by (rule less_le_not_le)
  show "x \<le> x" unfolding less_eq_via_hop_def by (rule order.refl)
  show "x \<le> y \<Longrightarrow> y \<le> z \<Longrightarrow> x \<le> z" unfolding less_eq_via_hop_def by (rule order.trans)
  show "x \<le> y \<or> y \<le> x" unfolding less_eq_via_hop_def by (rule linear)
  show "x \<le> y \<Longrightarrow> y \<le> x \<Longrightarrow> x = y"
    unfolding less_eq_via_hop_def by (rule via_rank_inject) (rule order.antisym)
qed

end

type_synonym route_key = "family \<times> u32 \<times> (ip_addr \<times> u8) option \<times> u32 \<times> via_hop"

record scope =
  polywan_tables :: "(u32 \<times> u32) list"
  sc_discovery_tables :: "u32 list"

definition is_polywan :: "scope \<Rightarrow> u32 \<Rightarrow> bool" where
  "is_polywan sc t \<longleftrightarrow> list_ex (\<lambda>(a, b). in_range a b t) (polywan_tables sc)"

definition scope_keeps :: "scope \<Rightarrow> observed_route \<Rightarrow> bool" where
  "scope_keeps sc r \<longleftrightarrow>
     is_polywan sc (ort_table r)
     \<or> (is_default r \<and> ort_table r \<in> set (sc_discovery_tables sc))
     \<or> (ort_table r = TABLE_MAIN \<and> \<not> is_default r \<and>
        list_all (\<lambda>h. oh_gateway h = None) (ort_nexthops r))"

record system =
  sy_links :: "(u32, observed_link) btree_map"
  sy_addresses :: "(u32 \<times> ip_addr, observed_address) btree_map"
  sy_routes :: "(route_key, observed_route) btree_map"
  sy_rules :: "observed_rule list"
  sy_nexthops :: "(u32, nexthop_message) btree_map"

definition system_default :: system where
  "system_default =
     \<lparr>sy_links = [], sy_addresses = [], sy_routes = [], sy_rules = [], sy_nexthops = []\<rparr>"

datatype change =
    ChangeLink u32
  | ChangeAddress u32
  | ChangeRoute family u32 bool
  | ChangeRule family bool
  | ChangeNexthop bool
  | ChangeNone

datatype message =
    RouteMsg route_netlink_message
  | NewNexthop nexthop_message
  | DelNexthop nexthop_message
  | GetNexthops

section \<open>Operations\<close>

definition route_key :: "scope \<Rightarrow> observed_route \<Rightarrow> route_key" where
  "route_key sc r =
     (let v = (if is_polywan sc (ort_table r) then ViaPolywan
               else case ort_nexthop_id r of
                      Some i \<Rightarrow> ViaObject i
                    | None \<Rightarrow>
                        (case ort_nexthops r of
                           [h] \<Rightarrow> ViaHop (oh_ifindex h) (oh_gateway h)
                         | _ \<Rightarrow> ViaOther))
      in (ort_family r, ort_table r, ort_destination r, ort_metric r, v))"

definition link_by_name :: "system \<Rightarrow> string \<Rightarrow> observed_link option" where
  "link_by_name s name = find (\<lambda>l. ol_name l = name) (map snd (sy_links s))"

definition keep_expiry :: "instant \<Rightarrow> instant option \<Rightarrow> observed_route \<Rightarrow> observed_route" where
  "keep_expiry now old r =
     (if ort_expires_at r = None
      then (case old of
              Some t \<Rightarrow> if t \<le> now + int (from_secs 1) then r\<lparr>ort_expires_at := Some t\<rparr> else r
            | None \<Rightarrow> r)
      else r)"

definition same_rule :: "observed_rule \<Rightarrow> observed_rule \<Rightarrow> bool" where
  "same_rule a b \<longleftrightarrow>
     (if or_foreign_selectors a \<or> or_foreign_selectors b then or_message a = or_message b
      else or_family a = or_family b \<and> or_priority a = or_priority b \<and>
           or_protocol a = or_protocol b \<and> or_fwmark a = or_fwmark b \<and>
           or_source a = or_source b \<and> or_action a = or_action b)"

definition known_expiry :: "(route_key, observed_route) btree_map \<Rightarrow> route_key \<Rightarrow> instant option" where
  "known_expiry m k = Option.bind (btm_get m k) ort_expires_at"

definition apply_route ::
  "instant \<Rightarrow> scope \<Rightarrow> observed_route \<Rightarrow> bool \<Rightarrow> system \<Rightarrow> system \<times> change" where
  "apply_route now sc r deleted s =
     (if \<not> scope_keeps sc r then (s, ChangeNone)
      else
        let key = route_key sc r;
            routes = (if deleted then btm_remove key (sy_routes s)
                      else btm_insert key (keep_expiry now (known_expiry (sy_routes s) key) r) (sy_routes s))
        in (s\<lparr>sy_routes := routes\<rparr>, ChangeRoute (ort_family r) (ort_table r) deleted))"

definition apply_link :: "link_message \<Rightarrow> bool \<Rightarrow> system \<Rightarrow> system \<times> change" where
  "apply_link l deleted s =
     (if deleted then
        let i = lm_index l
        in (s\<lparr>sy_links := btm_remove i (sy_links s),
              sy_addresses := btm_retain (\<lambda>k _. fst k \<noteq> i) (sy_addresses s)\<rparr>, ChangeLink i)
      else case observed_link_parse l of
             None \<Rightarrow> (s, ChangeNone)
           | Some ol \<Rightarrow>
               (s\<lparr>sy_links := btm_insert (ol_index ol) ol (sy_links s)\<rparr>, ChangeLink (ol_index ol)))"

definition apply_address ::
  "(u8 \<Rightarrow> address_flag set) \<Rightarrow> address_message \<Rightarrow> bool \<Rightarrow> system \<Rightarrow> system \<times> change" where
  "apply_address fo m deleted s =
     (case observed_address_parse fo m of
        None \<Rightarrow> (s, ChangeNone)
      | Some a \<Rightarrow>
          let key = (oa_index a, oa_address a)
          in if deleted then
               (s\<lparr>sy_addresses := btm_remove key (sy_addresses s)\<rparr>, ChangeAddress (oa_index a))
             else if btm_get (sy_addresses s) key = Some a then (s, ChangeNone)
             else (s\<lparr>sy_addresses := btm_insert key a (sy_addresses s)\<rparr>, ChangeAddress (oa_index a)))"

definition apply_rule :: "rule_message \<Rightarrow> bool \<Rightarrow> system \<Rightarrow> system \<times> change" where
  "apply_rule m deleted s =
     (case observed_rule_parse m of
        None \<Rightarrow> (s, ChangeNone)
      | Some r \<Rightarrow>
          (s\<lparr>sy_rules := filter (\<lambda>ob. \<not> same_rule ob r) (sy_rules s) @ (if deleted then [] else [r])\<rparr>,
           ChangeRule (or_family r) deleted))"

fun apply_rtnl ::
  "instant \<Rightarrow> (u8 \<Rightarrow> address_flag set) \<Rightarrow> scope \<Rightarrow> route_netlink_message \<Rightarrow> system \<Rightarrow> system \<times> change" where
  "apply_rtnl now fo sc (NewLink l) s = apply_link l False s"
| "apply_rtnl now fo sc (DelLink l) s = apply_link l True s"
| "apply_rtnl now fo sc (NewAddress a) s = apply_address fo a False s"
| "apply_rtnl now fo sc (DelAddress a) s = apply_address fo a True s"
| "apply_rtnl now fo sc (NewRoute m) s =
     (case observed_route_parse now m of
        None \<Rightarrow> (s, ChangeNone) | Some r \<Rightarrow> apply_route now sc r False s)"
| "apply_rtnl now fo sc (DelRoute m) s =
     (case observed_route_parse now m of
        None \<Rightarrow> (s, ChangeNone) | Some r \<Rightarrow> apply_route now sc r True s)"
| "apply_rtnl now fo sc (NewRule m) s = apply_rule m False s"
| "apply_rtnl now fo sc (DelRule m) s = apply_rule m True s"
| "apply_rtnl now fo sc _ s = (s, ChangeNone)"

fun apply_message ::
  "instant \<Rightarrow> (u8 \<Rightarrow> address_flag set) \<Rightarrow> scope \<Rightarrow> message \<Rightarrow> system \<Rightarrow> system \<times> change" where
  "apply_message now fo sc (RouteMsg r) s = apply_rtnl now fo sc r s"
| "apply_message now fo sc (NewNexthop n) s =
     (s\<lparr>sy_nexthops := btm_insert (nm_id n) n (sy_nexthops s)\<rparr>, ChangeNexthop False)"
| "apply_message now fo sc (DelNexthop n) s =
     (s\<lparr>sy_nexthops := btm_remove (nm_id n) (sy_nexthops s)\<rparr>, ChangeNexthop True)"
| "apply_message now fo sc GetNexthops s = (s, ChangeNone)"

definition in_table :: "family \<Rightarrow> u32 \<Rightarrow> route_key \<Rightarrow> bool" where
  "in_table f t k \<longleftrightarrow> fst k = f \<and> fst (snd k) = t"

definition replace_step ::
  "instant \<Rightarrow> scope \<Rightarrow> family \<Rightarrow> u32 \<Rightarrow> (route_key \<Rightarrow> instant option) \<Rightarrow> route_netlink_message
     \<Rightarrow> (route_key, observed_route) btree_map \<Rightarrow> (route_key, observed_route) btree_map" where
  "replace_step now sc f t expiries m routes =
     (case m of
        NewRoute rm \<Rightarrow>
          (case observed_route_parse now rm of
             Some r \<Rightarrow>
               if ort_family r = f \<and> ort_table r = t \<and> scope_keeps sc r
               then btm_insert (route_key sc r) (keep_expiry now (expiries (route_key sc r)) r) routes
               else routes
           | None \<Rightarrow> routes)
      | _ \<Rightarrow> routes)"

definition replace_table ::
  "instant \<Rightarrow> scope \<Rightarrow> family \<Rightarrow> u32 \<Rightarrow> route_netlink_message list \<Rightarrow> system \<Rightarrow> system" where
  "replace_table now sc f t dump s =
     (let expiries = (\<lambda>k. if in_table f t k then known_expiry (sy_routes s) k else None);
          kept = btm_retain (\<lambda>k _. \<not> in_table f t k) (sy_routes s)
      in s\<lparr>sy_routes := fold (replace_step now sc f t expiries) dump kept\<rparr>)"

definition keep_expiries :: "instant \<Rightarrow> system \<Rightarrow> system \<Rightarrow> system" where
  "keep_expiries now old s =
     s\<lparr>sy_routes := btm_map (\<lambda>k r. keep_expiry now (known_expiry (sy_routes old) k) r) (sy_routes s)\<rparr>"

text \<open>The header flags of a notification: \<open>NLM_F_APPEND\<close> and \<open>NLM_F_REPLACE\<close>.\<close>

definition key_head :: "route_key \<Rightarrow> family \<times> u32 \<times> (ip_addr \<times> u8) option \<times> u32" where
  "key_head k = (case k of (f, t, d, m, v) \<Rightarrow> (f, t, d, m))"

definition stale_after ::
  "scope \<Rightarrow> observed_route \<Rightarrow> bool \<Rightarrow> bool \<Rightarrow> bool \<Rightarrow> system \<Rightarrow> (family \<times> u32) option" where
  "stale_after sc r deleted appended replaced s =
     (if is_polywan sc (ort_table r) then None
      else
        let key = route_key sc r;
            stale =
              (if deleted then scope_keeps sc r \<and> \<not> btm_contains (sy_routes s) key
               else if appended then scope_keeps sc r
               else if replaced then
                 list_ex (\<lambda>k. key_head k = key_head key \<and> (k \<noteq> key \<or> \<not> scope_keeps sc r))
                   (map fst (sy_routes s))
               else False)
        in if stale then Some (ort_family r, ort_table r) else None)"

definition nexthop_users :: "system \<Rightarrow> u32 \<Rightarrow> (family \<times> u32) set" where
  "nexthop_users s i =
     (\<lambda>r. (ort_family r, ort_table r)) ` set (filter
       (\<lambda>r. case ort_nexthop_id r of
              None \<Rightarrow> False
            | Some n \<Rightarrow> n = i \<or> (case btm_get (sy_nexthops s) n of
                                   None \<Rightarrow> False | Some g \<Rightarrow> i \<in> set (nm_group g)))
       (map snd (sy_routes s)))"

definition routes_in :: "system \<Rightarrow> family \<Rightarrow> u32 \<Rightarrow> observed_route list" where
  "routes_in s f t = filter (\<lambda>r. ort_family r = f \<and> ort_table r = t) (map snd (sy_routes s))"

section \<open>The invariant\<close>

definition keyed :: "('k::linorder, 'v) btree_map \<Rightarrow> ('v \<Rightarrow> 'k) \<Rightarrow> ('v \<Rightarrow> bool) \<Rightarrow> bool" where
  "keyed m f P \<longleftrightarrow> btm_wf m \<and> (\<forall>k v. btm_get m k = Some v \<longrightarrow> k = f v \<and> P v)"

definition rules_distinct :: "observed_rule list \<Rightarrow> bool" where
  "rules_distinct rs \<longleftrightarrow> sorted_wrt (\<lambda>a b. \<not> same_rule a b) rs"

text \<open>An observed rule is the reading of the message it keeps.\<close>

definition rules_parsed :: "observed_rule list \<Rightarrow> bool" where
  "rules_parsed rs \<longleftrightarrow> (\<forall>r\<in>set rs. observed_rule_parse (or_message r) = Some r)"

lemma parse_keeps_message: "observed_rule_parse m = Some r \<Longrightarrow> or_message r = m"
  by (auto simp: observed_rule_parse_def Let_def split: option.splits)

definition system_inv :: "scope \<Rightarrow> system \<Rightarrow> bool" where
  "system_inv sc s \<longleftrightarrow>
     keyed (sy_links s) ol_index (\<lambda>_. True) \<and>
     keyed (sy_addresses s) (\<lambda>a. (oa_index a, oa_address a)) (\<lambda>_. True) \<and>
     keyed (sy_routes s) (route_key sc) (scope_keeps sc) \<and>
     keyed (sy_nexthops s) nm_id (\<lambda>_. True) \<and>
     rules_distinct (sy_rules s) \<and> rules_parsed (sy_rules s)"

lemma keyed_Nil: "keyed [] f P"
  by (simp add: keyed_def btm_get_def)

lemma keyed_insert: "keyed m f P \<Longrightarrow> k = f v \<Longrightarrow> P v \<Longrightarrow> keyed (btm_insert k v m) f P"
  by (auto simp: keyed_def btm_wf_insert btm_get_insert)

lemma btm_wf_remove: "btm_wf m \<Longrightarrow> btm_wf (btm_remove k m)"
  by (simp add: btm_remove_def btm_wf_filter)

lemma btm_wf_retain: "btm_wf m \<Longrightarrow> btm_wf (btm_retain Q m)"
  by (simp add: btm_retain_def btm_wf_filter)

lemma keyed_remove: "keyed m f P \<Longrightarrow> keyed (btm_remove k m) f P"
  by (auto simp: keyed_def btm_get_remove btm_wf_remove split: if_splits)

lemma keyed_retain: "keyed m f P \<Longrightarrow> keyed (btm_retain Q m) f P"
  by (auto simp: keyed_def btm_get_retain btm_wf_retain split: option.splits if_splits)

lemma keyed_map:
  assumes "keyed m f P" and "\<And>k v. f (g k v) = f v" and "\<And>k v. P (g k v) = P v"
  shows "keyed (btm_map g m) f P"
  using assms by (auto simp: keyed_def btm_get_map btm_wf_map)

lemmas keyed_intros = keyed_Nil keyed_insert keyed_remove keyed_retain keyed_map

lemma route_key_expiry [simp]: "route_key sc (keep_expiry now old r) = route_key sc r"
  by (simp add: keep_expiry_def route_key_def split: option.split)

lemma scope_keeps_expiry [simp]: "scope_keeps sc (keep_expiry now old r) = scope_keeps sc r"
  by (simp add: keep_expiry_def scope_keeps_def is_default_def split: option.split)

lemma same_rule_sym: "same_rule a b \<longleftrightarrow> same_rule b a"
  by (auto simp: same_rule_def)

lemma rules_distinct_replace:
  assumes "rules_distinct rs"
  shows "rules_distinct (filter (\<lambda>ob. \<not> same_rule ob r) rs)"
    and "rules_distinct (filter (\<lambda>ob. \<not> same_rule ob r) rs @ [r])"
  using assms by (auto simp: rules_distinct_def sorted_wrt_append sorted_wrt_filter)

lemma apply_route_inv:
  "system_inv sc s \<Longrightarrow> system_inv sc (fst (apply_route now sc r deleted s))"
  by (auto simp: apply_route_def system_inv_def Let_def intro: keyed_intros)

lemma apply_link_inv: "system_inv sc s \<Longrightarrow> system_inv sc (fst (apply_link l deleted s))"
  by (auto simp: apply_link_def system_inv_def Let_def intro: keyed_intros split: option.split)

lemma apply_address_inv: "system_inv sc s \<Longrightarrow> system_inv sc (fst (apply_address fo m deleted s))"
  by (auto simp: apply_address_def system_inv_def Let_def intro: keyed_intros split: option.split)

lemma apply_rule_inv: "system_inv sc s \<Longrightarrow> system_inv sc (fst (apply_rule m deleted s))"
  by (auto simp: apply_rule_def system_inv_def rules_distinct_replace rules_parsed_def
      dest: parse_keeps_message split: option.split)

lemma apply_message_inv: "system_inv sc s \<Longrightarrow> system_inv sc (fst (apply_message now fo sc m s))"
proof (cases m)
  case (RouteMsg r)
  assume "system_inv sc s"
  then show ?thesis
    by (cases r) (auto simp: RouteMsg apply_route_inv apply_link_inv apply_address_inv apply_rule_inv
        split: option.split)
qed (auto simp: system_inv_def intro: keyed_intros)

lemma system_default_inv: "system_inv sc system_default"
  by (simp add: system_inv_def system_default_def keyed_Nil rules_distinct_def rules_parsed_def)

interpretation sv: invariant_system "\<lambda>s. s = system_default"
  "\<lambda>(now, m) s. fst (apply_message now fo sc m s)" "system_inv sc" for fo sc
  by unfold_locales (auto simp: apply_message_inv system_default_inv)

lemma replace_step_inv:
  "keyed routes (route_key sc) (scope_keeps sc) \<Longrightarrow>
     keyed (replace_step now sc f t ex m routes) (route_key sc) (scope_keeps sc)"
  by (auto simp: replace_step_def intro: keyed_intros split: route_netlink_message.split option.split)

lemma fold_replace_step_inv:
  "keyed routes (route_key sc) (scope_keeps sc) \<Longrightarrow>
     keyed (fold (replace_step now sc f t ex) dump routes) (route_key sc) (scope_keeps sc)"
  by (induction dump arbitrary: routes) (simp_all add: replace_step_inv)

lemma replace_table_inv: "system_inv sc s \<Longrightarrow> system_inv sc (replace_table now sc f t dump s)"
  by (simp add: system_inv_def replace_table_def Let_def fold_replace_step_inv keyed_retain)

lemma keep_expiries_inv: "system_inv sc s \<Longrightarrow> system_inv sc (keep_expiries now old s)"
  by (auto simp: system_inv_def keep_expiries_def intro: keyed_map)

text \<open>
  C23. The view stays consistent whatever the kernel reports, in any order: after any sequence of
  messages, re-reads and expiry transfers every entry is filed under its own identity, only
  routes in scope are kept, no two entries of the rule list are the same rule, and each of them is the
  reading of the message it keeps.
\<close>

theorem system_view_invariant:
  "system_inv sc (fold (\<lambda>(now, m) s. fst (apply_message now fo sc m s)) ms system_default)
   \<and> (system_inv sc s \<longrightarrow>
        system_inv sc (replace_table now sc f t dump s) \<and> system_inv sc (keep_expiries now old s)
        \<and> system_inv sc (fst (apply_message now fo sc m s)))"
  using sv.run_inv [of system_default sc fo ms] replace_table_inv keep_expiries_inv apply_message_inv by blast

theorem system_view_invariant_witness:
  "system_inv \<lparr>polywan_tables = [(1000, 1191)], sc_discovery_tables = [254]\<rparr> (keep_expiries 0 system_default system_default)"
  using system_view_invariant [where sc = "\<lparr>polywan_tables = [(1000, 1191)], sc_discovery_tables = [254]\<rparr>"
      and s = system_default and ms = "[]"]
  by simp

section \<open>Repeated notifications\<close>

lemma btm_insert_again: "btm_insert k v (btm_insert k v m) = btm_insert k v m"
  by (induction k v m rule: btm_insert.induct) auto

lemma same_rule_refl [simp]: "same_rule r r"
  by (simp add: same_rule_def)

lemma keep_expiry_again:
  "keep_expiry now (ort_expires_at (keep_expiry now old r)) r = keep_expiry now old r"
  by (auto simp: keep_expiry_def split: option.split)

lemma apply_route_again:
  assumes "system_inv sc s"
  shows "fst (apply_route now sc r d (fst (apply_route now sc r d s))) = fst (apply_route now sc r d s)"
proof -
  have "btm_wf (sy_routes s)" using assms by (simp add: system_inv_def keyed_def)
  then show ?thesis
    by (auto simp: apply_route_def Let_def btm_get_insert known_expiry_def keep_expiry_again btm_insert_again
        btm_remove_def)
qed

text \<open>
  Notifications are idempotent: the same message applied twice in a row leaves the view it leaves
  when applied once, so that a dump and a notification of the same object can be applied in any
  number.
\<close>

theorem apply_message_idempotent:
  assumes "system_inv sc s"
  shows "fst (apply_message now fo sc m (fst (apply_message now fo sc m s)))
    = fst (apply_message now fo sc m s)"
proof (cases m)
  case (RouteMsg rm)
  have wf: "btm_wf (sy_addresses s)" using assms by (simp add: system_inv_def keyed_def)
  show ?thesis
  proof (cases rm)
    case (NewRoute x)
    then show ?thesis using apply_route_again [OF assms] by (simp add: RouteMsg split: option.split)
  next
    case (DelRoute x)
    then show ?thesis using apply_route_again [OF assms] by (simp add: RouteMsg split: option.split)
  next
    case (NewAddress x)
    then show ?thesis
      using wf by (auto simp: RouteMsg apply_address_def Let_def btm_get_insert split: option.split)
  qed (auto simp: RouteMsg apply_link_def apply_address_def apply_rule_def Let_def btm_insert_again
      btm_remove_def btm_retain_def split: option.split)
qed (auto simp: btm_insert_again btm_remove_def)

theorem apply_message_idempotent_witness:
  "system_inv \<lparr>polywan_tables = [], sc_discovery_tables = []\<rparr> system_default
   \<and> fst (apply_message 0 (\<lambda>_. {}) \<lparr>polywan_tables = [], sc_discovery_tables = []\<rparr> (NewNexthop nexthop_default)
        (fst (apply_message 0 (\<lambda>_. {}) \<lparr>polywan_tables = [], sc_discovery_tables = []\<rparr>
          (NewNexthop nexthop_default) system_default)))
     = fst (apply_message 0 (\<lambda>_. {}) \<lparr>polywan_tables = [], sc_discovery_tables = []\<rparr>
          (NewNexthop nexthop_default) system_default)"
  using apply_message_idempotent [OF system_default_inv] system_default_inv by blast

section \<open>Re-reading a table\<close>

definition dump_routes ::
  "instant \<Rightarrow> scope \<Rightarrow> family \<Rightarrow> u32 \<Rightarrow> route_netlink_message list \<Rightarrow> observed_route list" where
  "dump_routes now sc f t dump =
     filter (\<lambda>r. ort_family r = f \<and> ort_table r = t \<and> scope_keeps sc r)
       (List.map_filter (\<lambda>m. case m of NewRoute x \<Rightarrow> observed_route_parse now x | _ \<Rightarrow> None) dump)"

definition last_with_key :: "scope \<Rightarrow> route_key \<Rightarrow> observed_route list \<Rightarrow> observed_route option" where
  "last_with_key sc k rs = find (\<lambda>r. route_key sc r = k) (rev rs)"

lemma fold_replace_step:
  "fold (replace_step now sc f t ex) dump routes
     = fold (\<lambda>r m. btm_insert (route_key sc r) (keep_expiry now (ex (route_key sc r)) r) m)
         (dump_routes now sc f t dump) routes"
  by (induction dump arbitrary: routes)
    (auto simp: dump_routes_def replace_step_def map_filter_simps split: route_netlink_message.split option.split)

lemma fold_insert_wf:
  "btm_wf m \<Longrightarrow> btm_wf (fold (\<lambda>r m. btm_insert (kf r) (vf r) m) rs m)"
  by (induction rs arbitrary: m) (simp_all add: btm_wf_insert)

lemma fold_insert_get:
  assumes "btm_wf m"
  shows "btm_get (fold (\<lambda>r m. btm_insert (kf r) (vf r) m) rs m) k
    = (case find (\<lambda>r. kf r = k) (rev rs) of Some r \<Rightarrow> Some (vf r) | None \<Rightarrow> btm_get m k)"
  using assms by (induction rs rule: rev_induct) (auto simp: btm_get_insert fold_insert_wf)

lemma dump_routes_key:
  "r \<in> set (dump_routes now sc f t dump) \<Longrightarrow> in_table f t (route_key sc r)"
  by (auto simp: dump_routes_def in_table_def route_key_def Let_def)

text \<open>
  Re-reading a table is exact: afterwards the view holds for the family and table precisely the
  routes of the dump (the last one of each identity), with the expiries already known, and every other
  route is untouched.
\<close>

theorem replace_table_exact:
  assumes "system_inv sc s"
  shows "btm_get (sy_routes (replace_table now sc f t dump s)) k =
    (if in_table f t k
     then map_option (keep_expiry now (known_expiry (sy_routes s) k))
            (last_with_key sc k (dump_routes now sc f t dump))
     else btm_get (sy_routes s) k)"
proof -
  have wf: "btm_wf (sy_routes s)" using assms by (simp add: system_inv_def keyed_def)
  let ?ex = "\<lambda>k. if in_table f t k then known_expiry (sy_routes s) k else None"
  let ?kept = "btm_retain (\<lambda>k _. \<not> in_table f t k) (sy_routes s)"
  have none: "find (\<lambda>r. route_key sc r = k) (rev (dump_routes now sc f t dump)) = None" if "\<not> in_table f t k"
    using dump_routes_key [of _ now sc f t dump] that by (auto simp: find_None_iff_mem)
  have key: "route_key sc r = k" if "find (\<lambda>r. route_key sc r = k) (rev (dump_routes now sc f t dump)) = Some r" for r
    using that by (auto dest: find_Some_iff_mem)
  have "btm_get (sy_routes (replace_table now sc f t dump s)) k =
      (case find (\<lambda>r. route_key sc r = k) (rev (dump_routes now sc f t dump)) of
         Some r \<Rightarrow> Some (keep_expiry now (?ex (route_key sc r)) r) | None \<Rightarrow> btm_get ?kept k)"
    by (simp add: replace_table_def Let_def fold_replace_step fold_insert_get btm_wf_retain wf)
  then show ?thesis
    using none key by (auto simp: last_with_key_def btm_get_retain wf split: option.splits)
qed

theorem replace_table_exact_witness:
  "btm_get (sy_routes (replace_table 0 \<lparr>polywan_tables = [], sc_discovery_tables = [254]\<rparr> V4 254 [] system_default))
     (V4, 254, None, 0, ViaOther) = None"
  by (subst replace_table_exact [OF system_default_inv])
    (simp add: dump_routes_def last_with_key_def map_filter_simps in_table_def)

section \<open>Stale entries\<close>

text \<open>
  The kernel's routes, by identity, and what a notification about a route outside the daemon's tables
  says of them, as the source documents it: a new route is added, or announced again with its next
  hops; a replacement may drop, without
  notice, other routes of the same destination and metric; a deletion removes the route it carries or,
  when it carries some next hops of a multipath route, shrinks that route (which does not make a route
  through a gateway a connected one). Appended routes merge into an existing one and are always
  re-read.
\<close>

type_synonym kernel_routes = "route_key \<Rightarrow> observed_route option"

definition erase :: "observed_route \<Rightarrow> observed_route" where
  "erase r = r\<lparr>ort_expires_at := None\<rparr>"

inductive kernel_step ::
  "scope \<Rightarrow> kernel_routes \<Rightarrow> observed_route \<Rightarrow> bool \<Rightarrow> bool \<Rightarrow> kernel_routes \<Rightarrow> bool" for sc where
  added: "\<lbrakk>\<forall>x. K (route_key sc r) = Some x \<longrightarrow> scope_keeps sc x \<longrightarrow> scope_keeps sc r\<rbrakk> \<Longrightarrow>
    kernel_step sc K r False False (K(route_key sc r \<mapsto> r))"
| replaced: "\<lbrakk>\<forall>k\<in>D. key_head k = key_head (route_key sc r)\<rbrakk> \<Longrightarrow>
    kernel_step sc K r False True ((\<lambda>k. if k \<in> D then None else K k)(route_key sc r \<mapsto> r))"
| deleted: "\<lbrakk>K (route_key sc r) = Some r'; erase r' = erase r\<rbrakk> \<Longrightarrow>
    kernel_step sc K r True rep (K(route_key sc r := None))"
| member_deleted: "\<lbrakk>K (route_key sc r) = None; key_head k = key_head (route_key sc r);
      K k = Some old; set (ort_nexthops r) \<subseteq> set (ort_nexthops old);
      \<forall>n. new = Some n \<longrightarrow> route_key sc n = k \<and> (scope_keeps sc n \<longrightarrow> scope_keeps sc old)\<rbrakk> \<Longrightarrow>
    kernel_step sc K r True rep (K(k := new))"

definition view_exact :: "scope \<Rightarrow> kernel_routes \<Rightarrow> system \<Rightarrow> bool" where
  "view_exact sc K s \<longleftrightarrow>
     (\<forall>k. map_option erase (btm_get (sy_routes s) k)
        = (case K k of Some r \<Rightarrow> if scope_keeps sc r then Some (erase r) else None | None \<Rightarrow> None))"

definition kernel_keyed :: "scope \<Rightarrow> kernel_routes \<Rightarrow> bool" where
  "kernel_keyed sc K \<longleftrightarrow> (\<forall>k r. K k = Some r \<longrightarrow> route_key sc r = k)"

lemma erase_expiry [simp]: "erase (keep_expiry now old r) = erase r"
  by (simp add: erase_def keep_expiry_def split: option.split)

lemma erase_keeps: "erase a = erase b \<Longrightarrow> scope_keeps sc a = scope_keeps sc b"
proof -
  have "scope_keeps sc (erase r) = scope_keeps sc r" for r
    by (simp add: erase_def scope_keeps_def is_default_def)
  then show "erase a = erase b \<Longrightarrow> scope_keeps sc a = scope_keeps sc b" by metis
qed

lemma key_head_route_key:
  "key_head (route_key sc r) = (ort_family r, ort_table r, ort_destination r, ort_metric r)"
  by (simp add: key_head_def route_key_def Let_def)

lemma keeps_member:
  assumes "key_head (route_key sc old) = key_head (route_key sc r)"
    and "set (ort_nexthops r) \<subseteq> set (ort_nexthops old)" and "scope_keeps sc old"
  shows "scope_keeps sc r"
  using assms by (auto simp: key_head_route_key scope_keeps_def is_default_def list_all_iff)

lemma view_exact_get:
  assumes "view_exact sc K s"
  shows "btm_contains (sy_routes s) k \<longleftrightarrow> (\<exists>r. K k = Some r \<and> scope_keeps sc r)"
proof -
  have "map_option erase (btm_get (sy_routes s) k)
      = (case K k of Some r \<Rightarrow> if scope_keeps sc r then Some (erase r) else None | None \<Rightarrow> None)"
    using assms unfolding view_exact_def by blast
  then show ?thesis by (auto simp: btm_contains_def split: option.splits if_splits)
qed

lemma apply_route_get:
  assumes "btm_wf (sy_routes s)"
  shows "map_option erase (btm_get (sy_routes (fst (apply_route now sc r d s))) k) =
    (if scope_keeps sc r \<and> k = route_key sc r then (if d then None else Some (erase r))
     else map_option erase (btm_get (sy_routes s) k))"
  using assms by (simp add: apply_route_def Let_def btm_get_insert btm_get_remove)

lemma not_stale_replaced:
  assumes "stale_after sc r False appended True s = None" and "\<not> is_polywan sc (ort_table r)"
    and "\<not> appended" and "view_exact sc K s" and "btm_wf (sy_routes s)"
    and "key_head k = key_head (route_key sc r)" and "K k = Some x" and "scope_keeps sc x"
  shows "k = route_key sc r \<and> scope_keeps sc r"
proof -
  have "btm_get (sy_routes s) k \<noteq> None"
    using view_exact_get [OF assms(4), of k] assms(7,8) by (auto simp: btm_contains_def)
  then have "k \<in> fst ` set (sy_routes s)" by (force dest: btm_get_in_set)
  with assms(1-3,6) show ?thesis
    by (auto simp: stale_after_def Let_def list_ex_iff split: if_splits)
qed

lemma stale_after_exact:
  assumes step: "kernel_step sc K r d rep K'" and inv: "system_inv sc s" and keyed: "kernel_keyed sc K"
    and exact: "view_exact sc K s" and foreign: "\<not> is_polywan sc (ort_table r)"
    and fresh: "stale_after sc r d False rep s = None"
  shows "view_exact sc K' (fst (apply_route now sc r d s))"
proof -
  have wf: "btm_wf (sy_routes s)" using inv by (simp add: system_inv_def keyed_def)
  have view: "map_option erase (btm_get (sy_routes s) k)
      = (case K k of Some x \<Rightarrow> if scope_keeps sc x then Some (erase x) else None | None \<Rightarrow> None)" for k
    using exact unfolding view_exact_def by blast
  from step show ?thesis
  proof cases
    case added
    then show ?thesis
      by (auto simp: view_exact_def apply_route_get [OF wf] view split: option.splits if_splits)
  next
    case (replaced D)
    have "K k = Some x \<Longrightarrow> scope_keeps sc x \<Longrightarrow> k \<in> D \<Longrightarrow> k = route_key sc r \<and> scope_keeps sc r" for k x
      using not_stale_replaced [OF _ foreign _ exact wf] fresh replaced by blast
    moreover have "K (route_key sc r) = Some x \<Longrightarrow> scope_keeps sc x \<Longrightarrow> scope_keeps sc r" for x
      using not_stale_replaced [OF _ foreign _ exact wf] fresh replaced by blast
    ultimately show ?thesis
      using replaced by (auto simp: view_exact_def apply_route_get [OF wf] view split: option.splits if_splits)
  next
    case (deleted r')
    then show ?thesis
      using erase_keeps [of r' r sc]
      by (auto simp: view_exact_def apply_route_get [OF wf] view split: option.splits if_splits)
  next
    case (member_deleted k old new)
    have "\<not> scope_keeps sc r"
      using fresh foreign member_deleted view_exact_get [OF exact, of "route_key sc r"]
      by (auto simp: stale_after_def Let_def split: if_splits)
    moreover have "route_key sc old = k" using keyed member_deleted unfolding kernel_keyed_def by blast
    ultimately have "\<not> scope_keeps sc old"
      using keeps_member [of sc old r] member_deleted by blast
    with member_deleted \<open>\<not> scope_keeps sc r\<close> show ?thesis
      by (auto simp: view_exact_def apply_route_get [OF wf] view split: option.splits if_splits)
  qed
qed


definition example_default_route :: "u32 \<Rightarrow> observed_route" where
  "example_default_route n =
     \<lparr>ort_family = V4, ort_table = 254, ort_protocol = 4, ort_metric = 0, ort_destination = None,
      ort_kind = Unicast, ort_source = None,
      ort_nexthops = [\<lparr>oh_ifindex = n, oh_gateway = Some (IpV4 n), oh_weight = 1, oh_onlink = False,
        oh_dead = False, oh_linkdown = False\<rparr>],
      ort_nexthop_id = None, ort_preference = 0, ort_expires_at = None,
      ort_message = default_route example_defaults\<rparr>"


end
