(* ===== verification/Reconcile.thy ===== *)
theory Reconcile
  imports System_View
begin

text \<open>
  The reconciler (\<open>reconcile.rs\<close>): the ordered operations that take the observed artifacts to
  the desired ones, and their execution. The kernel behind the netlink socket is a parameter:
  \<open>mutate\<close> takes a message, its flags and the kernel's state and returns the new state with the
  acknowledgement. The failure hooks of \<open>test_hooks.rs\<close> are those of a release build: they
  let every step pass.
\<close>

section \<open>Operations\<close>

datatype op =
    ReplaceRoute route
  | AddRule rule
  | ApplyNft
  | DeleteRule observed_rule
  | DeleteRoute family u32 u8

fun show_kind :: "rule_kind \<Rightarrow> string" where
  "show_kind (ProbeLookup i) = ''ProbeLookup(UplinkId('' @ show_nat (unat (id_get i)) @ ''))''"
| "show_kind ProbeGuard = ''ProbeGuard''"
| "show_kind MainBypass = ''MainBypass''"
| "show_kind (PathLookup i) = ''PathLookup(UplinkId('' @ show_nat (unat (id_get i)) @ ''))''"
| "show_kind PathGuard = ''PathGuard''"
| "show_kind (PolicyBalanceLookup i) =
     ''PolicyBalanceLookup(UplinkId('' @ show_nat (unat (id_get i)) @ ''))''"
| "show_kind (PolicyBlockLookup i) =
     ''PolicyBlockLookup(UplinkId('' @ show_nat (unat (id_get i)) @ ''))''"
| "show_kind PolicyBlockGuard = ''PolicyBlockGuard''"
| "show_kind (SourceLookup i) = ''SourceLookup(UplinkId('' @ show_nat (unat (id_get i)) @ ''))''"
| "show_kind SourceGuard = ''SourceGuard''"
| "show_kind BalanceRule = ''Balance''"
| "show_kind FinalGuard = ''FinalGuard''"

fun show_op :: "op \<Rightarrow> string" where
  "show_op (ReplaceRoute r) =
     ''replace '' @ family_key (rt_family r) @ '' route of table '' @ show_nat (unat (rt_table r))"
| "show_op (AddRule r) =
     ''add '' @ family_key (r_family r) @ '' rule '' @ show_nat (unat (r_priority r)) @ '' (''
     @ show_kind (r_kind r) @ '')''"
| "show_op ApplyNft = ''apply the nftables table''"
| "show_op (DeleteRule r) =
     ''delete '' @ family_key (or_family r) @ '' rule '' @ show_nat (unat (or_priority r))"
| "show_op (DeleteRoute f t _) =
     ''delete '' @ family_key f @ '' route of table '' @ show_nat (unat t)"

section \<open>Roles and orders\<close>

definition id_at :: "u32 \<Rightarrow> u32 \<Rightarrow> uplink_id option" where
  "id_at off base = (if unat (off - base) < 256 then uplink_id_new (ucast (off - base)) else None)"

definition classify :: "layout \<Rightarrow> u32 \<Rightarrow> rule_kind option" where
  "classify l priority =
     (case checked_sub priority (l_priority_base l) of
        None \<Rightarrow> None
      | Some off \<Rightarrow>
          if in_range 1 63 off then map_option ProbeLookup (id_at off 0)
          else if off = 64 then Some ProbeGuard
          else if off = 100 then Some MainBypass
          else if in_range 201 263 off then map_option PathLookup (id_at off 200)
          else if off = 264 then Some PathGuard
          else if in_range 301 363 off then map_option PolicyBalanceLookup (id_at off 300)
          else if in_range 401 463 off then map_option PolicyBlockLookup (id_at off 400)
          else if off = 464 then Some PolicyBlockGuard
          else if in_range 501 563 off then map_option SourceLookup (id_at off 500)
          else if off = 564 then Some SourceGuard
          else if off = 600 then Some BalanceRule
          else if off = 699 then Some FinalGuard
          else None)"

fun install_rank :: "rule_kind \<Rightarrow> nat" where
  "install_rank ProbeGuard = 0"
| "install_rank PathGuard = 0"
| "install_rank PolicyBlockGuard = 0"
| "install_rank (ProbeLookup _) = 1"
| "install_rank MainBypass = 2"
| "install_rank (PathLookup _) = 3"
| "install_rank (PolicyBalanceLookup _) = 4"
| "install_rank (PolicyBlockLookup _) = 4"
| "install_rank (SourceLookup _) = 5"
| "install_rank SourceGuard = 5"
| "install_rank BalanceRule = 6"
| "install_rank FinalGuard = 7"

fun removal_rank :: "rule_kind option \<Rightarrow> nat" where
  "removal_rank None = 4"
| "removal_rank (Some FinalGuard) = 0"
| "removal_rank (Some BalanceRule) = 1"
| "removal_rank (Some (SourceLookup _)) = 2"
| "removal_rank (Some SourceGuard) = 2"
| "removal_rank (Some (PolicyBalanceLookup _)) = 3"
| "removal_rank (Some (PolicyBlockLookup _)) = 3"
| "removal_rank (Some (PathLookup _)) = 4"
| "removal_rank (Some MainBypass) = 5"
| "removal_rank (Some (ProbeLookup _)) = 6"
| "removal_rank (Some ProbeGuard) = 7"
| "removal_rank (Some PathGuard) = 7"
| "removal_rank (Some PolicyBlockGuard) = 7"

definition install_key :: "rule \<Rightarrow> nat \<times> ip_addr option \<times> nat \<times> family \<times> u32" where
  "install_key r =
     (install_rank (r_kind r), r_source r, if r_kind r = SourceGuard then 1 else 0, r_family r,
      r_priority r)"

text \<open>\<open>Reverse\<close> on the priority is the order of its negation.\<close>

definition removal_key ::
  "layout \<Rightarrow> observed_rule \<Rightarrow> nat \<times> (ip_addr \<times> u8) option \<times> nat \<times> family \<times> int" where
  "removal_key l ob =
     (let kind = classify l (or_priority ob)
      in (removal_rank kind, or_source ob, if kind \<noteq> Some SourceGuard then 1 else 0, or_family ob,
          - int (unat (or_priority ob))))"

section \<open>diff\<close>

definition observed_rules :: "system \<Rightarrow> layout \<Rightarrow> u8 \<Rightarrow> observed_rule list" where
  "observed_rules s l protocol =
     filter (\<lambda>r. or_protocol r = protocol \<and> in_priorities l (or_priority r)) (sy_rules s)"

definition route_present :: "system \<Rightarrow> u8 \<Rightarrow> route \<Rightarrow> bool" where
  "route_present s protocol r \<longleftrightarrow>
     list_ex (\<lambda>ob. ort_protocol ob = protocol \<and> as_planned ob = Some r)
       (routes_in s (rt_family r) (rt_table r))"

definition observed_tables :: "system \<Rightarrow> layout \<Rightarrow> u8 \<Rightarrow> (family \<times> u32) set" where
  "observed_tables s l protocol =
     (\<lambda>r. (ort_family r, ort_table r)) ` set (filter
       (\<lambda>r. ort_protocol r = protocol \<and> in_tables l (ort_table r) \<and> as_planned r \<noteq> None)
       (map snd (sy_routes s)))"

record diff_input =
  di_layout :: layout
  di_protocol :: u8
  di_families :: "family list"
  di_before_nft :: desired
  di_desired :: desired
  di_nft_pending :: bool

definition early_tables :: "system \<Rightarrow> diff_input \<Rightarrow> (family \<times> u32) list" where
  "early_tables s d =
     filter (\<lambda>k. \<not> is_path_table (di_layout d) (snd k) \<and> \<not> btm_contains (d_routes (di_before_nft d)) k)
       (iter_set (observed_tables s (di_layout d) (di_protocol d)))"

definition late_tables :: "system \<Rightarrow> diff_input \<Rightarrow> (family \<times> u32) list" where
  "late_tables s d =
     filter (\<lambda>k. is_path_table (di_layout d) (snd k) \<and> \<not> btm_contains (d_routes (di_desired d)) k)
       (iter_set (observed_tables s (di_layout d) (di_protocol d)))"

definition still_used :: "diff_input \<Rightarrow> family \<times> u32 \<Rightarrow> bool" where
  "still_used d k \<longleftrightarrow>
     (\<exists>r\<in>d_rules (di_desired d). r_family r = fst k \<and> r_action r = Lookup (snd k))"

definition rules_to_add :: "system \<Rightarrow> diff_input \<Rightarrow> rule list" where
  "rules_to_add s d =
     (let observed = observed_rules s (di_layout d) (di_protocol d)
      in sort_key install_key
           (filter (\<lambda>r. \<not> list_ex (\<lambda>ob. observed_rule_is ob r (di_protocol d)) observed)
             (iter_set (d_rules (di_desired d)))))"

definition rules_to_delete :: "system \<Rightarrow> diff_input \<Rightarrow> observed_rule list" where
  "rules_to_delete s d =
     (let observed = observed_rules s (di_layout d) (di_protocol d)
      in sort_key (removal_key (di_layout d))
           (filter (\<lambda>ob. \<not> (\<exists>r\<in>d_rules (di_desired d). observed_rule_is ob r (di_protocol d)))
             (filter (\<lambda>ob. or_family ob \<in> set (di_families d) \<or>
                           \<not> (\<exists>r\<in>d_rules (di_desired d). r_family r = or_family ob))
               observed)))"

definition delete_route :: "u8 \<Rightarrow> family \<times> u32 \<Rightarrow> op" where
  "delete_route protocol k = DeleteRoute (fst k) (snd k) protocol"

definition diff :: "system \<Rightarrow> diff_input \<Rightarrow> op list" where
  "diff s d =
     (let protocol = di_protocol d;
          early = early_tables s d;
          withdrawn = filter (still_used d) (late_tables s d);
          late = filter (\<lambda>k. \<not> still_used d k) (late_tables s d)
      in map ReplaceRoute
           (filter (\<lambda>r. \<not> route_present s protocol r) (map snd (d_routes (di_before_nft d))))
         @ map (delete_route protocol) (early @ withdrawn)
         @ map AddRule (rules_to_add s d)
         @ (if di_nft_pending d then [ApplyNft] else [])
         @ map ReplaceRoute
             (map snd (filter
               (\<lambda>(k, r). btm_get (d_routes (di_before_nft d)) k \<noteq> Some r \<and>
                          (k \<in> set early \<or> \<not> route_present s protocol r))
               (d_routes (di_desired d))))
         @ map DeleteRule (rules_to_delete s d)
         @ map (delete_route protocol) late)"

section \<open>Cleanup\<close>

definition has_role :: "layout \<Rightarrow> observed_rule \<Rightarrow> bool" where
  "has_role l ob =
     (case classify l (or_priority ob) of
        None \<Rightarrow> False
      | Some kind \<Rightarrow>
          let shaped = (\<lambda>r. r_kind r = kind \<and> observed_rule_is ob r (or_protocol ob))
          in (case (kind, or_source ob) of
                (SourceLookup i, Some (a, _)) \<Rightarrow> list_ex shaped (source_rules l (or_family ob) i a)
              | (SourceGuard, Some (a, _)) \<Rightarrow>
                  (case uplink_id_new 1 of
                     None \<Rightarrow> False
                   | Some i \<Rightarrow> list_ex shaped (source_rules l (or_family ob) i a))
              | _ \<Rightarrow> list_ex shaped (static_rules l (or_family ob) uplink_id_all)))"

definition owning_layout :: "(layout \<times> u8) list \<Rightarrow> observed_rule \<Rightarrow> layout option" where
  "owning_layout layouts ob =
     (let owners = map fst (filter (\<lambda>(l, p). or_protocol ob = p \<and> in_priorities l (or_priority ob)) layouts)
      in case owners of
           [] \<Rightarrow> None
         | first # _ \<Rightarrow> (case find (\<lambda>l. has_role l ob) owners of Some l \<Rightarrow> Some l | None \<Rightarrow> Some first))"

definition teardown :: "system \<Rightarrow> (layout \<times> u8) list \<Rightarrow> op list" where
  "teardown s layouts =
     (let rules = List.map_filter
            (\<lambda>ob. map_option (\<lambda>l. (removal_key l ob, ob)) (owning_layout layouts ob)) (sy_rules s);
          routes = (\<Union>(l, p)\<in>set layouts. (\<lambda>(f, t). (p, f, t)) ` observed_tables s l p)
      in map (\<lambda>x. DeleteRule (snd x)) (sort_key fst rules)
         @ map (\<lambda>(p, f, t). DeleteRoute f t p) (iter_set routes))"

section \<open>Execution\<close>

datatype failure_kind = FailRoute | FailRule | FailNftables | FailSysctl

fun failure_kind_str :: "failure_kind \<Rightarrow> string" where
  "failure_kind_str FailRoute = ''route''"
| "failure_kind_str FailRule = ''rule''"
| "failure_kind_str FailNftables = ''nftables''"
| "failure_kind_str FailSysctl = ''sysctl''"

record kernel_error =
  ke_errno :: int
  ke_extack :: "string option"

text \<open>The diagnostic text of the error for the log is left out of a failure.\<close>

record failure =
  fa_op :: string
  fa_kind :: failure_kind
  fa_errno :: "int option"
  fa_extack :: "string option"
  fa_route :: "(family \<times> u32) option"

datatype mutation = Create | Replace | Delete

definition ENOENT :: int where "ENOENT = 2"
definition ESRCH :: int where "ESRCH = 3"
definition EEXIST :: int where "EEXIST = 17"

fun op_kind :: "op \<Rightarrow> failure_kind" where
  "op_kind (ReplaceRoute _) = FailRoute"
| "op_kind (DeleteRoute _ _ _) = FailRoute"
| "op_kind (AddRule _) = FailRule"
| "op_kind (DeleteRule _) = FailRule"
| "op_kind ApplyNft = FailNftables"

fun op_route :: "op \<Rightarrow> (family \<times> u32) option" where
  "op_route (ReplaceRoute r) = Some (rt_family r, rt_table r)"
| "op_route _ = None"

text \<open>The message, the flags and the tolerated errors of an operation; the nftables step has none.\<close>

fun netlink_op ::
  "netlink_defaults \<Rightarrow> u8 \<Rightarrow> op \<Rightarrow> (route_netlink_message \<times> mutation \<times> int list) option" where
  "netlink_op nd protocol (ReplaceRoute r) =
     Some (NewRoute (route_message nd r protocol), Replace, [])"
| "netlink_op nd protocol (AddRule r) = Some (NewRule (rule_message nd r protocol), Create, [EEXIST])"
| "netlink_op nd protocol (DeleteRule ob) = Some (DelRule (or_message ob), Delete, [ENOENT])"
| "netlink_op nd protocol (DeleteRoute f t p) =
     Some (DelRoute (route_delete_key nd f t p), Delete, [ESRCH, ENOENT])"
| "netlink_op nd protocol ApplyNft = None"

type_synonym 'k client = "route_netlink_message \<Rightarrow> mutation \<Rightarrow> 'k \<Rightarrow> 'k \<times> (kernel_error + unit)"

record 'k exec_env =
  ex_defaults :: netlink_defaults
  ex_flags_of :: "u8 \<Rightarrow> address_flag set"
  ex_scope :: scope
  ex_protocol :: u8
  ex_now :: instant
  ex_mutate :: "'k client"

fun execute :: "'k exec_env \<Rightarrow> op list \<Rightarrow> system \<Rightarrow> 'k \<Rightarrow> system \<times> 'k \<times> (failure + bool)" where
  "execute env [] s k = (s, k, Inr False)"
| "execute env (x # xs) s k =
     (case netlink_op (ex_defaults env) (ex_protocol env) x of
        None \<Rightarrow> (s, k, Inr True)
      | Some (m, kind, tolerated) \<Rightarrow>
          (case ex_mutate env m kind k of
             (k', Inl e) \<Rightarrow>
               if ke_errno e \<in> set tolerated
               then execute env xs
                      (fst (apply_rtnl (ex_now env) (ex_flags_of env) (ex_scope env) m s)) k'
               else (s, k', Inl \<lparr>fa_op = show_op x, fa_kind = op_kind x, fa_errno = Some (ke_errno e),
                                 fa_extack = ke_extack e, fa_route = op_route x\<rparr>)
           | (k', Inr _) \<Rightarrow>
               execute env xs (fst (apply_rtnl (ex_now env) (ex_flags_of env) (ex_scope env) m s)) k'))"

section \<open>Roles\<close>

definition nat_id :: "nat \<Rightarrow> uplink_id" where
  "nat_id n = UplinkId (of_nat n)"

lemma unat_nat_id: "n \<le> 63 \<Longrightarrow> unat (id_get (nat_id n)) = n"
  by (simp add: nat_id_def unat_of_nat_small)

lemma valid_nat_id: "1 \<le> n \<Longrightarrow> n \<le> 63 \<Longrightarrow> valid_id (nat_id n)"
  by (simp add: valid_id_unat unat_nat_id)

lemma nat_id_unat [simp]: "nat_id (unat (id_get i)) = i"
  by (cases i) (simp add: nat_id_def)

lemma id_at_nat:
  assumes "unat base < unat off" and "unat off \<le> unat base + 63"
  shows "id_at off base = Some (nat_id (unat off - unat base))"
proof -
  define n where "n = unat off - unat base"
  have n: "1 \<le> n" "n \<le> 63" using assms by (auto simp: n_def)
  have sub: "unat (off - base) = n"
    using assms by (simp add: n_def unat_sub word_le_iff_unat)
  have "ucast (off - base) = (of_nat n :: u8)"
    using sub n by (simp add: word_unat_eq_iff unsigned_ucast_eq take_bit_eq_mod unat_of_nat_small)
  then have "id_at off base = uplink_id_new (of_nat n)" using sub n by (simp add: id_at_def)
  also have "\<dots> = Some (nat_id n)"
    using valid_nat_id [OF n] by (simp add: uplink_id_new_def valid_id_def nat_id_def)
  finally show ?thesis by (simp add: n_def)
qed

lemma classify_nat:
  assumes "unat p = unat (l_priority_base l) + n" and "n \<le> 699"
  shows "classify l p =
    (if 1 \<le> n \<and> n \<le> 63 then Some (ProbeLookup (nat_id n))
     else if n = 64 then Some ProbeGuard
     else if n = 100 then Some MainBypass
     else if 201 \<le> n \<and> n \<le> 263 then Some (PathLookup (nat_id (n - 200)))
     else if n = 264 then Some PathGuard
     else if 301 \<le> n \<and> n \<le> 363 then Some (PolicyBalanceLookup (nat_id (n - 300)))
     else if 401 \<le> n \<and> n \<le> 463 then Some (PolicyBlockLookup (nat_id (n - 400)))
     else if n = 464 then Some PolicyBlockGuard
     else if 501 \<le> n \<and> n \<le> 563 then Some (SourceLookup (nat_id (n - 500)))
     else if n = 564 then Some SourceGuard
     else if n = 600 then Some BalanceRule
     else if n = 699 then Some FinalGuard
     else None)"
proof -
  define off where "off = p - l_priority_base l"
  have le: "l_priority_base l \<le> p" using assms(1) by (simp add: word_le_iff_unat)
  have n: "unat off = n" using assms(1) le by (simp add: off_def unat_sub word_le_iff_unat)
  have eqs: "off = 64 \<longleftrightarrow> n = 64" "off = 100 \<longleftrightarrow> n = 100" "off = 264 \<longleftrightarrow> n = 264" "off = 464 \<longleftrightarrow> n = 464"
    "off = 564 \<longleftrightarrow> n = 564" "off = 600 \<longleftrightarrow> n = 600" "off = 699 \<longleftrightarrow> n = 699"
    by (simp_all add: word_unat_eq_iff n)
  have rng: "in_range 1 63 off \<longleftrightarrow> 1 \<le> n \<and> n \<le> 63" "in_range 201 263 off \<longleftrightarrow> 201 \<le> n \<and> n \<le> 263"
    "in_range 301 363 off \<longleftrightarrow> 301 \<le> n \<and> n \<le> 363" "in_range 401 463 off \<longleftrightarrow> 401 \<le> n \<and> n \<le> 463"
    "in_range 501 563 off \<longleftrightarrow> 501 \<le> n \<and> n \<le> 563"
    by (simp_all add: in_range_def word_le_iff_unat n)
  have ids: "1 \<le> n \<and> n \<le> 63 \<Longrightarrow> id_at off 0 = Some (nat_id n)"
    "201 \<le> n \<and> n \<le> 263 \<Longrightarrow> id_at off 200 = Some (nat_id (n - 200))"
    "301 \<le> n \<and> n \<le> 363 \<Longrightarrow> id_at off 300 = Some (nat_id (n - 300))"
    "401 \<le> n \<and> n \<le> 463 \<Longrightarrow> id_at off 400 = Some (nat_id (n - 400))"
    "501 \<le> n \<and> n \<le> 563 \<Longrightarrow> id_at off 500 = Some (nat_id (n - 500))"
    using id_at_nat [of 0 off] id_at_nat [of 200 off] id_at_nat [of 300 off] id_at_nat [of 400 off]
      id_at_nat [of 500 off] by (simp_all add: n)
  have "checked_sub p (l_priority_base l) = Some off" by (simp add: checked_sub_def le off_def)
  then show ?thesis by (simp add: classify_def eqs rng ids)
qed

lemma classify_kind:
  assumes "unat p = unat (l_priority_base l) + kind_offset k" and "pred_option valid_id (kind_uplink k)"
  shows "classify l p = Some k"
  using assms(2) classify_nat [OF assms(1) kind_offset_bound [OF assms(2)]]
  by (cases k) (simp_all add: valid_id_unat)

lemma classify_Some:
  assumes "classify l p = Some k" and "unat p = unat (l_priority_base l) + n" and "n \<le> 699"
  shows "n = kind_offset k \<and> pred_option valid_id (kind_uplink k)"
  using assms(1) unfolding classify_nat [OF assms(2,3)]
  by (auto simp: unat_nat_id valid_nat_id split: if_splits)

text \<open>
  C24. The role read back from a priority is the role it was planned with: every rule of a plan is
  classified as its own kind, and a priority of the owned range has a role only if it is the
  priority of that role.
\<close>

theorem classify_planned:
  assumes "config_wf c"
  shows "(r \<in> d_rules (plan c i) \<longrightarrow> classify (layout_of c) (r_priority r) = Some (r_kind r))
    \<and> (in_priorities (layout_of c) p \<and> classify (layout_of c) p = Some k \<longrightarrow>
        unat p = unat (l_priority_base (layout_of c)) + kind_offset k)"
proof (intro conjI impI)
  assume "r \<in> d_rules (plan c i)"
  then show "classify (layout_of c) (r_priority r) = Some (r_kind r)"
    using family_rules_shape [OF assms] by (auto simp: plan_rules rule_shape_def intro!: classify_kind)
next
  let ?l = "layout_of c"
  assume p: "in_priorities ?l p \<and> classify ?l p = Some k"
  define n where "n = unat p - unat (l_priority_base ?l)"
  have "unat p = unat (l_priority_base ?l) + n" "n \<le> 699"
    using p priority_one [OF layout_ok_of [OF assms], of 699]
    by (auto simp: n_def in_priorities_def in_range_def word_le_iff_unat)
  with p classify_Some [of ?l p k n] show "unat p = unat (l_priority_base ?l) + kind_offset k" by simp
qed

theorem classify_planned_witness:
  "classify (layout_of example_config) 10699 = Some FinalGuard
   \<and> unat (10699 :: u32) = unat (l_priority_base (layout_of example_config)) + kind_offset FinalGuard"
proof -
  have base: "l_priority_base (layout_of example_config) = 10000"
    by (simp add: layout_of_def example_config_def)
  have "classify (layout_of example_config) 10699 = Some FinalGuard"
    by (rule classify_kind) (simp_all add: base)
  moreover have "in_priorities (layout_of example_config) 10699"
    by (simp add: in_priorities_def in_range_def base)
  ultimately show ?thesis using classify_planned [OF example_config_wf] by blast
qed

end
