(* ===== verification/Convergence.thy ===== *)
theory Convergence
  imports Reconcile
begin

text \<open>
  What a pass of the reconciler achieves. On an abstraction of the view (the planned form of the
  default route of each owned table, and the rules up to identity) every operation is a map or list
  update; from this follow the convergence of a pass, its behaviour when the kernel refuses an
  operation, the order in which rules appear, and the exactness of cleanup.
\<close>

section \<open>What an operation does to the view\<close>

text \<open>
  The routes of the view as the reconciler sees them: for a table, the planned form of the default
  route with the daemon's metric and protocol. On this abstraction an operation is a map update.
\<close>

definition planned_key :: "family \<Rightarrow> u32 \<Rightarrow> route_key" where
  "planned_key f t = (f, t, None, ROUTE_METRIC, ViaPolywan)"

definition abs_routes :: "u8 \<Rightarrow> system \<Rightarrow> family \<times> u32 \<Rightarrow> route option" where
  "abs_routes protocol s k =
     (case btm_get (sy_routes s) (planned_key (fst k) (snd k)) of
        Some ob \<Rightarrow> if ort_protocol ob = protocol then as_planned ob else None
      | None \<Rightarrow> None)"

definition scope_covers :: "scope \<Rightarrow> layout \<Rightarrow> bool" where
  "scope_covers sc l \<longleftrightarrow> (\<forall>t. in_tables l t \<longrightarrow> is_polywan sc t)"

definition apply_op :: "'k exec_env \<Rightarrow> op \<Rightarrow> system \<Rightarrow> system" where
  "apply_op env x s =
     (case netlink_op (ex_defaults env) (ex_protocol env) x of
        None \<Rightarrow> s
      | Some (m, _) \<Rightarrow> fst (apply_rtnl (ex_now env) (ex_flags_of env) (ex_scope env) m s))"

lemma as_planned_shape:
  assumes "as_planned ob = Some x"
  shows "rt_family x = ort_family ob \<and> rt_table x = ort_table ob \<and> ort_destination ob = None
    \<and> ort_metric ob = ROUTE_METRIC"
  using assms
  by (cases "ort_destination ob") (auto simp: as_planned_def is_default_def Let_def split: if_splits)

lemma as_planned_key:
  assumes "as_planned ob = Some x" and "is_polywan sc (ort_table ob)"
  shows "route_key sc ob = planned_key (ort_family ob) (ort_table ob)"
  using as_planned_shape [OF assms(1)] assms(2) by (simp add: route_key_def planned_key_def Let_def)

lemma view_key:
  assumes "system_inv sc s" and "btm_get (sy_routes s) k = Some ob"
  shows "k = route_key sc ob"
  using assms unfolding system_inv_def keyed_def by blast

lemma view_route_mem:
  assumes "system_inv sc s"
  shows "ob \<in> set (map snd (sy_routes s)) \<longleftrightarrow> btm_get (sy_routes s) (route_key sc ob) = Some ob"
proof -
  have wf: "btm_wf (sy_routes s)" using assms unfolding system_inv_def keyed_def by blast
  show ?thesis
  proof
    assume "ob \<in> set (map snd (sy_routes s))"
    then obtain k where "(k, ob) \<in> set (sy_routes s)" by auto
    then have "btm_get (sy_routes s) k = Some ob" by (simp only: btm_get_Some_mem [OF wf])
    with view_key [OF assms this] show "btm_get (sy_routes s) (route_key sc ob) = Some ob" by simp
  next
    assume "btm_get (sy_routes s) (route_key sc ob) = Some ob"
    then have "(route_key sc ob, ob) \<in> set (sy_routes s)" by (simp only: btm_get_Some_mem [OF wf])
    then show "ob \<in> set (map snd (sy_routes s))" by force
  qed
qed

lemma view_planned:
  assumes "system_inv sc s" and "is_polywan sc t"
  shows "(\<exists>ob\<in>set (map snd (sy_routes s)). ort_protocol ob = p \<and> ort_family ob = f \<and> ort_table ob = t
      \<and> as_planned ob = Some x)
    \<longleftrightarrow> abs_routes p s (f, t) = Some x"
proof
  assume "\<exists>ob\<in>set (map snd (sy_routes s)). ort_protocol ob = p \<and> ort_family ob = f \<and> ort_table ob = t
      \<and> as_planned ob = Some x"
  then obtain ob where "ob \<in> set (map snd (sy_routes s))" "ort_protocol ob = p" "ort_family ob = f"
    "ort_table ob = t" "as_planned ob = Some x" by blast
  then show "abs_routes p s (f, t) = Some x"
    using view_route_mem [OF assms(1), of ob] as_planned_key [of ob x sc] assms(2)
    by (auto simp: abs_routes_def)
next
  assume "abs_routes p s (f, t) = Some x"
  then obtain ob where ob: "btm_get (sy_routes s) (planned_key f t) = Some ob" "ort_protocol ob = p"
    "as_planned ob = Some x"
    by (auto simp: abs_routes_def split: option.splits if_splits)
  have key: "planned_key f t = route_key sc ob" using view_key [OF assms(1) ob(1)] .
  then have "ort_family ob = f" "ort_table ob = t"
    by (auto simp: planned_key_def route_key_def Let_def)
  moreover have "ob \<in> set (map snd (sy_routes s))"
    using view_route_mem [OF assms(1), of ob] ob(1) key by simp
  ultimately show "\<exists>ob\<in>set (map snd (sy_routes s)). ort_protocol ob = p \<and> ort_family ob = f \<and> ort_table ob = t
      \<and> as_planned ob = Some x" using ob by blast
qed

lemma route_present_abs:
  assumes "system_inv sc s" and "is_polywan sc (rt_table r)"
  shows "route_present s p r \<longleftrightarrow> abs_routes p s (rt_family r, rt_table r) = Some r"
  using view_planned [OF assms, of p "rt_family r" r]
  by (auto simp: route_present_def routes_in_def list_ex_iff)

lemma observed_tables_iff:
  "(f, t) \<in> observed_tables s l p \<longleftrightarrow> in_tables l t \<and>
     (\<exists>x. \<exists>ob\<in>set (map snd (sy_routes s)). ort_protocol ob = p \<and> ort_family ob = f \<and> ort_table ob = t
        \<and> as_planned ob = Some x)"
  unfolding observed_tables_def set_filter image_iff by blast

lemma observed_tables_abs:
  assumes "system_inv sc s" and "scope_covers sc l"
  shows "(f, t) \<in> observed_tables s l p \<longleftrightarrow> in_tables l t \<and> abs_routes p s (f, t) \<noteq> None"
proof (cases "in_tables l t")
  case True
  then have "is_polywan sc t" using assms(2) by (simp add: scope_covers_def)
  from view_planned [OF assms(1) this, of p f] True show ?thesis
    unfolding observed_tables_iff by simp
qed (simp add: observed_tables_iff)

lemma finite_observed_tables: "finite (observed_tables s l p)"
  by (simp add: observed_tables_def)

lemma as_planned_expiry [simp]: "as_planned (keep_expiry now old r) = as_planned r"
  by (simp add: keep_expiry_def as_planned_def is_default_def Let_def split: option.split)

lemma protocol_expiry [simp]: "ort_protocol (keep_expiry now old r) = ort_protocol r"
  by (simp add: keep_expiry_def split: option.split)

definition routes_wf :: "layout \<Rightarrow> desired \<Rightarrow> bool" where
  "routes_wf l d \<longleftrightarrow> btm_wf (d_routes d) \<and>
     (\<forall>k r. btm_get (d_routes d) k = Some r \<longrightarrow>
        k = (rt_family r, rt_table r) \<and> in_tables l (rt_table r) \<and> route_shape r)"

definition rules_wf :: "layout \<Rightarrow> desired \<Rightarrow> bool" where
  "rules_wf l d \<longleftrightarrow> finite (d_rules d) \<and> (\<forall>r\<in>d_rules d. in_priorities l (r_priority r))"

definition env_ok :: "'k exec_env \<Rightarrow> layout \<Rightarrow> bool" where
  "env_ok env l \<longleftrightarrow> netlink_defaults_ok (ex_defaults env) \<and> scope_covers (ex_scope env) l"

lemma apply_op_inv: "system_inv (ex_scope env) s \<Longrightarrow> system_inv (ex_scope env) (apply_op env x s)"
  by (cases x) (auto simp: apply_op_def intro: apply_route_inv apply_rule_inv split: option.split)

lemma fold_apply_op_inv:
  "system_inv (ex_scope env) s \<Longrightarrow> system_inv (ex_scope env) (fold (apply_op env) xs s)"
  by (induction xs arbitrary: s) (auto intro: apply_op_inv)

lemma abs_routes_apply_route:
  assumes "system_inv sc s" and "is_polywan sc (ort_table ob)" and "ort_destination ob = None"
    and "ort_metric ob = ROUTE_METRIC"
  shows "abs_routes p (fst (apply_route now sc ob deleted s)) =
    (abs_routes p s)((ort_family ob, ort_table ob) :=
       if deleted then None else if ort_protocol ob = p then as_planned ob else None)"
proof -
  have wf: "btm_wf (sy_routes s)" using assms(1) by (simp add: system_inv_def keyed_def)
  have key: "route_key sc ob = planned_key (ort_family ob) (ort_table ob)"
    using assms by (simp add: route_key_def planned_key_def Let_def)
  have keeps: "scope_keeps sc ob" using assms(2) by (simp add: scope_keeps_def)
  have inj: "planned_key a b = planned_key f t \<longleftrightarrow> a = f \<and> b = t" for a b f t
    by (simp add: planned_key_def)
  show ?thesis
  proof (rule ext)
    fix k :: "family \<times> u32"
    obtain f t where k: "k = (f, t)" by (cases k)
    show "abs_routes p (fst (apply_route now sc ob deleted s)) k =
      ((abs_routes p s)((ort_family ob, ort_table ob) :=
         if deleted then None else if ort_protocol ob = p then as_planned ob else None)) k"
      by (simp add: k abs_routes_def apply_route_def keeps key Let_def btm_get_insert btm_get_remove wf inj)
  qed
qed

lemma abs_routes_apply_rule [simp]: "abs_routes p (fst (apply_rule m deleted s)) = abs_routes p s"
  by (rule ext) (simp add: abs_routes_def apply_rule_def split: option.split)

lemma parse_protocol: "observed_route_parse now m = Some ob \<Longrightarrow> ort_protocol ob = rtm_protocol m"
  by (cases "family_of_af (rtm_family m)") (auto simp: observed_route_parse_def Let_def)

lemma route_message_protocol: "rtm_protocol (route_message nd r p) = p"
  by (simp add: route_message_def route_header_def Let_def split: option.split list.split)

lemma abs_routes_replace:
  assumes "env_ok env l" and "system_inv (ex_scope env) s" and "in_tables l (rt_table r)" and "route_shape r"
  shows "abs_routes (ex_protocol env) (apply_op env (ReplaceRoute r) s)
    = (abs_routes (ex_protocol env) s)((rt_family r, rt_table r) \<mapsto> r)"
proof -
  let ?m = "route_message (ex_defaults env) r (ex_protocol env)"
  have nd: "netlink_defaults_ok (ex_defaults env)" using assms(1) by (simp add: env_ok_def)
  obtain ob where ob: "observed_route_parse (ex_now env) ?m = Some ob" "as_planned ob = Some r"
    using parse_route_message [OF nd assms(4), of "ex_now env" "ex_protocol env"]
    by (auto simp: bind_eq_Some_conv)
  have prot: "ort_protocol ob = ex_protocol env"
    using parse_protocol [OF ob(1)] by (simp add: route_message_protocol)
  show ?thesis
    using abs_routes_apply_route [OF assms(2), of ob] as_planned_shape [OF ob(2)] assms(1,3) ob prot
    by (simp add: apply_op_def env_ok_def scope_covers_def)
qed

lemma delete_key_parse:
  assumes "netlink_defaults_ok nd"
  shows "\<exists>ob. observed_route_parse now (route_delete_key nd f t p) = Some ob \<and> ort_family ob = f
    \<and> ort_table ob = t \<and> ort_destination ob = None \<and> ort_metric ob = ROUTE_METRIC"
  using assms by (auto simp: observed_route_parse_def route_delete_key_def route_header_def
      netlink_defaults_ok_def Let_def)

lemma abs_routes_delete:
  assumes "env_ok env l" and "system_inv (ex_scope env) s" and "in_tables l t"
  shows "abs_routes (ex_protocol env) (apply_op env (DeleteRoute f t p) s)
    = (abs_routes (ex_protocol env) s)((f, t) := None)"
proof -
  obtain ob where "observed_route_parse (ex_now env) (route_delete_key (ex_defaults env) f t p) = Some ob"
    "ort_family ob = f" "ort_table ob = t" "ort_destination ob = None" "ort_metric ob = ROUTE_METRIC"
    using delete_key_parse assms(1) unfolding env_ok_def by blast
  with abs_routes_apply_route [OF assms(2), of ob] assms(1,3) show ?thesis
    by (simp add: apply_op_def env_ok_def scope_covers_def)
qed

lemma abs_routes_rule_op:
  "abs_routes p (apply_op env (AddRule r) s) = abs_routes p s"
  "abs_routes p (apply_op env (DeleteRule ob) s) = abs_routes p s"
  "abs_routes p (apply_op env ApplyNft s) = abs_routes p s"
  by (simp_all add: apply_op_def)

lemma rules_route_op:
  "sy_rules (apply_op env (ReplaceRoute r) s) = sy_rules s"
  "sy_rules (apply_op env (DeleteRoute f t p) s) = sy_rules s"
  "sy_rules (apply_op env ApplyNft s) = sy_rules s"
  by (simp_all add: apply_op_def apply_route_def Let_def split: option.split)

lemma fold_replace:
  assumes "env_ok env l" and "system_inv (ex_scope env) s"
    and "\<forall>r\<in>set rs. D (rt_family r, rt_table r) = Some r \<and> in_tables l (rt_table r) \<and> route_shape r"
  shows "abs_routes (ex_protocol env) (fold (apply_op env) (map ReplaceRoute rs) s) k
    = (if k \<in> (\<lambda>r. (rt_family r, rt_table r)) ` set rs then D k else abs_routes (ex_protocol env) s k)"
  using assms(2,3)
proof (induction rs arbitrary: s)
  case (Cons r rs)
  have "system_inv (ex_scope env) (apply_op env (ReplaceRoute r) s)"
    using Cons.prems(1) by (rule apply_op_inv)
  from Cons.IH [OF this] Cons.prems abs_routes_replace [OF assms(1) Cons.prems(1)] show ?case by simp
qed simp

lemma fold_delete_route:
  assumes "env_ok env l" and "system_inv (ex_scope env) s" and "\<forall>k\<in>set ks. in_tables l (snd k)"
  shows "abs_routes (ex_protocol env) (fold (apply_op env) (map (delete_route p) ks) s) k
    = (if k \<in> set ks then None else abs_routes (ex_protocol env) s k)"
  using assms(2,3)
proof (induction ks arbitrary: s)
  case (Cons x ks)
  have "system_inv (ex_scope env) (apply_op env (delete_route p x) s)"
    using Cons.prems(1) by (rule apply_op_inv)
  from Cons.IH [OF this] Cons.prems abs_routes_delete [OF assms(1) Cons.prems(1)] show ?case
    by (simp add: delete_route_def)
qed simp

lemma fold_rules_replace [simp]: "sy_rules (fold (apply_op env) (map ReplaceRoute rs) s) = sy_rules s"
  by (induction rs arbitrary: s) (simp_all add: rules_route_op)

lemma fold_rules_delete_route [simp]:
  "sy_rules (fold (apply_op env) (map (delete_route p) ks) s) = sy_rules s"
  by (induction ks arbitrary: s) (simp_all add: rules_route_op delete_route_def)

lemma fold_abs_add [simp]: "abs_routes p (fold (apply_op env) (map AddRule rs) s) = abs_routes p s"
  by (induction rs arbitrary: s) (simp_all add: abs_routes_rule_op)

lemma fold_abs_delete_rule [simp]:
  "abs_routes p (fold (apply_op env) (map DeleteRule obs) s) = abs_routes p s"
  by (induction obs arbitrary: s) (simp_all add: abs_routes_rule_op)

text \<open>A rule that the view holds as \<open>r\<close> and an entry that counts as the same rule are interchangeable.\<close>

definition holds :: "u8 \<Rightarrow> system \<Rightarrow> rule \<Rightarrow> bool" where
  "holds p s r \<longleftrightarrow> (\<exists>ob\<in>set (sy_rules s). observed_rule_is ob r p)"

lemma same_rule_is:
  assumes "same_rule ob ob'" and "observed_rule_is ob r p" and "\<not> or_foreign_selectors ob'"
  shows "observed_rule_is ob' r p"
  using assms by (auto simp: same_rule_def observed_rule_is_def)

lemma same_rule_parsed:
  assumes "same_rule ob ob'" and "or_foreign_selectors ob'"
    and "observed_rule_parse (or_message ob) = Some ob" and "observed_rule_parse (or_message ob') = Some ob'"
  shows "ob = ob'"
proof -
  have "or_message ob = or_message ob'" using assms(1,2) by (simp add: same_rule_def)
  with assms(3,4) have "Some ob = Some ob'" by metis
  then show ?thesis by simp
qed

lemma rules_add:
  assumes "env_ok env l"
  shows "sy_rules (apply_op env (AddRule r) s) =
    (let ob = observed_form r (ex_protocol env) (rule_message (ex_defaults env) r (ex_protocol env))
     in filter (\<lambda>o'. \<not> same_rule o' ob) (sy_rules s) @ [ob])"
  using assms parse_rule_message [of "ex_defaults env" r "ex_protocol env"]
  by (simp add: apply_op_def apply_rule_def env_ok_def Let_def)

lemma holds_add:
  assumes "env_ok env l"
  shows "holds (ex_protocol env) (apply_op env (AddRule r) s) r"
    and "holds (ex_protocol env) s q \<Longrightarrow> holds (ex_protocol env) (apply_op env (AddRule r) s) q"
proof -
  let ?ob = "observed_form r (ex_protocol env) (rule_message (ex_defaults env) r (ex_protocol env))"
  show "holds (ex_protocol env) (apply_op env (AddRule r) s) r"
    unfolding holds_def rules_add [OF assms] Let_def by (simp add: observed_form_is same_identity_def)
  assume "holds (ex_protocol env) s q"
  then obtain ob where ob: "ob \<in> set (sy_rules s)" "observed_rule_is ob q (ex_protocol env)"
    by (auto simp: holds_def)
  show "holds (ex_protocol env) (apply_op env (AddRule r) s) q"
  proof (cases "same_rule ob ?ob")
    case True
    have "\<not> or_foreign_selectors ?ob" by (simp add: observed_form_def)
    from same_rule_is [OF True ob(2) this] show ?thesis
      unfolding holds_def rules_add [OF assms] Let_def by simp
  next
    case False
    with ob show ?thesis unfolding holds_def rules_add [OF assms] Let_def by auto
  qed
qed

lemma fold_add:
  assumes "env_ok env l"
  shows "q \<in> set rs \<or> holds (ex_protocol env) s q \<Longrightarrow>
      holds (ex_protocol env) (fold (apply_op env) (map AddRule rs) s) q"
    and "ob \<in> set (sy_rules (fold (apply_op env) (map AddRule rs) s)) \<Longrightarrow>
      ob \<in> set (sy_rules s) \<or> (\<exists>r\<in>set rs. observed_rule_is ob r (ex_protocol env))"
proof (induction rs arbitrary: s)
  case (Cons r rs)
  {
    case 1
    with Cons.IH(1) holds_add [OF assms] show ?case by auto
  next
    case 2
    then consider "ob \<in> set (sy_rules (apply_op env (AddRule r) s))"
      | "\<exists>r\<in>set rs. observed_rule_is ob r (ex_protocol env)"
      using Cons.IH(2) by auto
    then show ?case
    proof cases
      case 1
      then show ?thesis
        unfolding rules_add [OF assms] Let_def by (auto simp: observed_form_is same_identity_def)
    qed auto
  }
qed simp_all

lemma rules_delete:
  assumes "observed_rule_parse (or_message ob) = Some ob"
  shows "sy_rules (apply_op env (DeleteRule ob) s) = filter (\<lambda>o'. \<not> same_rule o' ob) (sy_rules s)"
  using assms by (simp add: apply_op_def apply_rule_def)

lemma fold_delete_rule:
  assumes "\<forall>ob\<in>set obs. observed_rule_parse (or_message ob) = Some ob"
  shows "sy_rules (fold (apply_op env) (map DeleteRule obs) s)
    = filter (\<lambda>o'. \<forall>ob\<in>set obs. \<not> same_rule o' ob) (sy_rules s)"
  using assms
proof (induction obs arbitrary: s)
  case (Cons ob obs)
  then show ?case by (auto simp: rules_delete intro: filter_cong)
qed simp

lemma holds_delete:
  assumes "\<forall>ob\<in>set obs. observed_rule_parse (or_message ob) = Some ob \<and> \<not> observed_rule_is ob r p"
    and "rules_parsed (sy_rules s)" and "holds p s r"
  shows "holds p (fold (apply_op env) (map DeleteRule obs) s) r"
proof -
  obtain ob where ob: "ob \<in> set (sy_rules s)" "observed_rule_is ob r p"
    using assms(3) by (auto simp: holds_def)
  have "\<not> same_rule ob ob'" if "ob' \<in> set obs" for ob'
  proof
    assume same: "same_rule ob ob'"
    have parsed: "observed_rule_parse (or_message ob) = Some ob" "observed_rule_parse (or_message ob') = Some ob'"
      using assms(1,2) ob(1) that by (auto simp: rules_parsed_def)
    show False
    proof (cases "or_foreign_selectors ob'")
      case True
      with same_rule_parsed [OF same _ parsed] ob(2) assms(1) that show False by auto
    next
      case False
      with same_rule_is [OF same ob(2)] assms(1) that show False by auto
    qed
  qed
  with ob fold_delete_rule [of obs env s] assms(1) show ?thesis by (auto simp: holds_def)
qed

section \<open>Convergence\<close>

text \<open>What the reconciler is asked for: the owned tables hold exactly the desired routes, every desired
  rule is there, and no other rule of the daemon is left (of the families to clean, or that have no
  desired rule).\<close>

definition cleans :: "diff_input \<Rightarrow> observed_rule \<Rightarrow> bool" where
  "cleans d ob \<longleftrightarrow> or_protocol ob = di_protocol d \<and> in_priorities (di_layout d) (or_priority ob) \<and>
     (or_family ob \<in> set (di_families d) \<or> \<not> (\<exists>r\<in>d_rules (di_desired d). r_family r = or_family ob))"

definition converged :: "diff_input \<Rightarrow> system \<Rightarrow> bool" where
  "converged d s \<longleftrightarrow>
     (\<forall>f t. in_tables (di_layout d) t \<longrightarrow>
        abs_routes (di_protocol d) s (f, t) = btm_get (d_routes (di_desired d)) (f, t)) \<and>
     (\<forall>r\<in>d_rules (di_desired d). holds (di_protocol d) s r) \<and>
     (\<forall>ob\<in>set (sy_rules s). cleans d ob \<longrightarrow>
        (\<exists>r\<in>d_rules (di_desired d). observed_rule_is ob r (di_protocol d)))"

definition settled :: "diff_input \<Rightarrow> bool" where
  "settled d \<longleftrightarrow> di_before_nft d = di_desired d \<and> \<not> di_nft_pending d \<and>
     routes_wf (di_layout d) (di_desired d) \<and> rules_wf (di_layout d) (di_desired d)"

lemma routes_wf_get:
  assumes "routes_wf l d"
  shows "(k, r) \<in> set (d_routes d) \<longleftrightarrow> btm_get (d_routes d) k = Some r"
  using assms btm_get_Some_mem [of "d_routes d" k r] unfolding routes_wf_def by blast

lemma routes_wf_mem:
  assumes "routes_wf l d" and "r \<in> snd ` set (d_routes d)"
  shows "btm_get (d_routes d) (rt_family r, rt_table r) = Some r" "in_tables l (rt_table r)" "route_shape r"
proof -
  obtain k where k: "btm_get (d_routes d) k = Some r"
    using assms(2) routes_wf_get [OF assms(1)] by force
  then have "k = (rt_family r, rt_table r)" "in_tables l (rt_table r)" "route_shape r"
    using assms(1) unfolding routes_wf_def by blast+
  with k show "btm_get (d_routes d) (rt_family r, rt_table r) = Some r" "in_tables l (rt_table r)" "route_shape r"
    by simp_all
qed

lemma routes_wf_key:
  assumes "routes_wf l d" and "btm_get (d_routes d) (f, t) = Some r"
  shows "rt_family r = f" "rt_table r = t" "r \<in> snd ` set (d_routes d)" "in_tables l t"
proof -
  show "r \<in> snd ` set (d_routes d)" using assms(2) routes_wf_get [OF assms(1)] by force
  show "rt_family r = f" "rt_table r = t" "in_tables l t"
    using assms unfolding routes_wf_def by blast+
qed

definition missing_routes :: "system \<Rightarrow> diff_input \<Rightarrow> route list" where
  "missing_routes s d =
     filter (\<lambda>r. \<not> route_present s (di_protocol d) r) (map snd (d_routes (di_before_nft d)))"

text \<open>The phases of a pass whose nftables table is in place.\<close>

lemma diff_phases:
  assumes "settled d"
  shows "diff s d = map ReplaceRoute (missing_routes s d)
    @ map (delete_route (di_protocol d)) (early_tables s d @ filter (still_used d) (late_tables s d))
    @ map AddRule (rules_to_add s d) @ map DeleteRule (rules_to_delete s d)
    @ map (delete_route (di_protocol d)) (filter (\<lambda>k. \<not> still_used d k) (late_tables s d))"
proof -
  have none: "filter (\<lambda>(k, r). btm_get (d_routes (di_desired d)) k \<noteq> Some r \<and> P k r)
    (d_routes (di_desired d)) = []" for P
    using assms routes_wf_get [of "di_layout d" "di_desired d"]
    unfolding filter_empty_conv settled_def by auto
  from assms show ?thesis
    by (simp add: diff_def Let_def none missing_routes_def settled_def)
qed

lemma view_tables:
  assumes "system_inv sc s" and "scope_covers sc (di_layout d)"
  shows "(f, t) \<in> set (early_tables s d) \<longleftrightarrow> in_tables (di_layout d) t \<and> abs_routes (di_protocol d) s (f, t) \<noteq> None
      \<and> \<not> is_path_table (di_layout d) t \<and> btm_get (d_routes (di_before_nft d)) (f, t) = None"
    and "(f, t) \<in> set (late_tables s d) \<longleftrightarrow> in_tables (di_layout d) t \<and> abs_routes (di_protocol d) s (f, t) \<noteq> None
      \<and> is_path_table (di_layout d) t \<and> btm_get (d_routes (di_desired d)) (f, t) = None"
  using observed_tables_abs [OF assms, of f t "di_protocol d"]
  by (auto simp: early_tables_def late_tables_def btm_contains_def finite_observed_tables)

lemma missing_iff:
  assumes "settled d" and "system_inv sc s" and "scope_covers sc (di_layout d)"
  shows "r \<in> set (missing_routes s d) \<longleftrightarrow> r \<in> snd ` set (d_routes (di_desired d)) \<and>
    abs_routes (di_protocol d) s (rt_family r, rt_table r) \<noteq> Some r"
proof -
  have "is_polywan sc (rt_table r)" if "r \<in> snd ` set (d_routes (di_desired d))"
    using routes_wf_mem(2) [of "di_layout d" "di_desired d" r] that assms(1,3)
    by (simp add: settled_def scope_covers_def)
  then show ?thesis
    using route_present_abs [OF assms(2), of r "di_protocol d"] assms(1)
    by (auto simp: missing_routes_def settled_def)
qed

lemma to_add_iff:
  assumes "settled d"
  shows "r \<in> set (rules_to_add s d) \<longleftrightarrow> r \<in> d_rules (di_desired d) \<and> \<not> holds (di_protocol d) s r"
proof -
  have "finite (d_rules (di_desired d))"
    and prio: "r \<in> d_rules (di_desired d) \<Longrightarrow> in_priorities (di_layout d) (r_priority r)"
    using assms by (auto simp: settled_def rules_wf_def)
  moreover have "r \<in> d_rules (di_desired d) \<Longrightarrow>
      list_ex (\<lambda>ob. observed_rule_is ob r (di_protocol d)) (observed_rules s (di_layout d) (di_protocol d))
        \<longleftrightarrow> holds (di_protocol d) s r"
    using prio by (auto simp: list_ex_iff observed_rules_def holds_def observed_rule_is_def)
  ultimately show ?thesis by (auto simp: rules_to_add_def Let_def)
qed

lemma to_delete_iff:
  "ob \<in> set (rules_to_delete s d) \<longleftrightarrow> ob \<in> set (sy_rules s) \<and> cleans d ob \<and>
    \<not> (\<exists>r\<in>d_rules (di_desired d). observed_rule_is ob r (di_protocol d))"
  by (auto simp: rules_to_delete_def observed_rules_def cleans_def Let_def)

lemma empty_iff_no_member: "xs = [] \<longleftrightarrow> (\<forall>x. x \<notin> set xs)"
  by (cases xs) auto

lemma diff_empty_iff:
  assumes "settled d" and "system_inv sc s" and "scope_covers sc (di_layout d)"
  shows "diff s d = [] \<longleftrightarrow> converged d s"
proof -
  let ?D = "d_routes (di_desired d)" and ?A = "abs_routes (di_protocol d) s" and ?l = "di_layout d"
  have wf: "routes_wf ?l (di_desired d)" and before: "di_before_nft d = di_desired d"
    using assms(1) by (auto simp: settled_def)
  have late: "late_tables s d = [] \<longleftrightarrow> filter (still_used d) (late_tables s d) = [] \<and>
    filter (\<lambda>k. \<not> still_used d k) (late_tables s d) = []"
    by (cases "late_tables s d") auto
  have "diff s d = [] \<longleftrightarrow> missing_routes s d = [] \<and> early_tables s d = [] \<and> late_tables s d = [] \<and>
    rules_to_add s d = [] \<and> rules_to_delete s d = []"
    unfolding diff_phases [OF assms(1)] late by auto
  moreover have "missing_routes s d = [] \<and> early_tables s d = [] \<and> late_tables s d = [] \<longleftrightarrow>
    (\<forall>f t. in_tables ?l t \<longrightarrow> ?A (f, t) = btm_get ?D (f, t))" (is "?L \<longleftrightarrow> ?R")
  proof
    assume L: ?L
    show ?R
    proof (intro allI impI)
      fix f t assume t: "in_tables ?l t"
      show "?A (f, t) = btm_get ?D (f, t)"
      proof (cases "btm_get ?D (f, t)")
        case None
        with L t view_tables [OF assms(2,3), of f t] before show ?thesis by auto
      next
        case (Some r)
        with L routes_wf_key [OF wf Some] missing_iff [OF assms, of r] show ?thesis by auto
      qed
    qed
  next
    assume R: ?R
    have "r \<notin> set (missing_routes s d)" for r
    proof
      assume "r \<in> set (missing_routes s d)"
      then have r: "r \<in> snd ` set ?D" and "?A (rt_family r, rt_table r) \<noteq> Some r"
        unfolding missing_iff [OF assms] by blast+
      with R routes_wf_mem [OF wf r] show False by simp
    qed
    moreover have "(f, t) \<notin> set (early_tables s d)" "(f, t) \<notin> set (late_tables s d)" for f t
      using R view_tables [OF assms(2,3), of f t] before by auto
    ultimately show ?L unfolding empty_iff_no_member split_paired_All by blast
  qed
  moreover have "rules_to_add s d = [] \<longleftrightarrow> (\<forall>r\<in>d_rules (di_desired d). holds (di_protocol d) s r)"
    unfolding empty_iff_no_member to_add_iff [OF assms(1)] by blast
  moreover have "rules_to_delete s d = [] \<longleftrightarrow> (\<forall>ob\<in>set (sy_rules s). cleans d ob \<longrightarrow>
        (\<exists>r\<in>d_rules (di_desired d). observed_rule_is ob r (di_protocol d)))"
    unfolding empty_iff_no_member to_delete_iff by blast
  ultimately show ?thesis unfolding converged_def by blast
qed

text \<open>The view after all operations of a pass.\<close>

definition withdrawn_tables :: "system \<Rightarrow> diff_input \<Rightarrow> (family \<times> u32) list" where
  "withdrawn_tables s d = early_tables s d @ filter (still_used d) (late_tables s d)"

definition unused_tables :: "system \<Rightarrow> diff_input \<Rightarrow> (family \<times> u32) list" where
  "unused_tables s d = filter (\<lambda>k. \<not> still_used d k) (late_tables s d)"

text \<open>The routes after all operations of a pass: rule operations do not touch them.\<close>

lemma fold_diff_routes:
  assumes "settled d" and "env_ok env (di_layout d)" and "ex_protocol env = di_protocol d"
    and inv: "system_inv (ex_scope env) s" and t: "in_tables (di_layout d) t"
  shows "abs_routes (di_protocol d) (fold (apply_op env) (diff s d) s) (f, t)
    = btm_get (d_routes (di_desired d)) (f, t)"
proof -
  let ?f = "fold (apply_op env)" and ?p = "di_protocol d" and ?l = "di_layout d"
  let ?D = "d_routes (di_desired d)" and ?R = "missing_routes s d" and ?key = "\<lambda>r. (rt_family r, rt_table r)"
  define s1 where "s1 = ?f (map ReplaceRoute ?R) s"
  define s2 where "s2 = ?f (map (delete_route ?p) (withdrawn_tables s d)) s1"
  define s4 where "s4 = ?f (map DeleteRule (rules_to_delete s d)) (?f (map AddRule (rules_to_add s d)) s2)"
  have final: "?f (diff s d) s = ?f (map (delete_route ?p) (unused_tables s d)) s4"
    unfolding diff_phases [OF assms(1)] fold_append comp_apply s1_def s2_def s4_def withdrawn_tables_def
      unused_tables_def by simp
  have i1: "system_inv (ex_scope env) s1" unfolding s1_def by (rule fold_apply_op_inv [OF inv])
  have i4: "system_inv (ex_scope env) s4" unfolding s4_def s2_def by (intro fold_apply_op_inv i1)
  have sc: "scope_covers (ex_scope env) ?l" and wf: "routes_wf ?l (di_desired d)"
    and before: "di_before_nft d = di_desired d"
    using assms(1,2) by (auto simp: env_ok_def settled_def)
  note tables = view_tables [OF inv sc] and missing = missing_iff [OF assms(1) inv sc]
  have *: "in_tables ?l (snd k)" if "k \<in> set (early_tables s d) \<union> set (late_tables s d)" for k
    using tables [of "fst k" "snd k"] that unfolding prod.collapse by blast
  have owned: "\<forall>k\<in>set (withdrawn_tables s d). in_tables ?l (snd k)"
    "\<forall>k\<in>set (unused_tables s d). in_tables ?l (snd k)"
    unfolding withdrawn_tables_def unused_tables_def using * by auto
  have "\<forall>r\<in>set ?R. btm_get ?D (?key r) = Some r \<and> in_tables ?l (rt_table r) \<and> route_shape r"
    using missing routes_wf_mem [OF wf] by blast
  from fold_replace [OF assms(2) inv this]
  have a1: "abs_routes ?p s1 k = (if k \<in> ?key ` set ?R then btm_get ?D k else abs_routes ?p s k)" for k
    unfolding s1_def assms(3) .
  have a2: "abs_routes ?p s4 k = (if k \<in> set (withdrawn_tables s d) then None else abs_routes ?p s1 k)" for k
    unfolding s4_def s2_def using fold_delete_route [OF assms(2) i1 owned(1)] assms(3) by simp
  have a: "abs_routes ?p (?f (diff s d) s) (f, t) =
    (if (f, t) \<in> set (unused_tables s d) \<or> (f, t) \<in> set (withdrawn_tables s d) then None
     else if (f, t) \<in> ?key ` set ?R then btm_get ?D (f, t) else abs_routes ?p s (f, t))"
    unfolding final using fold_delete_route [OF assms(2) i4 owned(2)] assms(3) a2 a1 by simp
  show ?thesis
  proof (cases "btm_get ?D (f, t)")
    case None
    then show ?thesis
      using a t tables [of f t] before by (auto simp: withdrawn_tables_def unused_tables_def)
  next
    case (Some r)
    have "(f, t) \<notin> set (early_tables s d)" "(f, t) \<notin> set (late_tables s d)"
      using Some tables [of f t] before by simp_all
    moreover have "(f, t) \<in> ?key ` set ?R \<or> abs_routes ?p s (f, t) = Some r"
      using missing [of r] routes_wf_key [OF wf Some] by force
    ultimately show ?thesis using a Some by (auto simp: withdrawn_tables_def unused_tables_def)
  qed
qed

text \<open>The rules after all operations of a pass: route operations do not touch them.\<close>

lemma fold_diff_rules:
  assumes "settled d" and "env_ok env (di_layout d)" and "ex_protocol env = di_protocol d"
    and inv: "system_inv (ex_scope env) s"
  shows "r \<in> d_rules (di_desired d) \<Longrightarrow> holds (di_protocol d) (fold (apply_op env) (diff s d) s) r"
    and "ob \<in> set (sy_rules (fold (apply_op env) (diff s d) s)) \<Longrightarrow> cleans d ob \<Longrightarrow>
      \<exists>r\<in>d_rules (di_desired d). observed_rule_is ob r (di_protocol d)"
proof -
  let ?f = "fold (apply_op env)" and ?p = "di_protocol d"
  define s2 where "s2 = ?f (map (delete_route ?p) (withdrawn_tables s d))
    (?f (map ReplaceRoute (missing_routes s d)) s)"
  define s3 where "s3 = ?f (map AddRule (rules_to_add s d)) s2"
  define s4 where "s4 = ?f (map DeleteRule (rules_to_delete s d)) s3"
  have "?f (diff s d) s = ?f (map (delete_route ?p) (unused_tables s d)) s4"
    unfolding diff_phases [OF assms(1)] fold_append comp_apply s2_def s3_def s4_def withdrawn_tables_def
      unused_tables_def by simp
  then have final: "sy_rules (?f (diff s d) s) = sy_rules s4" by simp
  have r2: "sy_rules s2 = sy_rules s" unfolding s2_def by simp
  have "system_inv (ex_scope env) s3" unfolding s3_def s2_def by (intro fold_apply_op_inv inv)
  then have parsed: "rules_parsed (sy_rules s)" "rules_parsed (sy_rules s3)"
    using inv by (auto simp: system_inv_def)
  have dels: "\<forall>ob\<in>set (rules_to_delete s d). observed_rule_parse (or_message ob) = Some ob"
    using parsed(1) by (auto simp: to_delete_iff rules_parsed_def)
  have h3: "holds ?p s3 r" if "r \<in> d_rules (di_desired d)"
    unfolding s3_def using fold_add(1) [OF assms(2), of r "rules_to_add s d" s2] to_add_iff [OF assms(1)] that
    by (auto simp: assms(3) holds_def r2)
  show "holds ?p (?f (diff s d) s) r" if "r \<in> d_rules (di_desired d)"
  proof -
    have "\<forall>ob\<in>set (rules_to_delete s d). observed_rule_parse (or_message ob) = Some ob \<and> \<not> observed_rule_is ob r ?p"
      using dels that by (auto simp: to_delete_iff)
    from holds_delete [OF this parsed(2) h3 [OF that], of env] show ?thesis
      unfolding holds_def final s4_def .
  qed
  assume ob4: "ob \<in> set (sy_rules (?f (diff s d) s))" and cl: "cleans d ob"
  show "\<exists>r\<in>d_rules (di_desired d). observed_rule_is ob r ?p"
  proof (rule ccontr)
    assume none: "\<not> ?thesis"
    have ob: "ob \<in> set (sy_rules s3)" "\<forall>x\<in>set (rules_to_delete s d). \<not> same_rule ob x"
      using ob4 unfolding final s4_def fold_delete_rule [OF dels] by auto
    from fold_add(2) [OF assms(2), of ob "rules_to_add s d" s2] ob(1) none to_add_iff [OF assms(1)]
    have "ob \<in> set (sy_rules s)" by (auto simp: s3_def r2 assms(3))
    with cl none have "ob \<in> set (rules_to_delete s d)" by (simp add: to_delete_iff)
    with ob(2) show False by auto
  qed
qed

lemma fold_diff_converges:
  assumes "settled d" and "env_ok env (di_layout d)" and "ex_protocol env = di_protocol d"
    and "system_inv (ex_scope env) s"
  shows "converged d (fold (apply_op env) (diff s d) s)"
  unfolding converged_def using fold_diff_routes [OF assms] fold_diff_rules [OF assms] by blast

section \<open>Passes over a plan\<close>

definition input_finite :: "input \<Rightarrow> bool" where
  "input_finite i \<longleftrightarrow> (\<forall>x\<in>set (in_paths i). finite (pi_local_addresses (snd x)))"

definition plan_pass :: "config \<Rightarrow> input \<Rightarrow> family list \<Rightarrow> diff_input" where
  "plan_pass c i fs =
     \<lparr>di_layout = layout_of c, di_protocol = route_protocol (c_routing c), di_families = fs,
      di_before_nft = plan c i, di_desired = plan c i, di_nft_pending = False\<rparr>"

lemma plan_pass_sel [simp]:
  "di_layout (plan_pass c i fs) = layout_of c" "di_desired (plan_pass c i fs) = plan c i"
  "di_protocol (plan_pass c i fs) = route_protocol (c_routing c)" "di_families (plan_pass c i fs) = fs"
  by (simp_all add: plan_pass_def)

lemma finite_local_addresses: "input_finite i \<Longrightarrow> finite (local_addresses i f n)"
  by (auto simp: input_finite_def local_addresses_def input_path_def split: option.split dest!: btm_get_in_set)

lemma finite_plan_rules: "input_finite i \<Longrightarrow> finite (d_rules (plan c i))"
proof -
  assume fin: "input_finite i"
  have "finite {f. config_manages c f}" by (rule finite_subset [of _ "{V4, V6}"]) (auto intro: family.exhaust)
  then show ?thesis
    unfolding plan_rules family_rules_def using finite_local_addresses [OF fin] by auto
qed

lemma plan_pass_settled:
  assumes "config_wf c" and "input_finite i"
  shows "settled (plan_pass c i fs)"
proof -
  have "in_priorities (layout_of c) (r_priority r)" if "r \<in> d_rules (plan c i)" for r
    using rule_shape_priority [OF layout_ok_of plan_rule_shape] assms(1) that by blast
  then have "rules_wf (layout_of c) (plan c i)"
    using finite_plan_rules [OF assms(2)] by (simp add: rules_wf_def)
  moreover have "routes_wf (layout_of c) (plan c i)"
    unfolding routes_wf_def split_paired_All
    using plan_wf plan_routes_owned [OF assms(1)] plan_route_shape [OF assms(1)] by blast
  ultimately show ?thesis by (simp add: settled_def plan_pass_def)
qed

text \<open>The kernel accepts an operation when it acknowledges it, or answers with an error that means the
  wanted state is already there.\<close>

definition accepted :: "'k exec_env \<Rightarrow> op \<Rightarrow> 'k \<Rightarrow> bool" where
  "accepted env x k \<longleftrightarrow>
     (case netlink_op (ex_defaults env) (ex_protocol env) x of
        None \<Rightarrow> True
      | Some (m, kind, tolerated) \<Rightarrow>
          (case snd (ex_mutate env m kind k) of Inl e \<Rightarrow> ke_errno e \<in> set tolerated | Inr _ \<Rightarrow> True))"

lemma execute_accepted:
  assumes "\<forall>x k. accepted env x k" and "ApplyNft \<notin> set xs"
  shows "\<exists>k'. execute env xs s k = (fold (apply_op env) xs s, k', Inr False)"
  using assms(2)
proof (induction xs arbitrary: s k)
  case (Cons x xs)
  then obtain m kind tol where op: "netlink_op (ex_defaults env) (ex_protocol env) x = Some (m, kind, tol)"
    by (cases x) auto
  obtain k' r where mu: "ex_mutate env m kind k = (k', r)" by fastforce
  have "execute env (x # xs) s k = execute env xs (apply_op env x s) k'"
    using assms(1) [rule_format, of x k] by (auto simp: op mu accepted_def apply_op_def split: sum.splits)
  with Cons show ?case by simp
qed simp

lemma no_nft: "\<not> di_nft_pending d \<Longrightarrow> ApplyNft \<notin> set (diff s d)"
  by (auto simp: diff_def Let_def delete_route_def)

definition example_env :: "unit exec_env" where
  "example_env =
     \<lparr>ex_defaults = example_defaults, ex_flags_of = (\<lambda>_. {}),
      ex_scope = \<lparr>polywan_tables = [(1000, 1191)], sc_discovery_tables = [254]\<rparr>,
      ex_protocol = 187, ex_now = 0, ex_mutate = (\<lambda>_ _ k. (k, Inr ()))\<rparr>"

lemma example_env_ok:
  "env_ok example_env (layout_of example_config)"
  "ex_protocol example_env = route_protocol (c_routing example_config)"
  "accepted example_env x k"
  "input_finite example_input"
proof -
  show "env_ok example_env (layout_of example_config)"
    using example_defaults_ok
    by (auto simp: env_ok_def example_env_def scope_covers_def is_polywan_def in_tables_def in_range_def
        layout_of_def example_config_def)
  show "ex_protocol example_env = route_protocol (c_routing example_config)"
    by (simp add: example_env_def example_config_def)
  show "accepted example_env x k"
    by (cases x) (simp_all add: accepted_def example_env_def)
  show "input_finite example_input"
    by (simp add: input_finite_def example_input_def)
qed



text \<open>What stopping after \<open>n\<close> operations means, for each outcome of \<open>execute\<close>.\<close>

fun stops_after :: "'k exec_env \<Rightarrow> op list \<Rightarrow> system \<Rightarrow> nat \<Rightarrow> system \<times> 'k \<times> (failure + bool) \<Rightarrow> bool" where
  "stops_after env xs s n (s', k', Inr False) \<longleftrightarrow>
     s' = fold (apply_op env) xs s \<and> n = length xs \<and> ApplyNft \<notin> set xs"
| "stops_after env xs s n (s', k', Inr True) \<longleftrightarrow>
     s' = fold (apply_op env) (take n xs) s \<and> n < length xs \<and> xs ! n = ApplyNft"
| "stops_after env xs s n (s', k', Inl e) \<longleftrightarrow>
     s' = fold (apply_op env) (take n xs) s \<and> n < length xs \<and> xs ! n \<noteq> ApplyNft \<and>
     fa_op e = show_op (xs ! n) \<and> fa_kind e = op_kind (xs ! n) \<and> (\<exists>k0. \<not> accepted env (xs ! n) k0)"

lemma stops_after_Cons:
  "stops_after env xs (apply_op env x s) n out \<Longrightarrow> x \<noteq> ApplyNft \<Longrightarrow> stops_after env (x # xs) s (Suc n) out"
  by (cases "(env, xs, apply_op env x s, n, out)" rule: stops_after.cases) auto


section \<open>Order of installation\<close>

lemma sorted_prefix:
  assumes "sorted (map key xs)" and "a \<in> set (take m xs)" and "b \<in> set xs" and "key b < key a"
  shows "b \<in> set (take m xs)"
proof (rule ccontr)
  assume "b \<notin> set (take m xs)"
  with assms(3) have "b \<in> set (drop m xs)" by (metis append_take_drop_id Un_iff set_append)
  moreover have "sorted (map key (take m xs) @ map key (drop m xs))"
    using assms(1) by (metis append_take_drop_id map_append)
  ultimately have "key a \<le> key b" using assms(2) by (auto simp: sorted_append)
  with assms(4) show False by simp
qed

lemma planned_is_unique:
  assumes "config_wf c" and "q \<in> d_rules (plan c i)" and "r \<in> d_rules (plan c i)"
    and "observed_rule_is ob q p" and "observed_rule_is ob r p"
  shows "q = r"
proof -
  have same: "r_family q = r_family r" "r_priority q = r_priority r" "r_fwmark q = r_fwmark r"
    "r_source q = r_source r" "r_action q = r_action r"
    using assms(4,5) by (auto simp: observed_rule_is_def planned_action_inject [symmetric]
        host_pair_inject [symmetric])
  have "classify (layout_of c) (r_priority x) = Some (r_kind x)" if "x \<in> d_rules (plan c i)" for x
    using plan_rule_shape [OF assms(1) that] by (simp add: rule_shape_def classify_kind)
  from this [OF assms(2)] this [OF assms(3)] same(2) have "r_kind q = r_kind r" by simp
  with same show ?thesis by (cases q; cases r) simp
qed

lemma holds_route_ops:
  assumes "\<forall>x\<in>set xs. \<exists>y f t p. x = ReplaceRoute y \<or> x = DeleteRoute f t p"
  shows "sy_rules (fold (apply_op env) xs s) = sy_rules s"
  using assms by (induction xs arbitrary: s) (auto simp: rules_route_op)

lemma holds_deletes:
  assumes "settled d" and "rules_parsed (sy_rules s)" and "system_inv (ex_scope env) s'"
    and "r \<in> d_rules (di_desired d)" and "holds (di_protocol d) s' r"
  shows "holds (di_protocol d) (fold (apply_op env) (take n (map DeleteRule (rules_to_delete s d)
    @ map (delete_route (di_protocol d)) ks)) s') r"
proof -
  let ?dels = "take n (rules_to_delete s d)"
  have "\<forall>ob\<in>set ?dels. observed_rule_parse (or_message ob) = Some ob \<and> \<not> observed_rule_is ob r (di_protocol d)"
    using assms(2,4) by (auto simp: to_delete_iff rules_parsed_def dest!: in_set_takeD)
  moreover have "rules_parsed (sy_rules s')" using assms(3) by (simp add: system_inv_def)
  ultimately have "holds (di_protocol d) (fold (apply_op env) (map DeleteRule ?dels) s') r"
    using holds_delete assms(5) by blast
  then show ?thesis
    unfolding holds_def take_append take_map fold_append comp_apply by simp
qed

lemma holds_added:
  assumes "config_wf c" and "input_finite i" and "env_ok env (layout_of c)"
    and p: "ex_protocol env = route_protocol (c_routing c)"
    and same: "sy_rules s' = sy_rules s"
    and gr: "g \<in> d_rules (plan c i)" "r \<in> d_rules (plan c i)" "install_rank (r_kind g) < install_rank (r_kind r)"
    and h: "holds (route_protocol (c_routing c)) (fold (apply_op env)
      (map AddRule (take m (rules_to_add s (plan_pass c i fs)))) s') r"
    and not: "\<not> holds (route_protocol (c_routing c)) s r"
  shows "holds (route_protocol (c_routing c)) (fold (apply_op env)
      (map AddRule (take m (rules_to_add s (plan_pass c i fs)))) s') g"
proof -
  let ?d = "plan_pass c i fs" and ?p = "route_protocol (c_routing c)"
  let ?adds = "rules_to_add s ?d"
  note adds = to_add_iff [OF plan_pass_settled [OF assms(1,2)], of _ s fs, unfolded plan_pass_sel]
  obtain ob where ob: "ob \<in> set (sy_rules (fold (apply_op env) (map AddRule (take m ?adds)) s'))"
    "observed_rule_is ob r ?p" using h by (auto simp: holds_def)
  from fold_add(2) [OF assms(3) ob(1)] not ob(2) same
  obtain q where q: "q \<in> set (take m ?adds)" "observed_rule_is ob q ?p" by (auto simp: p holds_def)
  have "q \<in> d_rules (plan c i)" using q(1) adds by (auto dest: in_set_takeD)
  with planned_is_unique [OF assms(1) _ gr(2) q(2) ob(2)] q(1) have r: "r \<in> set (take m ?adds)" by simp
  have "g \<in> set (take m ?adds) \<or> holds ?p s' g"
  proof (cases "holds ?p s g")
    case False
    then have "g \<in> set ?adds" using gr(1) adds by simp
    moreover have "install_key g < install_key r" using gr(3) by (simp add: install_key_def)
    moreover have "sorted (map install_key ?adds)" by (simp add: rules_to_add_def Let_def)
    ultimately show ?thesis using sorted_prefix [OF _ r] by blast
  qed (simp add: holds_def same)
  then show ?thesis using fold_add(1) [OF assms(3)] by (simp add: p)
qed


lemma example_planned:
  "static_rule V4 (l_priority_base (layout_of example_config) + 600) None
     (Lookup (balancing_table (layout_of example_config))) BalanceRule \<in> d_rules (plan example_config i)"
  "static_rule V4 (l_priority_base (layout_of example_config) + 699) None Unreachable FinalGuard
     \<in> d_rules (plan example_config i)"
proof -
  have "config_manages example_config V4" by (simp add: config_manages_def example_config_uplinks)
  then have "set (static_rules (layout_of example_config) V4 (map u_id (family_uplinks example_config V4)))
    \<subseteq> d_rules (plan example_config i)"
    by (auto simp: plan_rules family_rules_def)
  then show "static_rule V4 (l_priority_base (layout_of example_config) + 600) None
     (Lookup (balancing_table (layout_of example_config))) BalanceRule \<in> d_rules (plan example_config i)"
    and "static_rule V4 (l_priority_base (layout_of example_config) + 699) None Unreachable FinalGuard
     \<in> d_rules (plan example_config i)"
    by (auto simp: static_rules_def Let_def)
qed


section \<open>Cleanup\<close>

definition owns :: "(layout \<times> u8) list \<Rightarrow> observed_rule \<Rightarrow> bool" where
  "owns layouts ob \<longleftrightarrow> (\<exists>(l, p)\<in>set layouts. or_protocol ob = p \<and> in_priorities l (or_priority ob))"

definition owns_route :: "(layout \<times> u8) list \<Rightarrow> observed_route \<Rightarrow> bool" where
  "owns_route layouts ob \<longleftrightarrow> (\<exists>(l, p)\<in>set layouts. ort_protocol ob = p \<and> in_tables l (ort_table ob)
     \<and> as_planned ob \<noteq> None)"

lemma owning_layout_iff: "owning_layout layouts ob \<noteq> None \<longleftrightarrow> owns layouts ob"
proof -
  let ?P = "\<lambda>(l, p). or_protocol ob = p \<and> in_priorities l (or_priority ob)"
  have "owning_layout layouts ob \<noteq> None \<longleftrightarrow> filter ?P layouts \<noteq> []"
    by (cases "filter ?P layouts") (auto simp: owning_layout_def Let_def split: option.splits if_splits)
  also have "\<dots> \<longleftrightarrow> owns layouts ob" by (auto simp: owns_def filter_empty_conv)
  finally show ?thesis .
qed

definition teardown_rules :: "system \<Rightarrow> (layout \<times> u8) list \<Rightarrow> observed_rule list" where
  "teardown_rules s layouts = map snd (sort_key fst (List.map_filter
     (\<lambda>ob. map_option (\<lambda>l. (removal_key l ob, ob)) (owning_layout layouts ob)) (sy_rules s)))"

definition teardown_routes :: "system \<Rightarrow> (layout \<times> u8) list \<Rightarrow> (u8 \<times> family \<times> u32) set" where
  "teardown_routes s layouts = (\<Union>(l, p)\<in>set layouts. (\<lambda>(f, t). (p, f, t)) ` observed_tables s l p)"

lemma teardown_phases:
  "teardown s layouts = map DeleteRule (teardown_rules s layouts)
     @ map (\<lambda>(p, f, t). DeleteRoute f t p) (iter_set (teardown_routes s layouts))"
  by (simp add: teardown_def teardown_rules_def teardown_routes_def Let_def comp_def)

lemma tagged_map_filter:
  "snd ` set (List.map_filter (\<lambda>x. map_option (\<lambda>l. (key l x, x)) (g x)) xs) = {x \<in> set xs. g x \<noteq> None}"
  by (induction xs) (auto simp: List.map_filter_simps split: option.splits)

lemma set_teardown_rules: "set (teardown_rules s layouts) = {ob \<in> set (sy_rules s). owns layouts ob}"
  by (simp only: teardown_rules_def set_map set_sort tagged_map_filter owning_layout_iff)

lemma finite_teardown_routes: "finite (teardown_routes s layouts)"
  by (auto simp: teardown_routes_def finite_observed_tables)

lemma view_delete_route:
  assumes "netlink_defaults_ok (ex_defaults env)" and "is_polywan (ex_scope env) t" and "btm_wf (sy_routes s)"
  shows "btm_get (sy_routes (apply_op env (DeleteRoute f t p) s)) k
    = (if k = planned_key f t then None else btm_get (sy_routes s) k)"
proof -
  obtain ob where ob: "observed_route_parse (ex_now env) (route_delete_key (ex_defaults env) f t p) = Some ob"
    "ort_family ob = f" "ort_table ob = t" "ort_destination ob = None" "ort_metric ob = ROUTE_METRIC"
    using delete_key_parse [OF assms(1)] by blast
  then have "route_key (ex_scope env) ob = planned_key f t" "scope_keeps (ex_scope env) ob"
    using assms(2) by (simp_all add: route_key_def planned_key_def Let_def scope_keeps_def)
  with ob(1) assms(3) show ?thesis
    by (simp add: apply_op_def apply_route_def Let_def btm_get_remove)
qed

lemma fold_view_delete_route:
  assumes "netlink_defaults_ok (ex_defaults env)" and "system_inv (ex_scope env) s"
    and "\<forall>(p, f, t)\<in>set xs. is_polywan (ex_scope env) t"
  shows "btm_get (sy_routes (fold (apply_op env) (map (\<lambda>(p, f, t). DeleteRoute f t p) xs) s)) k
    = (if \<exists>(p, f, t)\<in>set xs. k = planned_key f t then None else btm_get (sy_routes s) k)"
  using assms(2,3)
proof (induction xs arbitrary: s)
  case (Cons x xs)
  obtain p f t where x: "x = (p, f, t)" by (cases x)
  have wf: "btm_wf (sy_routes s)" using Cons.prems(1) by (simp add: system_inv_def keyed_def)
  have inv: "system_inv (ex_scope env) (apply_op env (DeleteRoute f t p) s)"
    using Cons.prems(1) by (rule apply_op_inv)
  have "is_polywan (ex_scope env) t" using Cons.prems(2) by (simp add: x)
  from view_delete_route [OF assms(1) this wf] Cons.IH [OF inv] Cons.prems(2) show ?case by (simp add: x)
qed simp

lemma teardown_rules_exact:
  assumes "rules_parsed (sy_rules s)"
  shows "sy_rules (fold (apply_op env) (map DeleteRule (teardown_rules s layouts)) s)
    = filter (\<lambda>ob. \<not> owns layouts ob) (sy_rules s)"
proof -
  have parsed: "observed_rule_parse (or_message ob) = Some ob" if "ob \<in> set (sy_rules s)" for ob
    using assms that by (simp add: rules_parsed_def)
  have "(\<forall>x\<in>set (teardown_rules s layouts). \<not> same_rule ob x) \<longleftrightarrow> \<not> owns layouts ob"
    if ob: "ob \<in> set (sy_rules s)" for ob
  proof
    assume "\<forall>x\<in>set (teardown_rules s layouts). \<not> same_rule ob x"
    then show "\<not> owns layouts ob" using ob by (auto simp: set_teardown_rules)
  next
    assume not: "\<not> owns layouts ob"
    show "\<forall>x\<in>set (teardown_rules s layouts). \<not> same_rule ob x"
    proof (intro ballI notI)
      fix x assume "x \<in> set (teardown_rules s layouts)" and same: "same_rule ob x"
      then have x: "x \<in> set (sy_rules s)" "owns layouts x" by (auto simp: set_teardown_rules)
      have "owns layouts ob"
      proof (cases "or_foreign_selectors x \<or> or_foreign_selectors ob")
        case True
        then have "or_message ob = or_message x" using same by (auto simp: same_rule_def)
        with parsed [OF ob] parsed [OF x(1)] have "Some ob = Some x" by metis
        with x(2) show ?thesis by simp
      next
        case False
        with same x(2) show ?thesis by (auto simp: same_rule_def owns_def)
      qed
      with not show False ..
    qed
  qed
  then have "filter (\<lambda>ob. \<forall>x\<in>set (teardown_rules s layouts). \<not> same_rule ob x) (sy_rules s)
      = filter (\<lambda>ob. \<not> owns layouts ob) (sy_rules s)"
    by (rule filter_cong [OF refl])
  moreover have "\<forall>ob\<in>set (teardown_rules s layouts). observed_rule_parse (or_message ob) = Some ob"
    using parsed by (simp add: set_teardown_rules)
  ultimately show ?thesis using fold_delete_rule [of "teardown_rules s layouts" env s] by simp
qed

lemma teardown_routes_iff:
  assumes "system_inv sc s" and "\<forall>(l, p)\<in>set layouts. scope_covers sc l"
    and "btm_get (sy_routes s) k = Some ob"
  shows "(\<exists>(p, f, t)\<in>teardown_routes s layouts. k = planned_key f t) \<longleftrightarrow> owns_route layouts ob"
proof
  assume "\<exists>(p, f, t)\<in>teardown_routes s layouts. k = planned_key f t"
  then obtain l p f t where lp: "(l, p) \<in> set layouts" and ft: "(f, t) \<in> observed_tables s l p"
    and k: "k = planned_key f t" by (auto simp: teardown_routes_def)
  from ft obtain x y where x: "x \<in> set (map snd (sy_routes s))" "ort_protocol x = p" "ort_family x = f"
    "ort_table x = t" "as_planned x = Some y" "in_tables l t" unfolding observed_tables_iff by blast
  have "is_polywan sc (ort_table x)" using x lp assms(2) by (auto simp: scope_covers_def)
  from as_planned_key [OF x(5) this] x view_route_mem [OF assms(1), of x] assms(3) k have "x = ob" by simp
  with x lp show "owns_route layouts ob" by (auto simp: owns_route_def)
next
  assume "owns_route layouts ob"
  then obtain l p y where lp: "(l, p) \<in> set layouts" and ob: "ort_protocol ob = p" "in_tables l (ort_table ob)"
    "as_planned ob = Some y" by (auto simp: owns_route_def)
  have "is_polywan sc (ort_table ob)" using ob lp assms(2) by (auto simp: scope_covers_def)
  with as_planned_key [OF ob(3)] view_key [OF assms(1,3)]
  have k: "k = planned_key (ort_family ob) (ort_table ob)" by simp
  have "ob \<in> set (map snd (sy_routes s))"
    using view_route_mem [OF assms(1), of ob] assms(3) view_key [OF assms(1,3)] by simp
  with ob have "(ort_family ob, ort_table ob) \<in> observed_tables s l p" unfolding observed_tables_iff by blast
  with lp k show "\<exists>(p, f, t)\<in>teardown_routes s layouts. k = planned_key f t"
    by (force simp: teardown_routes_def)
qed



end
