(* ===== verification/Discover.thy ===== *)
theory Discover
  imports System_View Health
begin

text \<open>
  Uplink discovery (\<open>discover.rs\<close>): readiness, local addresses, source and next hop of every
  configured path, from the observed system. The clock is a parameter: discovery of a path reads it
  once for the gateway and once for the nexthop groups.
\<close>

section \<open>State\<close>

record discovered =
  ds_ifindex :: "u32 option"
  ds_ready :: "reason + ready_path"
  ds_local_addresses :: "ip_addr set"
  ds_gateway_missing :: bool
  ds_group_only :: bool

text \<open>\<open>Iterator::min_by_key\<close>: the first of the elements with the least key.\<close>

definition min_by_key :: "('a \<Rightarrow> 'k::linorder) \<Rightarrow> 'a list \<Rightarrow> 'a option" where
  "min_by_key key xs =
     fold (\<lambda>x best. case best of None \<Rightarrow> Some x | Some b \<Rightarrow> if key x < key b then Some x else best) xs None"

section \<open>Addresses\<close>

definition usable :: "observed_address \<Rightarrow> bool" where
  "usable a \<longleftrightarrow> address_global a \<and> \<not> address_tentative a \<and> \<not> address_dad_failed a"

definition static_source_elsewhere :: "system \<Rightarrow> path_settings \<Rightarrow> u32 option \<Rightarrow> ip_addr option" where
  "static_source_elsewhere s p ifindex =
     (case ps_source p of
        Auto \<Rightarrow> None
      | Static a \<Rightarrow>
          map_option oa_address
            (find (\<lambda>x. oa_address x = a \<and> Some (oa_index x) \<noteq> ifindex \<and> usable x)
              (map snd (sy_addresses s))))"

definition source_rank :: "observed_address \<Rightarrow> bool \<times> bool \<times> ip_addr" where
  "source_rank a = (\<not> address_permanent a, address_secondary a, oa_address a)"

definition auto_source :: "observed_address list \<Rightarrow> ip_addr option" where
  "auto_source on_link =
     map_option oa_address
       (min_by_key source_rank
         (filter (\<lambda>a. \<not> address_temporary a \<and> \<not> address_deprecated a) on_link))"

fun contains :: "ip_addr \<Rightarrow> u8 \<Rightarrow> ip_addr \<Rightarrow> bool" where
  "contains (IpV4 n) len (IpV4 a) =
     (let msk = (if len = 0 then 0 else push_bit (32 - unat (min len 32)) (- 1)) in n AND msk = a AND msk)"
| "contains (IpV6 n) len (IpV6 a) =
     (let msk = (if len = 0 then 0 else push_bit (128 - unat (min len 128)) (- 1)) in n AND msk = a AND msk)"
| "contains _ _ _ = False"

definition connected :: "system \<Rightarrow> family \<Rightarrow> u32 \<Rightarrow> ip_addr \<Rightarrow> bool" where
  "connected s f ifindex gw \<longleftrightarrow>
     list_ex (\<lambda>r. case ort_destination r of
                    None \<Rightarrow> False
                  | Some (net, len) \<Rightarrow>
                      list_ex (\<lambda>h. oh_ifindex h = ifindex \<and> oh_gateway h = None) (ort_nexthops r)
                      \<and> contains net len gw)
       (routes_in s f TABLE_MAIN)"

section \<open>Gateways\<close>

definition candidates :: "system \<Rightarrow> u8 \<Rightarrow> family \<Rightarrow> u32 \<Rightarrow> instant \<Rightarrow> observed_route list" where
  "candidates s own f t now =
     filter (\<lambda>r. is_default r \<and> ort_kind r = Unicast \<and> ort_protocol r \<noteq> own \<and> \<not> route_expired r now)
       (routes_in s f t)"

definition all_gateways ::
  "observed_route \<Rightarrow> (u32, nexthop_message) btree_map \<Rightarrow> u32 \<Rightarrow> (ip_addr \<times> bool) list" where
  "all_gateways r nexthops ifindex =
     (case ort_nexthop_id r of
        Some i \<Rightarrow>
          (case btm_get nexthops i of
             Some n \<Rightarrow>
               if nm_group n = [] \<and> \<not> nm_blackhole n \<and> \<not> nm_fdb n \<and> \<not> nm_dead n \<and> \<not> nm_linkdown n
                  \<and> nm_ifindex n = Some ifindex
               then (case nm_gateway n of Some g \<Rightarrow> [(g, nm_onlink n)] | None \<Rightarrow> [])
               else []
           | None \<Rightarrow> [])
      | None \<Rightarrow>
          List.map_filter (\<lambda>h. map_option (\<lambda>g. (g, oh_onlink h)) (oh_gateway h))
            (filter (\<lambda>h. oh_ifindex h = ifindex \<and> \<not> oh_dead h \<and> \<not> oh_linkdown h) (ort_nexthops r)))"

definition route_gateways ::
  "observed_route \<Rightarrow> (u32, nexthop_message) btree_map \<Rightarrow> u32 \<Rightarrow> (ip_addr \<times> bool) list" where
  "route_gateways r nexthops ifindex =
     filter (\<lambda>(g, _). family_of g = ort_family r) (all_gateways r nexthops ifindex)"

type_synonym gateway_rank = "u32 \<times> int \<times> nat \<times> ip_addr"

definition better_hop ::
  "gateway_rank \<Rightarrow> ip_addr option \<times> bool \<Rightarrow> (gateway_rank \<times> ip_addr option \<times> bool) option
     \<Rightarrow> (gateway_rank \<times> ip_addr option \<times> bool) option" where
  "better_hop key hop best =
     (case best of
        None \<Rightarrow> Some (key, hop)
      | Some (k, _) \<Rightarrow> if key < k then Some (key, hop) else best)"

definition auto_gateway ::
  "config \<Rightarrow> system \<Rightarrow> u8 \<Rightarrow> family \<Rightarrow> u32 \<Rightarrow> instant \<Rightarrow> (ip_addr option \<times> bool) option" where
  "auto_gateway c s own f ifindex now =
     map_option snd
       (fold (\<lambda>(order, t).
           fold (\<lambda>r.
               fold (\<lambda>(gw, onlink).
                   better_hop (ort_metric r, - ort_preference r, order, gw) (Some gw, onlink))
                 (route_gateways r (sy_nexthops s) ifindex))
             (candidates s own f t now))
         (enumerate 0 (discovery_tables (c_routing c))) None)"

definition group_routes :: "config \<Rightarrow> system \<Rightarrow> u8 \<Rightarrow> family \<Rightarrow> u32 \<Rightarrow> instant \<Rightarrow> bool" where
  "group_routes c s own f ifindex now \<longleftrightarrow>
     list_ex (\<lambda>t.
       list_ex (\<lambda>r.
         case Option.bind (ort_nexthop_id r) (btm_get (sy_nexthops s)) of
           None \<Rightarrow> False
         | Some n \<Rightarrow>
             nm_group n \<noteq> [] \<and>
             (list_ex (\<lambda>h. oh_ifindex h = ifindex) (ort_nexthops r) \<or>
              list_ex (\<lambda>m. case btm_get (sy_nexthops s) m of
                             None \<Rightarrow> False | Some x \<Rightarrow> nm_ifindex x = Some ifindex) (nm_group n)))
         (candidates s own f t now))
       (discovery_tables (c_routing c))"

section \<open>Paths\<close>

definition on_link_addresses :: "system \<Rightarrow> u32 \<Rightarrow> family \<Rightarrow> observed_address list" where
  "on_link_addresses s ifindex f =
     filter (\<lambda>a. oa_index a = ifindex \<and> oa_family a = f \<and> usable a) (map snd (sy_addresses s))"

definition automatic :: "path_settings \<Rightarrow> family \<Rightarrow> observed_link \<Rightarrow> bool" where
  "automatic p f link \<longleftrightarrow> ps_gateway p = Auto \<and> \<not> (f = V4 \<and> ol_point_to_point link)"

definition path_source :: "system \<Rightarrow> path_settings \<Rightarrow> observed_address list \<Rightarrow> ip_addr option" where
  "path_source s p on_link =
     (case ps_source p of
        Static a \<Rightarrow>
          if list_ex (\<lambda>x. oa_address x = a \<and> usable x \<and> \<not> address_deprecated x) (map snd (sy_addresses s))
          then Some a else None
      | Auto \<Rightarrow> auto_source on_link)"

definition path_hop ::
  "system \<Rightarrow> path_settings \<Rightarrow> family \<Rightarrow> observed_link \<Rightarrow> (ip_addr option \<times> bool) option
     \<Rightarrow> (ip_addr option \<times> bool) option" where
  "path_hop s p f link auto_hop =
     (case ps_gateway p of
        Static gw \<Rightarrow>
          if gateway_onlink p \<or> connected s f (ol_index link) gw then Some (Some gw, gateway_onlink p) else None
      | Auto \<Rightarrow> if f = V4 \<and> ol_point_to_point link then Some (None, False) else auto_hop)"

definition discover_path ::
  "config \<Rightarrow> system \<Rightarrow> u8 \<Rightarrow> uplink \<Rightarrow> family \<Rightarrow> path_settings \<Rightarrow> instant \<times> instant \<Rightarrow> discovered" where
  "discover_path c s own u f p clock =
     (case link_by_name s (u_interface u) of
        None \<Rightarrow>
          \<lparr>ds_ifindex = None, ds_ready = Inl InterfaceRemoved,
           ds_local_addresses = set_option (static_source_elsewhere s p None),
           ds_gateway_missing = False, ds_group_only = False\<rparr>
      | Some link \<Rightarrow>
          let ifindex = ol_index link;
              on_link = on_link_addresses s ifindex f;
              local = set (map oa_address on_link) \<union> set_option (static_source_elsewhere s p (Some ifindex));
              auto_hop = (if automatic p f link \<and> link_usable link
                          then auto_gateway c s own f ifindex (fst clock) else None);
              missing = (automatic p f link \<and> link_usable link \<and> auto_hop = None);
              group_only = (missing \<and> group_routes c s own f ifindex (snd clock));
              discovered = (\<lambda>r. \<lparr>ds_ifindex = Some ifindex, ds_ready = r, ds_local_addresses = local,
                                  ds_gateway_missing = missing, ds_group_only = group_only\<rparr>)
          in if \<not> link_usable link then discovered (Inl CarrierLost)
             else case path_source s p on_link of
                    None \<Rightarrow> discovered (Inl AddressLost)
                  | Some source \<Rightarrow>
                      (case path_hop s p f link auto_hop of
                         Some (gateway, onlink) \<Rightarrow>
                           discovered (Inr \<lparr>rp_ifindex = ifindex, rp_gateway = gateway,
                                            rp_onlink = onlink, rp_source = source\<rparr>)
                       | None \<Rightarrow> discovered (Inl GatewayLost)))"

text \<open>\<open>out[a]\<close> of a key that is not in the map panics; the keys come from the map itself.\<close>

definition disjoint_sets :: "(path_key, discovered) btree_map \<Rightarrow> path_key \<Rightarrow> path_key \<Rightarrow> bool" where
  "disjoint_sets out a b =
     (case (btm_get out a, btm_get out b) of
        (Some x, Some y) \<Rightarrow> ds_local_addresses x \<inter> ds_local_addresses y = {}
      | _ \<Rightarrow> True)"

fun conflicts :: "(path_key, discovered) btree_map \<Rightarrow> path_key list \<Rightarrow> path_key set" where
  "conflicts out [] = {}"
| "conflicts out (a # ks) =
     (\<Union>b\<in>{b \<in> set ks. pk_family a = pk_family b \<and> \<not> disjoint_sets out a b}. {a, b}) \<union> conflicts out ks"

definition discover_paths ::
  "config \<Rightarrow> system \<Rightarrow> u8 \<Rightarrow> (path_key \<Rightarrow> instant \<times> instant) \<Rightarrow> (path_key, discovered) btree_map" where
  "discover_paths c s own clock =
     fold (\<lambda>u.
         fold (\<lambda>f out.
             case uplink_path u f of
               None \<Rightarrow> out
             | Some p \<Rightarrow>
                 let k = \<lparr>pk_uplink = u_id u, pk_family = f\<rparr>
                 in btm_insert k (discover_path c s own u f p (clock k)) out)
           (uplink_families u))
       (c_uplinks c) []"

definition discover ::
  "config \<Rightarrow> system \<Rightarrow> u8 \<Rightarrow> (path_key \<Rightarrow> instant \<times> instant) \<Rightarrow> (path_key, discovered) btree_map" where
  "discover c s own clock =
     (let out = discover_paths c s own clock;
          conflicted = conflicts out (map fst out)
      in btm_map (\<lambda>k d. if k \<in> conflicted then d\<lparr>ds_ready := Inl AddressConflict\<rparr> else d) out)"

section \<open>Least elements\<close>

lemma min_by_key_snoc:
  "min_by_key key (xs @ [x]) =
     (case min_by_key key xs of None \<Rightarrow> Some x | Some b \<Rightarrow> if key x < key b then Some x else Some b)"
  by (simp add: min_by_key_def split: option.split)

lemma min_by_key_None: "min_by_key key xs = None \<longleftrightarrow> xs = []"
proof (induction xs rule: rev_induct)
  case (snoc x xs)
  show ?case by (simp add: min_by_key_snoc split: option.split)
qed (simp add: min_by_key_def)

lemma min_by_key_Some:
  "min_by_key key xs = Some x \<Longrightarrow> x \<in> set xs \<and> (\<forall>y\<in>set xs. key x \<le> key y)"
proof (induction xs arbitrary: x rule: rev_induct)
  case (snoc y ys)
  then show ?case
    by (cases "min_by_key key ys")
      (auto simp: min_by_key_snoc min_by_key_None split: if_splits)
qed (simp add: min_by_key_def)

section \<open>The best gateway\<close>

text \<open>The usable next hops of every candidate route, each with its rank.\<close>

definition ranked_hops ::
  "config \<Rightarrow> system \<Rightarrow> u8 \<Rightarrow> family \<Rightarrow> u32 \<Rightarrow> instant \<Rightarrow> (gateway_rank \<times> ip_addr option \<times> bool) list" where
  "ranked_hops c s own f ifindex now =
     concat (map (\<lambda>(order, t).
       concat (map (\<lambda>r.
         map (\<lambda>(gw, onlink). ((ort_metric r, - ort_preference r, order, gw), Some gw, onlink))
           (route_gateways r (sy_nexthops s) ifindex))
         (candidates s own f t now)))
       (enumerate 0 (discovery_tables (c_routing c))))"

lemma fold_concat_map: "fold g (concat (map h xs)) = fold (\<lambda>x. fold g (h x)) xs"
  by (induction xs) simp_all

lemma fold_better_hop: "fold (\<lambda>(key, hop). better_hop key hop) xs None = min_by_key fst xs"
proof -
  have "(\<lambda>(key, hop). better_hop key hop)
    = (\<lambda>x best. case best of None \<Rightarrow> Some x | Some b \<Rightarrow> if fst x < fst b then Some x else best)"
    by (auto simp: fun_eq_iff better_hop_def split: option.split)
  then show ?thesis by (simp add: min_by_key_def)
qed

lemma auto_gateway_min:
  "auto_gateway c s own f ifindex now = map_option snd (min_by_key fst (ranked_hops c s own f ifindex now))"
  unfolding auto_gateway_def fold_better_hop [symmetric] ranked_hops_def fold_concat_map split_beta
    fold_map comp_def by (simp add: split_beta comp_def)

lemma enumerate_mem: "(i, x) \<in> set (enumerate 0 xs) \<longleftrightarrow> i < length xs \<and> xs ! i = x"
  by (auto simp: in_set_enumerate_eq)

lemma ranked_hops_mem:
  "((m, p, i, gw), g, onl) \<in> set (ranked_hops c s own f ifindex now) \<longleftrightarrow>
     g = Some gw \<and> i < length (discovery_tables (c_routing c)) \<and>
     (\<exists>r\<in>set (candidates s own f (discovery_tables (c_routing c) ! i) now).
        m = ort_metric r \<and> p = - ort_preference r \<and> (gw, onl) \<in> set (route_gateways r (sy_nexthops s) ifindex))"
  unfolding ranked_hops_def set_concat set_map image_iff by (force simp: enumerate_mem)

section \<open>Prefixes\<close>

lemma and_not_mask_eq_iff:
  "n AND NOT (mask k) = a AND NOT (mask k) \<longleftrightarrow> drop_bit k n = drop_bit k a" for n a :: "'a::len word"
proof
  assume h: "n AND NOT (mask k) = a AND NOT (mask k)"
  have "bit n i = bit a i" if "k \<le> i" for i
  proof (cases "i < LENGTH('a)")
    case True
    with arg_cong [OF h, of "\<lambda>w. bit w i"] that show ?thesis by (simp add: bit_simps)
  qed (auto dest: bit_imp_le_length)
  then show "drop_bit k n = drop_bit k a" by (intro bit_word_eqI) (simp add: bit_simps)
next
  assume h: "drop_bit k n = drop_bit k a"
  have "bit n i = bit a i" if "k \<le> i" for i
    using arg_cong [OF h, of "\<lambda>w. bit w (i - k)"] that by (simp add: bit_simps)
  then show "n AND NOT (mask k) = a AND NOT (mask k)"
    by (intro bit_word_eqI) (auto simp: bit_simps)
qed

lemma contains_V4:
  assumes "unat len \<le> 32"
  shows "contains (IpV4 n) len (IpV4 a) \<longleftrightarrow> drop_bit (32 - unat len) n = drop_bit (32 - unat len) a"
proof (cases "len = 0")
  case True
  have "drop_bit 32 w = 0" for w :: u32 by (intro bit_word_eqI) (simp add: bit_simps bit_imp_le_length)
  with True show ?thesis by simp
next
  case False
  have "unat (min len 32) = unat len" using assms by (simp add: min_def word_le_iff_unat)
  with False show ?thesis by (simp add: and_not_mask_eq_iff Let_def)
qed

lemma contains_V6:
  assumes "unat len \<le> 128"
  shows "contains (IpV6 n) len (IpV6 a) \<longleftrightarrow> drop_bit (128 - unat len) n = drop_bit (128 - unat len) a"
proof (cases "len = 0")
  case True
  have "drop_bit 128 w = 0" for w :: u128 by (intro bit_word_eqI) (simp add: bit_simps bit_imp_le_length)
  with True show ?thesis by simp
next
  case False
  have "unat (min len 128) = unat len" using assms by (simp add: min_def word_le_iff_unat)
  with False show ?thesis by (simp add: and_not_mask_eq_iff Let_def)
qed

section \<open>The paths of a configuration\<close>

definition config_paths :: "config \<Rightarrow> (uplink \<times> family) list" where
  "config_paths c = concat (map (\<lambda>u. map (\<lambda>f. (u, f)) (uplink_families u)) (c_uplinks c))"

definition path_of :: "uplink \<times> family \<Rightarrow> path_key" where
  "path_of x = \<lparr>pk_uplink = u_id (fst x), pk_family = snd x\<rparr>"

definition found :: "config \<Rightarrow> system \<Rightarrow> u8 \<Rightarrow> (path_key \<Rightarrow> instant \<times> instant) \<Rightarrow> uplink \<times> family \<Rightarrow> discovered" where
  "found c s own clock x =
     discover_path c s own (fst x) (snd x) (the (uplink_path (fst x) (snd x))) (clock (path_of x))"

lemma config_paths_mem: "(u, f) \<in> set (config_paths c) \<longleftrightarrow> u \<in> set (c_uplinks c) \<and> uplink_path u f \<noteq> None"
proof -
  have "(u, f) \<in> set (config_paths c) \<longleftrightarrow> u \<in> set (c_uplinks c) \<and> f \<in> set (uplink_families u)"
    by (auto simp: config_paths_def)
  then show ?thesis by (simp add: uplink_families_iff)
qed

lemma discover_paths_fold:
  "discover_paths c s own clock = fold (\<lambda>x. btm_insert (path_of x) (found c s own clock x)) (config_paths c) []"
proof -
  have "fold (\<lambda>f out. case uplink_path u f of None \<Rightarrow> out | Some p \<Rightarrow>
        let k = \<lparr>pk_uplink = u_id u, pk_family = f\<rparr>
        in btm_insert k (discover_path c s own u f p (clock k)) out) (uplink_families u)
    = fold (\<lambda>f. btm_insert (path_of (u, f)) (found c s own clock (u, f))) (uplink_families u)" for u
    by (rule ext, rule fold_cong) (auto simp: uplink_families_iff path_of_def found_def Let_def fun_eq_iff)
  then show ?thesis
    unfolding discover_paths_def config_paths_def fold_concat_map fold_map comp_def by simp
qed

lemma path_of_inject:
  assumes "config_wf c" and "x \<in> set (config_paths c)" and "y \<in> set (config_paths c)" and "path_of x = path_of y"
  shows "x = y"
proof -
  have "u = v" if "u \<in> set (c_uplinks c)" "v \<in> set (c_uplinks c)" "u_id u = u_id v" for u v
    using assms(1) that by (auto simp: config_wf_def uplinks_wf_def distinct_map inj_on_def)
  moreover obtain u f v g where "x = (u, f)" "y = (v, g)" by fastforce
  ultimately show ?thesis using assms(2-4) by (auto simp: config_paths_mem path_of_def)
qed

lemma discover_paths_wf: "btm_wf (discover_paths c s own clock)"
  unfolding discover_paths_fold by (rule btm.fold_ins(1)) simp

lemma discover_paths_get:
  assumes "config_wf c"
  shows "btm_get (discover_paths c s own clock) k = Some d \<longleftrightarrow>
    (\<exists>x\<in>set (config_paths c). k = path_of x \<and> d = found c s own clock x)"
proof -
  have "btm_get (discover_paths c s own clock) k =
    map_option (found c s own clock) (find (\<lambda>x. path_of x = k) (rev (config_paths c)))"
    unfolding discover_paths_fold by (subst btm.fold_ins(2)) (simp_all add: btm.get_emp split: option.split)
  then have "btm_get (discover_paths c s own clock) k = Some d \<longleftrightarrow>
    (\<exists>x. find (\<lambda>x. path_of x = k) (rev (config_paths c)) = Some x \<and> found c s own clock x = d)"
    unfolding map_option_eq_Some [symmetric] by simp
  moreover have "find (\<lambda>x. path_of x = k) (rev (config_paths c)) = Some x
      \<longleftrightarrow> x \<in> set (config_paths c) \<and> k = path_of x" for x
  proof
    assume "x \<in> set (config_paths c) \<and> k = path_of x"
    moreover from this obtain y where "find (\<lambda>x. path_of x = k) (rev (config_paths c)) = Some y"
      by (cases "find (\<lambda>x. path_of x = k) (rev (config_paths c))") (auto simp: find_None_iff_mem)
    ultimately show "find (\<lambda>x. path_of x = k) (rev (config_paths c)) = Some x"
      using path_of_inject [OF assms, of x y] by (auto dest: find_Some_iff_mem)
  qed (auto dest: find_Some_iff_mem)
  ultimately show ?thesis by blast
qed

section \<open>Conflicts\<close>

lemma disjoint_sets_sym: "disjoint_sets out a b \<longleftrightarrow> disjoint_sets out b a"
  by (auto simp: disjoint_sets_def split: option.splits)

lemma conflicts_iff:
  assumes "distinct ks"
  shows "a \<in> conflicts out ks \<longleftrightarrow>
    a \<in> set ks \<and> (\<exists>b\<in>set ks. b \<noteq> a \<and> pk_family a = pk_family b \<and> \<not> disjoint_sets out a b)"
  using assms
proof (induction ks)
  case (Cons k ks)
  have step: "a \<in> conflicts out (k # ks) \<longleftrightarrow>
    (\<exists>b\<in>set ks. pk_family k = pk_family b \<and> \<not> disjoint_sets out k b \<and> (a = k \<or> a = b)) \<or> a \<in> conflicts out ks"
    by auto
  have "a \<in> conflicts out ks \<longleftrightarrow>
    a \<in> set ks \<and> (\<exists>b\<in>set ks. b \<noteq> a \<and> pk_family a = pk_family b \<and> \<not> disjoint_sets out a b)"
    using Cons by simp
  moreover have "k \<notin> set ks" using Cons.prems by simp
  ultimately show ?case
    unfolding step set_simps using disjoint_sets_sym [of out k a] by (cases "a = k") auto
qed simp

definition clashes :: "(path_key, discovered) btree_map \<Rightarrow> path_key \<Rightarrow> discovered \<Rightarrow> bool" where
  "clashes out k d \<longleftrightarrow>
     (\<exists>b e. b \<noteq> k \<and> pk_family k = pk_family b \<and> btm_get out b = Some e
        \<and> ds_local_addresses d \<inter> ds_local_addresses e \<noteq> {})"

lemma discover_get:
  "btm_get (discover c s own clock) k =
     map_option (\<lambda>d. if clashes (discover_paths c s own clock) k d
                      then d\<lparr>ds_ready := Inl AddressConflict\<rparr> else d)
       (btm_get (discover_paths c s own clock) k)"
proof -
  let ?out = "discover_paths c s own clock"
  have wf: "btm_wf ?out" by (rule discover_paths_wf)
  have keys: "b \<in> set (map fst ?out) \<longleftrightarrow> (\<exists>e. btm_get ?out b = Some e)" for b
    using btm_get_Some_mem [OF wf] by force
  have "k \<in> conflicts ?out (map fst ?out) \<longleftrightarrow> clashes ?out k d" if d: "btm_get ?out k = Some d" for d
  proof -
    have "disjoint_sets ?out k b \<longleftrightarrow> ds_local_addresses d \<inter> ds_local_addresses e = {}"
      if "btm_get ?out b = Some e" for b e
      using d that by (simp add: disjoint_sets_def)
    with d show ?thesis
      unfolding conflicts_iff [OF btm_wf_distinct [OF wf]] Bex_def keys clashes_def by blast
  qed
  then show ?thesis
    by (cases "btm_get ?out k") (simp_all add: discover_def Let_def btm_get_map)
qed

text \<open>
  C15. No address is shared by a ready path: when a path is ready, its local addresses (and with them
  its source rules and guards) are disjoint from those of every other path of its family, so the
  rules of one uplink never capture the traffic of another.
\<close>

theorem ready_paths_disjoint:
  assumes "btm_get (discover c s own clock) a = Some x" and "btm_get (discover c s own clock) b = Some y"
    and "a \<noteq> b" and "pk_family a = pk_family b" and "ds_ready x = Inr rp"
  shows "ds_local_addresses x \<inter> ds_local_addresses y = {}"
proof -
  let ?out = "discover_paths c s own clock"
  obtain x0 where x0: "btm_get ?out a = Some x0"
    "x = (if clashes ?out a x0 then x0\<lparr>ds_ready := Inl AddressConflict\<rparr> else x0)"
    using assms(1) by (auto simp: discover_get)
  obtain y0 where y0: "btm_get ?out b = Some y0"
    "y = (if clashes ?out b y0 then y0\<lparr>ds_ready := Inl AddressConflict\<rparr> else y0)"
    using assms(2) by (auto simp: discover_get)
  have not: "\<not> clashes ?out a x0" using x0(2) assms(5) by auto
  have "ds_local_addresses x0 \<inter> ds_local_addresses y0 = {}"
  proof (rule ccontr)
    assume "ds_local_addresses x0 \<inter> ds_local_addresses y0 \<noteq> {}"
    with y0(1) assms(3,4) have "clashes ?out a x0"
      unfolding clashes_def by (intro exI [of _ b] exI [of _ y0]) simp
    with not show False ..
  qed
  moreover have "ds_local_addresses x = ds_local_addresses x0" unfolding x0(2) by simp
  moreover have "ds_local_addresses y = ds_local_addresses y0" unfolding y0(2) by simp
  ultimately show ?thesis by simp
qed

section \<open>Readiness\<close>

lemma discover_path_ready:
  assumes "ds_ready (discover_path c s own u f p clk) = Inr rp"
  shows "\<exists>link. link_by_name s (u_interface u) = Some link \<and> link_usable link \<and> rp_ifindex rp = ol_index link
    \<and> path_source s p (on_link_addresses s (ol_index link) f) = Some (rp_source rp)
    \<and> path_hop s p f link
        (if automatic p f link then auto_gateway c s own f (ol_index link) (fst clk) else None)
      = Some (rp_gateway rp, rp_onlink rp)"
proof (cases "link_by_name s (u_interface u)")
  case None
  with assms show ?thesis by (simp add: discover_path_def)
next
  case (Some link)
  let ?src = "path_source s p (on_link_addresses s (ol_index link) f)"
  let ?hop = "path_hop s p f link
    (if automatic p f link then auto_gateway c s own f (ol_index link) (fst clk) else None)"
  have up: "link_usable link"
    using assms Some by (simp add: discover_path_def Let_def split: if_splits)
  obtain src where src: "?src = Some src"
    using assms Some up by (cases ?src) (simp_all add: discover_path_def Let_def)
  obtain g onl where hop: "?hop = Some (g, onl)"
    using assms Some up src by (cases ?hop) (simp_all add: discover_path_def Let_def, fastforce)
  have "rp = \<lparr>rp_ifindex = ol_index link, rp_gateway = g, rp_onlink = onl, rp_source = src\<rparr>"
    using assms Some up src hop by (simp add: discover_path_def Let_def)
  with Some up src hop show ?thesis by simp
qed

lemma discover_path_local:
  assumes "link_by_name s (u_interface u) = Some link"
  shows "ds_local_addresses (discover_path c s own u f p clk) =
    set (map oa_address (on_link_addresses s (ol_index link) f))
    \<union> set_option (static_source_elsewhere s p (Some (ol_index link)))"
  using assms by (simp add: discover_path_def Let_def split: option.split)

lemma discover_ready_path:
  assumes "config_wf c" and "u \<in> set (c_uplinks c)" and "uplink_path u f = Some p"
    and "btm_get (discover c s own clock) (path_of (u, f)) = Some d" and "ds_ready d = Inr rp"
  shows "d = discover_path c s own u f p (clock (path_of (u, f)))"
proof -
  obtain d0 where d0: "btm_get (discover_paths c s own clock) (path_of (u, f)) = Some d0" "d = d0"
    using assms(4,5) by (auto simp: discover_get split: if_splits)
  then obtain x where x: "x \<in> set (config_paths c)" "path_of (u, f) = path_of x" "d = found c s own clock x"
    using discover_paths_get [OF assms(1)] by blast
  have "(u, f) \<in> set (config_paths c)" using assms(2,3) by (simp add: config_paths_mem)
  with path_of_inject [OF assms(1) _ x(1,2)] x(3) assms(3) show ?thesis by (auto simp: found_def)
qed

text \<open>
  C16. The source of a ready path is a good address: the system has it, global and neither tentative
  nor deprecated; a configured source is used as it is, and an automatic one is an address of the
  interface that is not temporary and comes first among those by permanence, primary status and
  value. The path's interface is up with carrier, and the source is one of its local addresses, so
  that source rules cover it.
\<close>

theorem ready_source:
  assumes "config_wf c" and "u \<in> set (c_uplinks c)" and "uplink_path u f = Some p"
    and "btm_get (discover c s own clock) \<lparr>pk_uplink = u_id u, pk_family = f\<rparr> = Some d" and "ds_ready d = Inr rp"
    and "\<forall>a\<in>set (map snd (sy_addresses s)). family_of (oa_address a) = oa_family a"
    and "\<forall>a. ps_source p = Static a \<longrightarrow> family_of a = f"
  shows "\<exists>link a. link_by_name s (u_interface u) = Some link \<and> ol_up link \<and> ol_lower_up link
    \<and> rp_ifindex rp = ol_index link
    \<and> a \<in> set (map snd (sy_addresses s)) \<and> oa_address a = rp_source rp
    \<and> address_global a \<and> \<not> address_tentative a \<and> \<not> address_dad_failed a \<and> \<not> address_deprecated a
    \<and> rp_source rp \<in> ds_local_addresses d
    \<and> (case ps_source p of
         Static x \<Rightarrow> rp_source rp = x
       | Auto \<Rightarrow> a \<in> set (on_link_addresses s (ol_index link) f) \<and> \<not> address_temporary a \<and>
           (\<forall>b\<in>set (on_link_addresses s (ol_index link) f).
              \<not> address_temporary b \<and> \<not> address_deprecated b \<longrightarrow> source_rank a \<le> source_rank b))"
proof -
  have d: "d = discover_path c s own u f p (clock (path_of (u, f)))"
    using discover_ready_path [OF assms(1-3)] assms(4,5) by (simp add: path_of_def)
  obtain link where link: "link_by_name s (u_interface u) = Some link" "link_usable link" "rp_ifindex rp = ol_index link"
    "path_source s p (on_link_addresses s (ol_index link) f) = Some (rp_source rp)"
    using discover_path_ready [of c s own u f p] assms(5) unfolding d by blast
  let ?on = "on_link_addresses s (ol_index link) f"
  have local: "ds_local_addresses d = set (map oa_address ?on)
      \<union> set_option (static_source_elsewhere s p (Some (ol_index link)))"
    unfolding d by (rule discover_path_local [OF link(1)])
  have up: "ol_up link" "ol_lower_up link" using link(2) by (simp_all add: link_usable_def)
  show ?thesis
  proof (cases "ps_source p")
    case Auto
    then obtain a where a: "min_by_key source_rank
        (filter (\<lambda>a. \<not> address_temporary a \<and> \<not> address_deprecated a) ?on) = Some a" "rp_source rp = oa_address a"
      using link(4) by (auto simp: path_source_def auto_source_def)
    note m = min_by_key_Some [OF a(1)]
    have on: "a \<in> set ?on" "\<not> address_temporary a" "\<not> address_deprecated a"
      and least: "\<forall>b\<in>set ?on. \<not> address_temporary b \<and> \<not> address_deprecated b \<longrightarrow> source_rank a \<le> source_rank b"
      using m by simp_all
    have "a \<in> set (map snd (sy_addresses s))" "usable a" using on(1) by (simp_all add: on_link_addresses_def)
    moreover have "rp_source rp \<in> ds_local_addresses d" using on(1) a(2) local by simp
    ultimately show ?thesis
      using on least a(2) link(1,3) up Auto by (intro exI [of _ link] exI [of _ a]) (simp add: usable_def)
  next
    case (Static x)
    then have ex: "list_ex (\<lambda>y. oa_address y = x \<and> usable y \<and> \<not> address_deprecated y) (map snd (sy_addresses s))"
      and src: "rp_source rp = x"
      using link(4) by (simp_all add: path_source_def split: if_splits)
    from ex obtain a where a: "a \<in> set (map snd (sy_addresses s))" "oa_address a = x" "usable a"
      "\<not> address_deprecated a" unfolding list_ex_iff by blast
    have "oa_family a = f" using bspec [OF assms(6) a(1)] a(2) assms(7) Static by simp
    have "x \<in> ds_local_addresses d"
    proof (cases "oa_index a = ol_index link")
      case True
      with a \<open>oa_family a = f\<close> have "a \<in> set ?on" by (simp add: on_link_addresses_def)
      with a(2) local show ?thesis by auto
    next
      case False
      with a have "find (\<lambda>y. oa_address y = x \<and> Some (oa_index y) \<noteq> Some (ol_index link) \<and> usable y)
        (map snd (sy_addresses s)) \<noteq> None" unfolding find_None_iff_mem by blast
      then obtain y where y: "find (\<lambda>y. oa_address y = x \<and> Some (oa_index y) \<noteq> Some (ol_index link) \<and> usable y)
        (map snd (sy_addresses s)) = Some y" by blast
      then have "oa_address y = x" using find_Some_iff_mem by fast
      with y Static have "static_source_elsewhere s p (Some (ol_index link)) = Some x"
        by (simp add: static_source_elsewhere_def)
      with local show ?thesis by simp
    qed
    with a src link(1,3) up Static show ?thesis
      by (intro exI [of _ link] exI [of _ a]) (simp add: usable_def)
  qed
qed

text \<open>
  The gateway of a ready path is the configured one, when the path says so and the gateway is
  on-link or covered by a connected route; none on an IPv4 point-to-point link; and otherwise the
  best of the discovery tables: the least, by metric, router preference, table order and address,
  among the usable next hops on the interface of the default routes that are not the daemon's own
  and not expired.
\<close>

theorem ready_gateway:
  assumes "config_wf c" and "u \<in> set (c_uplinks c)" and "uplink_path u f = Some p"
    and "btm_get (discover c s own clock) \<lparr>pk_uplink = u_id u, pk_family = f\<rparr> = Some d" and "ds_ready d = Inr rp"
  shows "\<exists>link. link_by_name s (u_interface u) = Some link \<and>
    (case ps_gateway p of
       Static gw \<Rightarrow> rp_gateway rp = Some gw \<and> rp_onlink rp = gateway_onlink p \<and>
         (gateway_onlink p \<or> connected s f (ol_index link) gw)
     | Auto \<Rightarrow>
         if f = V4 \<and> ol_point_to_point link then rp_gateway rp = None
         else \<exists>m pref i gw. rp_gateway rp = Some gw \<and> family_of gw = f \<and>
           ((m, pref, i, gw), Some gw, rp_onlink rp)
             \<in> set (ranked_hops c s own f (ol_index link) (fst (clock \<lparr>pk_uplink = u_id u, pk_family = f\<rparr>))) \<and>
           (\<forall>x\<in>set (ranked_hops c s own f (ol_index link) (fst (clock \<lparr>pk_uplink = u_id u, pk_family = f\<rparr>))).
              (m, pref, i, gw) \<le> fst x))"
proof -
  let ?k = "\<lparr>pk_uplink = u_id u, pk_family = f\<rparr>"
  have k: "path_of (u, f) = ?k" by (simp add: path_of_def)
  have d: "d = discover_path c s own u f p (clock ?k)"
    using discover_ready_path [OF assms(1-3)] assms(4,5) by (simp add: k)
  obtain link where link: "link_by_name s (u_interface u) = Some link"
    "path_hop s p f link (if automatic p f link then auto_gateway c s own f (ol_index link) (fst (clock ?k)) else None)
      = Some (rp_gateway rp, rp_onlink rp)"
    using discover_path_ready [of c s own u f p "clock ?k"] assms(5) unfolding d by blast
  show ?thesis
  proof (cases "ps_gateway p")
    case (Static gw)
    with link show ?thesis by (intro exI [of _ link]) (auto simp: path_hop_def split: if_splits)
  next
    case Auto
    show ?thesis
    proof (cases "f = V4 \<and> ol_point_to_point link")
      case True
      with Auto link show ?thesis by (intro exI [of _ link]) (simp add: path_hop_def)
    next
      case False
      with Auto link(2) have "auto_gateway c s own f (ol_index link) (fst (clock ?k)) = Some (rp_gateway rp, rp_onlink rp)"
        by (auto simp: path_hop_def automatic_def)
      then obtain rank where min: "min_by_key fst (ranked_hops c s own f (ol_index link) (fst (clock ?k)))
          = Some (rank, rp_gateway rp, rp_onlink rp)"
        by (auto simp: auto_gateway_min)
      obtain m pref i gw where rank: "rank = (m, pref, i, gw)" by (cases rank)
      note least = min_by_key_Some [OF min]
      then have gw: "rp_gateway rp = Some gw" using ranked_hops_mem [of m pref i gw] by (auto simp: rank)
      have "family_of gw = f"
        using least by (auto simp: rank ranked_hops_mem candidates_def routes_in_def route_gateways_def)
      with least gw have "\<exists>m pref i gw. rp_gateway rp = Some gw \<and> family_of gw = f \<and>
           ((m, pref, i, gw), Some gw, rp_onlink rp)
             \<in> set (ranked_hops c s own f (ol_index link) (fst (clock ?k))) \<and>
           (\<forall>x\<in>set (ranked_hops c s own f (ol_index link) (fst (clock ?k))). (m, pref, i, gw) \<le> fst x)"
        unfolding rank by fastforce
      with False Auto link(1) show ?thesis by (intro exI [of _ link]) auto
    qed
  qed
qed

section \<open>An example\<close>

definition example_address :: observed_address where
  "example_address =
     \<lparr>oa_index = 1, oa_family = V4, oa_address = IpV4 0xc0000265, oa_prefix_len = 24, oa_scope = 0,
      oa_flags = {AfPermanent}\<rparr>"

definition example_system :: system where
  "example_system =
     \<lparr>sy_links = [(1, \<lparr>ol_index = 1, ol_name = ''if-a'', ol_up = True, ol_lower_up = True, ol_point_to_point = False\<rparr>)],
      sy_addresses = [((1, IpV4 0xc0000265), example_address)],
      sy_routes = [((V4, 254, None, 0, ViaHop 1 (Some (IpV4 1))), example_default_route 1)],
      sy_rules = [], sy_nexthops = []\<rparr>"

definition example_clock :: "path_key \<Rightarrow> instant \<times> instant" where
  "example_clock k = (0, 0)"

abbreviation example_path :: path_key where
  "example_path \<equiv> \<lparr>pk_uplink = UplinkId 1, pk_family = V4\<rparr>"

definition example_found :: discovered where
  "example_found =
     \<lparr>ds_ifindex = Some 1,
      ds_ready = Inr \<lparr>rp_ifindex = 1, rp_gateway = Some (IpV4 1), rp_onlink = False, rp_source = IpV4 0xc0000265\<rparr>,
      ds_local_addresses = {IpV4 0xc0000265}, ds_gateway_missing = False, ds_group_only = False\<rparr>"

lemma example_config_tables: "discovery_tables (c_routing example_config) = [254]"
  by (simp add: example_config_def)

lemma example_uplink_ipv4:
  "u_ipv4 (example_uplink n name w) =
     Some \<lparr>ps_source = Auto, ps_gateway = Auto, gateway_onlink = False, ps_nat = Masquerade\<rparr>"
  by (simp add: example_uplink_def)

lemma example_path_found:
  "discover_path example_config example_system 187 (example_uplink 1 ''a'' 1) V4
     \<lparr>ps_source = Auto, ps_gateway = Auto, gateway_onlink = False, ps_nat = Masquerade\<rparr> (0, 0) = example_found"
proof -
  have "auto_gateway example_config example_system 187 V4 1 0 = Some (Some (IpV4 1), False)"
    by (simp add: auto_gateway_def example_config_tables candidates_def routes_in_def example_system_def
        example_default_route_def is_default_def route_expired_def route_gateways_def all_gateways_def
        List.map_filter_simps better_hop_def)
  then show ?thesis
    by (simp add: discover_path_def example_uplink_def link_by_name_def example_system_def example_found_def
        automatic_def link_usable_def on_link_addresses_def example_address_def usable_def address_global_def
        address_tentative_def address_dad_failed_def address_temporary_def address_deprecated_def
        static_source_elsewhere_def path_source_def auto_source_def min_by_key_def path_hop_def Let_def)
qed

lemma example_discovered:
  "btm_get (discover example_config example_system 187 example_clock) example_path = Some example_found"
  "btm_get (discover example_config example_system 187 example_clock) \<lparr>pk_uplink = UplinkId 2, pk_family = V4\<rparr> =
     Some \<lparr>ds_ifindex = None, ds_ready = Inl InterfaceRemoved, ds_local_addresses = {}, ds_gateway_missing = False,
           ds_group_only = False\<rparr>"
proof -
  let ?d2 = "\<lparr>ds_ifindex = None, ds_ready = Inl InterfaceRemoved, ds_local_addresses = {}, ds_gateway_missing = False,
           ds_group_only = False\<rparr> :: discovered"
  have "discover_path example_config example_system 187 (example_uplink 2 ''b'' 2) V4
     \<lparr>ps_source = Auto, ps_gateway = Auto, gateway_onlink = False, ps_nat = Masquerade\<rparr> (0, 0) = ?d2"
    by (simp add: discover_path_def example_uplink_def link_by_name_def example_system_def static_source_elsewhere_def)
  then have paths: "discover_paths example_config example_system 187 example_clock =
    [(example_path, example_found), (\<lparr>pk_uplink = UplinkId 2, pk_family = V4\<rparr>, ?d2)]"
    using example_path_found
    by (simp add: discover_paths_def example_config_uplinks uplink_families_def all_families_def example_clock_def
        Let_def example_uplink_ipv4 less_path_key_ext_def less_uplink_id_def)
  show "btm_get (discover example_config example_system 187 example_clock) example_path = Some example_found"
    and "btm_get (discover example_config example_system 187 example_clock) \<lparr>pk_uplink = UplinkId 2, pk_family = V4\<rparr> = Some ?d2"
    by (simp_all add: discover_def paths Let_def btm_map_def btm_get_def disjoint_sets_def)
qed

theorem ready_paths_disjoint_witness:
  "ds_local_addresses example_found \<inter>
     ds_local_addresses (the (btm_get (discover example_config example_system 187 example_clock)
       \<lparr>pk_uplink = UplinkId 2, pk_family = V4\<rparr>)) = {}"
  using ready_paths_disjoint [OF example_discovered] by (simp add: example_discovered example_found_def)

lemma example_uplink_mem: "example_uplink 1 ''a'' 1 \<in> set (c_uplinks example_config)"
  "uplink_path (example_uplink 1 ''a'' 1) V4 =
     Some \<lparr>ps_source = Auto, ps_gateway = Auto, gateway_onlink = False, ps_nat = Masquerade\<rparr>"
  "u_interface (example_uplink 1 ''a'' 1) = ''if-a''"
  "\<lparr>pk_uplink = u_id (example_uplink 1 ''a'' 1), pk_family = V4\<rparr> = example_path"
  by (simp_all add: example_config_uplinks example_uplink_ipv4) (simp add: example_uplink_def)

theorem ready_source_witness:
  "\<exists>link a. link_by_name example_system ''if-a'' = Some link \<and> ol_up link
     \<and> a \<in> set (map snd (sy_addresses example_system)) \<and> oa_address a = IpV4 0xc0000265"
proof -
  have "\<exists>rp. ds_ready example_found = Inr rp \<and> rp_source rp = IpV4 0xc0000265"
    by (simp add: example_found_def)
  then obtain rp where rp: "ds_ready example_found = Inr rp" "rp_source rp = IpV4 0xc0000265" by blast
  have typed: "\<forall>a\<in>set (map snd (sy_addresses example_system)). family_of (oa_address a) = oa_family a"
    by (simp add: example_system_def example_address_def)
  have auto: "\<forall>a. ps_source \<lparr>ps_source = Auto, ps_gateway = Auto, gateway_onlink = False, ps_nat = Masquerade\<rparr> = Static a
      \<longrightarrow> family_of a = V4" by simp
  from ready_source [OF example_config_wf example_uplink_mem(1,2), unfolded example_uplink_mem(3,4),
      OF example_discovered(1) rp(1) typed auto] rp(2)
  show ?thesis by metis
qed

theorem ready_gateway_witness:
  "\<exists>link m pref i. link_by_name example_system ''if-a'' = Some link
     \<and> ((m, pref, i, IpV4 1), Some (IpV4 1), False)
          \<in> set (ranked_hops example_config example_system 187 V4 (ol_index link) 0)"
proof -
  have "\<exists>rp. ds_ready example_found = Inr rp \<and> rp_gateway rp = Some (IpV4 1) \<and> rp_onlink rp = False"
    by (simp add: example_found_def)
  then obtain rp where rp: "ds_ready example_found = Inr rp" "rp_gateway rp = Some (IpV4 1)" "rp_onlink rp = False"
    by blast
  have link: "link_by_name example_system ''if-a'' = Some link \<Longrightarrow> \<not> ol_point_to_point link" for link
    by (auto simp: link_by_name_def example_system_def)
  have "\<exists>link. link_by_name example_system ''if-a'' = Some link \<and>
      (\<exists>m pref i. ((m, pref, i, IpV4 1), Some (IpV4 1), False)
         \<in> set (ranked_hops example_config example_system 187 V4 (ol_index link) 0))"
    using ready_gateway [OF example_config_wf example_uplink_mem(1,2), unfolded example_uplink_mem(3,4),
      OF example_discovered(1) rp(1)] link
    by (auto simp: rp(2,3) example_clock_def) blast
  then show ?thesis by blast
qed

end
