(* ===== verification/Probe.thy ===== *)
theory Probe
  imports Quality Nexthop
begin

text \<open>
  The prober (\<open>probe.rs\<close>): the socket filter of the raw ICMP socket, the rounds of attempts, the
  attempts waiting for an echo reply, and the bytes of echo requests and replies. What the network
  does is a parameter: a round runs over the sequence of events its concurrent attempts produce (an
  attempt starts, an attempt ends with a sample, a target is done), in any interleaving. Bytes are a
  list of \<open>u8\<close>.
\<close>

unbundle bit_operations_syntax

section \<open>The socket filter\<close>

record sock_filter =
  sf_code :: u16
  sf_jt :: u8
  sf_jf :: u8
  sf_k :: u32

definition LDB_ABS :: u16 where "LDB_ABS = 0x30"
definition LDB_IND :: u16 where "LDB_IND = 0x50"
definition LDX_MSH :: u16 where "LDX_MSH = 0xb1"
definition JEQ_K :: u16 where "JEQ_K = 0x15"
definition RET_K :: u16 where "RET_K = 0x06"

definition sock_filter :: "u16 \<Rightarrow> u8 \<Rightarrow> u8 \<Rightarrow> u32 \<Rightarrow> sock_filter" where
  "sock_filter code jt jf k = \<lparr>sf_code = code, sf_jt = jt, sf_jf = jf, sf_k = k\<rparr>"

definition icmp_filter :: "bool \<Rightarrow> u8 \<Rightarrow> sock_filter list" where
  "icmp_filter ipv4 icmp_type =
     (let load = (\<lambda>k. if ipv4 then sock_filter LDB_IND 0 0 k else sock_filter LDB_ABS 0 0 k)
      in (if ipv4 then [sock_filter LDX_MSH 0 0 0] else [])
         @ [load 0,
            sock_filter JEQ_K 0 3 (ucast icmp_type),
            load 1,
            sock_filter JEQ_K 0 1 0,
            sock_filter RET_K 0 0 (- 1),
            sock_filter RET_K 0 0 0])"

section \<open>Rounds\<close>

record probe_spec =
  sp_path :: path_key
  sp_generation :: u64
  sp_interface :: string
  sp_ifindex :: u32
  sp_source :: ip_addr
  sp_mark :: u32
  sp_targets :: "target list"
  sp_interval :: duration
  sp_timeout :: duration
  sp_attempts :: u8
  sp_required_reachable :: u8
  sp_run_to_completion :: bool

record round_report =
  rr_path :: path_key
  rr_generation :: u64
  rr_passed :: bool
  rr_reachable :: nat
  rr_samples :: "sample list"
  rr_canceled :: nat

text \<open>
  The attempts of one target, one after the other: \<open>outcomes\<close> are the results of the attempts the
  network would give. The samples, and whether one got a valid reply.
\<close>

fun target_attempts :: "nat \<Rightarrow> target \<Rightarrow> duration option list \<Rightarrow> sample list \<times> bool" where
  "target_attempts 0 t outcomes = ([], False)"
| "target_attempts (Suc n) t [] = ([], False)"
| "target_attempts (Suc n) t (rtt # outcomes) =
     (let s = \<lparr>sm_target = t, sm_rtt = rtt\<rparr>
      in if rtt \<noteq> None then ([s], True)
         else case target_attempts n t outcomes of (ss, ok) \<Rightarrow> (s # ss, ok))"

datatype round_event = AttemptStarted | AttemptEnded sample | TargetDone bool

record round_state =
  rs_started :: nat
  rs_samples :: "sample list"
  rs_reachable :: nat
  rs_done :: nat

definition round_certain :: "nat \<Rightarrow> nat \<Rightarrow> round_state \<Rightarrow> bool" where
  "round_certain required total_targets st \<longleftrightarrow>
     required \<le> rs_reachable st \<or> rs_reachable st + (total_targets - rs_done st) < required"

fun round_loop :: "nat \<Rightarrow> nat \<Rightarrow> bool \<Rightarrow> round_event list \<Rightarrow> round_state \<Rightarrow> round_state" where
  "round_loop required n whole [] st = st"
| "round_loop required n whole (AttemptStarted # es) st =
     round_loop required n whole es (st\<lparr>rs_started := rs_started st + 1\<rparr>)"
| "round_loop required n whole (AttemptEnded s # es) st =
     round_loop required n whole es (st\<lparr>rs_samples := rs_samples st @ [s]\<rparr>)"
| "round_loop required n whole (TargetDone ok # es) st =
     (let st' = st\<lparr>rs_done := rs_done st + 1, rs_reachable := rs_reachable st + (if ok then 1 else 0)\<rparr>
      in if round_certain required n st' \<and> \<not> whole then st'
         else round_loop required n whole es st')"

definition probe_round :: "probe_spec \<Rightarrow> round_event list \<Rightarrow> round_report" where
  "probe_round spec es =
     (let required = unat (sp_required_reachable spec);
          st = round_loop required (length (sp_targets spec)) (sp_run_to_completion spec) es
                 \<lparr>rs_started = 0, rs_samples = [], rs_reachable = 0, rs_done = 0\<rparr>
      in \<lparr>rr_path = sp_path spec, rr_generation = sp_generation spec,
          rr_passed = (required \<le> rs_reachable st), rr_reachable = rs_reachable st,
          rr_samples = rs_samples st, rr_canceled = rs_started st - length (rs_samples st)\<rparr>)"

section \<open>Echo packets\<close>

definition TOKEN_LEN :: nat where "TOKEN_LEN = 16"
definition ECHO_REPLY_V4 :: u8 where "ECHO_REPLY_V4 = 0"
definition ECHO_REPLY_V6 :: u8 where "ECHO_REPLY_V6 = 129"

text \<open>\<open>data.chunks(2)\<close> as big-endian words, the last one padded with a zero byte.\<close>

fun words_of :: "u8 list \<Rightarrow> u16 list" where
  "words_of [] = []"
| "words_of [a] = [from_be [a, 0]]"
| "words_of (a # b # bs) = from_be [a, b] # words_of bs"

function fold_carries :: "u32 \<Rightarrow> u32" where
  "fold_carries x = (if drop_bit 16 x \<noteq> 0 then fold_carries ((x AND 0xffff) + drop_bit 16 x) else x)"
  by pat_completeness auto

lemma unat_carry_parts:
  fixes x :: u32
  shows "unat (x AND 0xffff) = unat x mod 65536" and "unat (drop_bit 16 x) = unat x div 65536"
    and "unat ((x AND 0xffff) + drop_bit 16 x) = unat x mod 65536 + unat x div 65536"
proof -
  have m: "(0xffff :: u32) = mask 16" by (simp add: mask_eq_exp_minus_1)
  have "unat x < 2 ^ LENGTH(32)" by (rule unsigned_less)
  then have lt: "unat x < 4294967296" by simp
  show a: "unat (x AND 0xffff) = unat x mod 65536"
    unfolding m take_bit_eq_mask [symmetric] unsigned_take_bit_eq by (simp add: take_bit_eq_mod)
  show b: "unat (drop_bit 16 x) = unat x div 65536"
    unfolding unsigned_drop_bit_eq using lt by (simp add: drop_bit_eq_div take_bit_nat_eq_self)
  have "unat x < 65536 * 65536" using lt by simp
  then have "unat x div 65536 < 65536" by (simp add: less_mult_imp_div_less)
  moreover have "unat x mod 65536 < 65536" by simp
  ultimately have "unat x mod 65536 + unat x div 65536 < 4294967296" by linarith
  then show "unat ((x AND 0xffff) + drop_bit 16 x) = unat x mod 65536 + unat x div 65536"
    by (simp add: unat_add_no_overflow a b)
qed

termination fold_carries
proof (relation "measure unat")
  fix x :: u32
  assume "drop_bit 16 x \<noteq> 0"
  then have "unat x div 65536 \<noteq> 0" unfolding unat_carry_parts(2) [symmetric] unat_eq_0 .
  moreover have "unat x = 65536 * (unat x div 65536) + unat x mod 65536" by simp
  ultimately have "unat x mod 65536 + unat x div 65536 < unat x" by linarith
  then show "((x AND 0xffff) + drop_bit 16 x, x) \<in> measure unat" by (simp add: unat_carry_parts(3))
qed simp

declare fold_carries.simps [simp del]

definition checksum :: "u8 list \<Rightarrow> u16" where
  "checksum data = NOT (ucast (fold_carries (fold (\<lambda>w acc. acc + ucast w) (words_of data) 0)))"

definition echo_request :: "bool \<Rightarrow> u16 \<Rightarrow> u16 \<Rightarrow> u8 list \<Rightarrow> u8 list" where
  "echo_request v6 i seq token =
     (let p = [if v6 then 128 else 8, 0, 0, 0] @ to_be 2 i @ to_be 2 seq @ token
      in if v6 then p else take 2 p @ to_be 2 (checksum p) @ drop 4 p)"

record echo_reply =
  er_source :: ip_addr
  er_id :: u16
  er_seq :: u16
  er_token :: "u8 list"

definition parse_echo_reply :: "bool \<Rightarrow> u8 list \<Rightarrow> ip_addr \<Rightarrow> echo_reply option" where
  "parse_echo_reply v6 packet from =
     Option.bind
       (if v6 then Some (from, packet)
        else case packet of
               [] \<Rightarrow> None
             | b # _ \<Rightarrow>
                 let ihl = unat (b AND 0x0f) * 4
                 in if length packet < max ihl 20 then None
                    else Some (IpV4 (from_be (take 4 (drop 12 packet))), drop ihl packet))
       (\<lambda>(source, icmp).
          if length icmp < 8 + TOKEN_LEN \<or> icmp ! 0 \<noteq> (if v6 then 129 else 0) \<or> icmp ! 1 \<noteq> 0 then None
          else if \<not> v6 \<and> checksum icmp \<noteq> 0 then None
          else Some \<lparr>er_source = source, er_id = from_be (take 2 (drop 4 icmp)),
                     er_seq = from_be (take 2 (drop 6 icmp)), er_token = take TOKEN_LEN (drop 8 icmp)\<rparr>)"

section \<open>Open attempts\<close>

text \<open>
  The attempts waiting for a reply, keyed by sequence number. The channel that carries a reply to its
  attempt is the result of \<open>deliver\<close>: the sequence number of the attempt and its round-trip time.
  Times are in nanoseconds.
\<close>

record waiter =
  wt_target :: ip_addr
  wt_token :: "u8 list"
  wt_sent :: int

record icmp =
  ic_v6 :: bool
  ic_id :: u16
  ic_seq :: u16
  ic_waiters :: "u16 \<rightharpoonup> waiter"

definition open_attempt :: "icmp \<Rightarrow> ip_addr \<Rightarrow> u8 list \<Rightarrow> int \<Rightarrow> icmp \<times> u16" where
  "open_attempt st target token now =
     (let seq = ic_seq st + 1
      in (st\<lparr>ic_seq := seq,
             ic_waiters := ((ic_waiters st)(seq \<mapsto> \<lparr>wt_target = target, wt_token = token, wt_sent = now\<rparr>))\<rparr>,
          seq))"

definition close_attempt :: "icmp \<Rightarrow> u16 \<Rightarrow> icmp" where
  "close_attempt st seq = st\<lparr>ic_waiters := ((ic_waiters st)(seq := None))\<rparr>"

definition deliver :: "icmp \<Rightarrow> u8 list \<Rightarrow> ip_addr \<Rightarrow> int \<Rightarrow> icmp \<times> (u16 \<times> int) option" where
  "deliver st packet from now =
     (case parse_echo_reply (ic_v6 st) packet from of
        None \<Rightarrow> (st, None)
      | Some reply \<Rightarrow>
          if er_id reply \<noteq> ic_id st then (st, None)
          else case ic_waiters st (er_seq reply) of
                 None \<Rightarrow> (st, None)
               | Some w \<Rightarrow>
                   if wt_target w = er_source reply \<and> wt_token w = er_token reply
                   then (st\<lparr>ic_waiters := ((ic_waiters st)(er_seq reply := None))\<rparr>,
                         Some (er_seq reply, now - wt_sent w))
                   else (st, None))"

section \<open>The filter passes echo replies only\<close>

text \<open>
  The classic BPF machine of the kernel, for the instructions the filter uses: accumulator \<open>a\<close>, index
  register \<open>x\<close>; a load outside the packet ends the program with 0; the result is the number of bytes
  of the packet that are kept.
\<close>

definition packet_byte :: "u8 list \<Rightarrow> nat \<Rightarrow> u8 option" where
  "packet_byte pkt n = (if n < length pkt then Some (pkt ! n) else None)"

function bpf :: "sock_filter list \<Rightarrow> u8 list \<Rightarrow> u32 \<Rightarrow> u32 \<Rightarrow> u32" where
  "bpf [] pkt a x = 0"
| "bpf (i # is) pkt a x =
     (if sf_code i = LDB_ABS then
        (case packet_byte pkt (unat (sf_k i)) of None \<Rightarrow> 0 | Some b \<Rightarrow> bpf is pkt (ucast b) x)
      else if sf_code i = LDB_IND then
        (case packet_byte pkt (unat x + unat (sf_k i)) of None \<Rightarrow> 0 | Some b \<Rightarrow> bpf is pkt (ucast b) x)
      else if sf_code i = LDX_MSH then
        (case packet_byte pkt (unat (sf_k i)) of None \<Rightarrow> 0 | Some b \<Rightarrow> bpf is pkt a (4 * (ucast b AND 0xf)))
      else if sf_code i = JEQ_K then
        bpf (drop (unat (if a = sf_k i then sf_jt i else sf_jf i)) is) pkt a x
      else sf_k i)"
  by pat_completeness auto
termination by (relation "measure (length \<circ> fst)") auto

lemma ucast_u8_eq_iff: "(ucast b :: u32) = ucast c \<longleftrightarrow> b = c" for b c :: u8
proof -
  have "unat (ucast x :: u32) = unat x" for x :: u8
    using unat_u8_le [of x] by (simp add: unsigned_ucast_eq take_bit_nat_eq_self)
  then show ?thesis by (simp add: word_unat_eq_iff)
qed

lemma ucast_u8_eq_0: "(ucast b :: u32) = 0 \<longleftrightarrow> b = 0" for b :: u8
  using ucast_u8_eq_iff [of b 0] by simp

text \<open>
  C17. The socket filter is exact: for either family the kernel keeps a packet, whole, exactly when its
  ICMP header (after the IPv4 header, whose length the packet states, or at the start of an IPv6
  packet) is inside the packet and carries the wanted type with code 0; every other packet is dropped.
\<close>

theorem icmp_filter_exact:
  "bpf (icmp_filter ipv4 t) pkt 0 0 =
     (let h = (if ipv4 then unat (4 * (ucast (pkt ! 0) AND 0xf) :: u32) else 0)
      in if h + 1 < length pkt \<and> pkt ! h = t \<and> pkt ! (h + 1) = 0 then - 1 else 0)"
proof -
  note codes = LDB_ABS_def LDB_IND_def LDX_MSH_def JEQ_K_def RET_K_def sock_filter_def packet_byte_def
  show ?thesis
  proof (cases ipv4)
    case True
    then show ?thesis
      by (simp add: icmp_filter_def codes Let_def ucast_u8_eq_iff ucast_u8_eq_0)
  next
    case False
    then show ?thesis
      by (simp add: icmp_filter_def codes Let_def ucast_u8_eq_iff ucast_u8_eq_0)
  qed
qed

section \<open>The verdict of a round\<close>

definition dones :: "round_event list \<Rightarrow> bool list" where
  "dones es = List.map_filter (\<lambda>e. case e of TargetDone ok \<Rightarrow> Some ok | _ \<Rightarrow> None) es"

lemma dones_simps [simp]:
  "dones [] = []" "dones (AttemptStarted # es) = dones es" "dones (AttemptEnded s # es) = dones es"
  "dones (TargetDone ok # es) = ok # dones es"
  by (simp_all add: dones_def List.map_filter_simps)

lemma round_loop_verdict:
  "rs_done st + length (dones es) = n \<Longrightarrow>
     required \<le> rs_reachable (round_loop required n whole es st)
       \<longleftrightarrow> required \<le> rs_reachable st + length (filter (\<lambda>b. b) (dones es))"
proof (induction required n whole es st rule: round_loop.induct)
  case (4 required n whole ok es st)
  let ?st = "st\<lparr>rs_done := rs_done st + 1, rs_reachable := rs_reachable st + (if ok then 1 else 0)\<rparr>"
  have le: "length (filter (\<lambda>b. b) (dones es)) \<le> length (dones es)" by (rule length_filter_le)
  show ?case
  proof (cases "round_certain required n ?st \<and> \<not> whole")
    case True
    have "round_loop required n whole (TargetDone ok # es) st = ?st" using True by (simp add: Let_def)
    then show ?thesis
      using True 4(2) le by (auto simp: round_certain_def simp del: length_filter_le)
  next
    case False
    have "rs_done ?st + length (dones es) = n" using 4(2) by simp
    from 4(1) [OF refl False this] show ?thesis using False by (auto simp: Let_def)
  qed
qed simp_all

text \<open>
  C14. Ending a round early never changes its verdict: in whatever order the targets finish, a round
  over all its targets passes exactly when at least \<open>required_reachable\<close> of them got a reply, whether
  or not it stops as soon as the outcome is certain.
\<close>

theorem early_end_same_verdict:
  assumes "length (dones es) = length (sp_targets spec)"
  shows "rr_passed (probe_round spec es)
    \<longleftrightarrow> unat (sp_required_reachable spec) \<le> length (filter (\<lambda>b. b) (dones es))"
  using round_loop_verdict [of "\<lparr>rs_started = 0, rs_samples = [], rs_reachable = 0, rs_done = 0\<rparr>" es] assms
  by (simp add: probe_round_def Let_def)

definition example_probe :: probe_spec where
  "example_probe =
     \<lparr>sp_path = \<lparr>pk_uplink = UplinkId 1, pk_family = V4\<rparr>, sp_generation = 1, sp_interface = ''a'', sp_ifindex = 1,
      sp_source = IpV4 1, sp_mark = 0, sp_targets = [TargetIcmp (IpV4 1), TargetIcmp (IpV4 2), TargetIcmp (IpV4 3)],
      sp_interval = 5, sp_timeout = 1, sp_attempts = 2, sp_required_reachable = 2, sp_run_to_completion = False\<rparr>"

theorem early_end_same_verdict_witness:
  "rr_passed (probe_round example_probe [TargetDone True, TargetDone False, TargetDone True])
   \<and> \<not> rr_passed (probe_round example_probe [TargetDone False, TargetDone False, TargetDone True])"
  using early_end_same_verdict [of "[TargetDone True, TargetDone False, TargetDone True]" example_probe]
    early_end_same_verdict [of "[TargetDone False, TargetDone False, TargetDone True]" example_probe]
  by (simp add: example_probe_def)

section \<open>Checksums\<close>

text \<open>The ones' complement sum of the words, in the form the carries fold to.\<close>

definition norm16 :: "nat \<Rightarrow> nat" where
  "norm16 n = (if n = 0 then 0 else (n - 1) mod 65535 + 1)"

lemma norm16_carry: "norm16 (n mod 65536 + n div 65536) = norm16 n"
proof (cases "n = 0")
  case False
  define q r where "q = n div 65536" and "r = n mod 65536"
  have n: "n = 65536 * q + r" by (simp add: q_def r_def)
  with False have "0 < q + r" by simp
  then have "n - 1 = (r + q - 1) + 65535 * q" using n by linarith
  then have "(n - 1) mod 65535 = (r + q - 1) mod 65535" by (metis mod_mult_self2)
  with \<open>0 < q + r\<close> False have "norm16 (r + q) = norm16 n" by (simp add: norm16_def add.commute)
  then show ?thesis by (simp add: q_def r_def)
qed (simp add: norm16_def)

lemma norm16_small: "n < 65536 \<Longrightarrow> norm16 n = n"
  by (simp add: norm16_def)

lemma norm16_le: "norm16 n \<le> 65535"
proof -
  have "(n - 1) mod 65535 < 65535" by simp
  then have "(n - 1) mod 65535 + 1 \<le> 65535" by linarith
  then show ?thesis unfolding norm16_def by simp
qed

lemma fold_carries_norm: "unat (fold_carries x) = norm16 (unat x)"
proof (induction x rule: fold_carries.induct)
  case (1 x)
  show ?case
  proof (cases "drop_bit 16 x = 0")
    case True
    then have "unat x div 65536 = 0" unfolding unat_carry_parts(2) [symmetric] unat_eq_0 .
    then have "unat x < 65536" by (simp add: div_eq_0_iff)
    with True show ?thesis by (simp add: fold_carries.simps [of x] norm16_small)
  next
    case False
    then show ?thesis
      using 1 by (simp add: fold_carries.simps [of x] unat_carry_parts(3) norm16_carry)
  qed
qed

lemma unat_u16_le: "unat (w :: u16) \<le> 65535"
proof -
  have "unat w < 2 ^ LENGTH(16)" by (rule unsigned_less)
  then show ?thesis by simp
qed

lemma sum_words:
  "length ws \<le> 65536 \<Longrightarrow> unat (fold (\<lambda>w acc. acc + ucast w) ws 0 :: u32) = sum_list (map unat (ws :: u16 list))
     \<and> sum_list (map unat ws) \<le> 65535 * length ws"
proof (induction ws rule: rev_induct)
  case (snoc w ws)
  let ?a = "fold (\<lambda>w acc. acc + ucast w) ws 0 :: u32"
  have IH: "unat ?a = sum_list (map unat ws)" "sum_list (map unat ws) \<le> 65535 * length ws" using snoc by simp_all
  have w: "unat (ucast w :: u32) = unat w"
    using unat_u16_le [of w] by (simp add: unsigned_ucast_eq take_bit_nat_eq_self)
  have "length ws \<le> 65535" using snoc.prems by simp
  with IH unat_u16_le [of w] have "unat ?a + unat (ucast w :: u32) < 4294967296" unfolding w by linarith
  then have "unat (?a + ucast w) = unat ?a + unat w" by (simp add: unat_add_no_overflow w)
  with IH unat_u16_le [of w] show ?case by simp
qed simp

definition word_sum :: "u8 list \<Rightarrow> nat" where
  "word_sum bs = sum_list (map unat (words_of bs))"

lemma length_words_of: "length (words_of bs) = (length bs + 1) div 2"
  by (induction bs rule: words_of.induct) simp_all

lemma unat_not_u16: "unat (NOT w) = 65535 - unat (w :: u16)"
proof -
  have "NOT w = - 1 - w" by (simp add: not_eq_complement)
  then show ?thesis
    by (simp add: unat_sub word_le_iff_unat unat_u16_le unsigned_minus_1_eq_mask mask_eq_exp_minus_1)
qed

lemma checksum_unat:
  assumes "length bs \<le> 131072"
  shows "unat (checksum bs) = 65535 - norm16 (word_sum bs)"
proof -
  let ?sum = "fold (\<lambda>w acc. acc + ucast w) (words_of bs) 0 :: u32"
  have "length (words_of bs) \<le> 65536" using assms by (simp add: length_words_of)
  from sum_words [OF this] have "unat ?sum = word_sum bs" by (simp add: word_sum_def)
  then have "unat (fold_carries ?sum) = norm16 (word_sum bs)" by (simp add: fold_carries_norm)
  moreover have "norm16 (word_sum bs) < 65536" using norm16_le [of "word_sum bs"] by simp
  ultimately have "unat (ucast (fold_carries ?sum) :: u16) = norm16 (word_sum bs)"
    by (simp add: unsigned_ucast_eq take_bit_nat_eq_self)
  then show ?thesis by (simp add: checksum_def unat_not_u16)
qed

lemma words_of_append: "even (length as) \<Longrightarrow> words_of (as @ bs) = words_of as @ words_of bs"
  by (induction as rule: words_of.induct) simp_all

lemma word_sum_append: "even (length as) \<Longrightarrow> word_sum (as @ bs) = word_sum as + word_sum bs"
  by (simp add: word_sum_def words_of_append)

lemma word_sum_field: "word_sum (to_be 2 c) = unat (c :: u16)"
proof -
  have two: "to_be 2 c = [ucast (drop_bit 8 c), ucast c]" by (simp add: numeral_2_eq_2)
  have "from_be (to_be 2 c) = c" by (simp add: from_be_to_be take_bit_word_eq_self)
  then show ?thesis unfolding two word_sum_def by simp
qed

text \<open>A packet that carries its own checksum, computed with a zero field, sums up to zero.\<close>

lemma checksum_verifies:
  assumes "even (length as)" and "length as + 2 + length bs \<le> 131072"
  shows "checksum (as @ to_be 2 (checksum (as @ [0, 0] @ bs)) @ bs) = 0"
proof -
  let ?S = "word_sum as + word_sum bs"
  let ?c = "checksum (as @ [0, 0] @ bs)"
  have zero: "word_sum (0 # 0 # bs) = word_sum bs" by (simp add: word_sum_def from_be_def)
  have c: "unat ?c = 65535 - norm16 ?S"
    using assms checksum_unat [of "as @ [0, 0] @ bs"] zero by (simp add: word_sum_append)
  have sum: "word_sum (as @ to_be 2 ?c @ bs) = ?S + (65535 - norm16 ?S)"
    using assms(1) word_sum_field c by (simp add: word_sum_append)
  have "norm16 (?S + (65535 - norm16 ?S)) = 65535"
  proof (cases "?S = 0")
    case False
    define m where "m = (?S - 1) mod 65535"
    have m: "m < 65535" "norm16 ?S = m + 1" using False by (simp_all add: m_def norm16_def)
    have "?S - 1 = 65535 * ((?S - 1) div 65535) + m" by (simp add: m_def)
    then have "?S + (65535 - norm16 ?S) - 1 = 65535 * ((?S - 1) div 65535) + 65534"
      using m False by linarith
    then have "(?S + (65535 - norm16 ?S) - 1) mod 65535 = 65534" by (simp only: mod_mult_self4) simp
    with False show ?thesis unfolding norm16_def by simp
  qed (simp add: norm16_def)
  with sum have "unat (checksum (as @ to_be 2 ?c @ bs)) = 0"
    using assms checksum_unat [of "as @ to_be 2 ?c @ bs"] by simp
  then show ?thesis by (simp add: unat_eq_0)
qed

section \<open>Replies reach their attempts\<close>

text \<open>An ICMP echo message of a type, as the peer sends it back: its own checksum over all of it.\<close>

definition echo_message :: "u8 \<Rightarrow> u16 \<Rightarrow> u16 \<Rightarrow> u8 list \<Rightarrow> u8 list" where
  "echo_message t i seq token =
     (let body = to_be 2 i @ to_be 2 seq @ token
      in [t, 0] @ to_be 2 (checksum ([t, 0] @ [0, 0] @ body)) @ body)"

definition ipv4_header :: "u8 list \<Rightarrow> u32 \<Rightarrow> bool" where
  "ipv4_header hdr source \<longleftrightarrow>
     20 \<le> length hdr \<and> length hdr = unat (hdr ! 0 AND 0x0f) * 4 \<and> take 4 (drop 12 hdr) = to_be 4 source"

lemma echo_request_message: "echo_request False i seq token = echo_message 8 i seq token"
  by (simp add: echo_request_def echo_message_def Let_def numeral_eq_Suc)

lemma checksum_echo_message: "length token \<le> 131000 \<Longrightarrow> checksum (echo_message t i seq token) = 0"
  unfolding echo_message_def Let_def by (rule checksum_verifies) simp_all

definition parse_icmp :: "bool \<Rightarrow> ip_addr \<Rightarrow> u8 list \<Rightarrow> echo_reply option" where
  "parse_icmp v6 source icmp =
     (if length icmp < 8 + TOKEN_LEN \<or> icmp ! 0 \<noteq> (if v6 then 129 else 0) \<or> icmp ! 1 \<noteq> 0 then None
      else if \<not> v6 \<and> checksum icmp \<noteq> 0 then None
      else Some \<lparr>er_source = source, er_id = from_be (take 2 (drop 4 icmp)),
                 er_seq = from_be (take 2 (drop 6 icmp)), er_token = take TOKEN_LEN (drop 8 icmp)\<rparr>)"

lemma parse_echo_reply_v6: "parse_echo_reply True packet from = parse_icmp True from packet"
  by (simp add: parse_echo_reply_def parse_icmp_def)

lemma parse_echo_reply_v4:
  assumes "packet \<noteq> []"
  shows "parse_echo_reply False packet from =
    (let ihl = unat (packet ! 0 AND 0x0f) * 4
     in if length packet < max ihl 20 then None
        else parse_icmp False (IpV4 (from_be (take 4 (drop 12 packet)))) (drop ihl packet))"
  using assms by (cases packet) (simp_all add: parse_echo_reply_def parse_icmp_def Let_def)

lemma to_be_2: "to_be 2 w = [ucast (drop_bit 8 w), ucast w]"
  by (simp add: numeral_2_eq_2)

lemma to_be_4: "to_be 4 w = [ucast (drop_bit 24 w), ucast (drop_bit 16 w), ucast (drop_bit 8 w), ucast w]"
  by (simp add: eval_nat_numeral)

lemma echo_message_parts:
  "length (echo_message t i seq token) = 8 + length token"
  "echo_message t i seq token ! 0 = t" "echo_message t i seq token ! Suc 0 = 0"
  "take 2 (drop 4 (echo_message t i seq token)) = to_be 2 i"
  "take 2 (drop 6 (echo_message t i seq token)) = to_be 2 seq"
  "drop 8 (echo_message t i seq token) = token"
  by (simp_all add: echo_message_def Let_def to_be_2)

lemma from_be_self: "LENGTH('a) \<le> 8 * n \<Longrightarrow> from_be (to_be n w) = (w :: 'a::len word)"
  by (simp add: from_be_to_be take_bit_word_eq_self)

lemma parse_echo_message:
  assumes "length token = TOKEN_LEN" and "ipv4_header hdr a"
  shows "parse_echo_reply False (hdr @ echo_message 0 i seq token) from
    = Some \<lparr>er_source = IpV4 a, er_id = i, er_seq = seq, er_token = token\<rparr>"
proof -
  let ?m = "echo_message 0 i seq token"
  have hdr: "hdr \<noteq> []" using assms(2) by (auto simp: ipv4_header_def)
  have ihl: "unat ((hdr @ ?m) ! 0 AND 0x0f) * 4 = length hdr"
    using assms(2) hdr by (simp add: ipv4_header_def nth_append)
  have src: "take 4 (drop 12 (hdr @ ?m)) = to_be 4 a" using assms(2) by (simp add: ipv4_header_def)
  have "parse_icmp False (IpV4 a) ?m = Some \<lparr>er_source = IpV4 a, er_id = i, er_seq = seq, er_token = token\<rparr>"
    using assms(1)
    by (simp add: parse_icmp_def echo_message_parts from_be_self checksum_echo_message TOKEN_LEN_def)
  then show ?thesis
    using hdr assms(2)
    by (simp add: parse_echo_reply_v4 ihl src from_be_self ipv4_header_def)
qed

text \<open>
  C13. A reply reaches the attempt it answers: after an attempt is opened, an IPv4 packet from its
  target, with an echo reply that carries the identifier of the socket, the attempt's sequence number
  and its token, under a correct checksum, completes that attempt with the time elapsed since it was
  sent, and leaves every other attempt open. The same packet received again completes nothing.
\<close>

theorem reply_reaches_attempt:
  assumes "open_attempt st (IpV4 a) token now = (st', seq)" and "\<not> ic_v6 st"
    and "length token = TOKEN_LEN" and "ipv4_header hdr a"
  shows "deliver st' (hdr @ echo_message ECHO_REPLY_V4 (ic_id st) seq token) from later
      = (close_attempt st' seq, Some (seq, later - now))
    \<and> deliver (close_attempt st' seq) (hdr @ echo_message ECHO_REPLY_V4 (ic_id st) seq token) from again
      = (close_attempt st' seq, None)"
proof -
  have st': "ic_v6 st' = False" "ic_id st' = ic_id st"
    "ic_waiters st' seq = Some \<lparr>wt_target = IpV4 a, wt_token = token, wt_sent = now\<rparr>"
    using assms(1,2) by (auto simp: open_attempt_def Let_def)
  have "parse_echo_reply False (hdr @ echo_message ECHO_REPLY_V4 (ic_id st) seq token) from
    = Some \<lparr>er_source = IpV4 a, er_id = ic_id st, er_seq = seq, er_token = token\<rparr>"
    unfolding ECHO_REPLY_V4_def by (rule parse_echo_message [OF assms(3,4)])
  then show ?thesis
    by (simp add: deliver_def st' close_attempt_def)
qed

definition example_icmp :: icmp where
  "example_icmp = \<lparr>ic_v6 = False, ic_id = 7, ic_seq = - 1, ic_waiters = Map.empty\<rparr>"

theorem reply_reaches_attempt_witness:
  "snd (deliver (fst (open_attempt example_icmp (IpV4 0x01020304) (replicate 16 9) 100))
     ([0x45, 0, 0, 0, 0, 0, 0, 0, 0, 0, 0, 0, 1, 2, 3, 4, 0, 0, 0, 0] @ echo_message ECHO_REPLY_V4 7 0 (replicate 16 9))
     (IpV4 0) 350) = Some (0, 250)"
proof -
  let ?hdr = "[0x45, 0, 0, 0, 0, 0, 0, 0, 0, 0, 0, 0, 1, 2, 3, 4, 0, 0, 0, 0] :: u8 list"
  let ?st = "fst (open_attempt example_icmp (IpV4 0x01020304) (replicate 16 9) 100)"
  have "open_attempt example_icmp (IpV4 0x01020304) (replicate 16 9) 100 = (?st, 0)"
    by (simp add: open_attempt_def example_icmp_def Let_def)
  moreover have "\<not> ic_v6 example_icmp" "ic_id example_icmp = 7" by (simp_all add: example_icmp_def)
  moreover have "ipv4_header ?hdr 0x01020304"
    by (simp add: ipv4_header_def to_be_4)
  ultimately have "deliver ?st (?hdr @ echo_message ECHO_REPLY_V4 7 0 (replicate 16 9)) (IpV4 0) 350
      = (close_attempt ?st 0, Some (0, 350 - 100))"
    using reply_reaches_attempt [of example_icmp "0x01020304" "replicate 16 9" 100 ?st 0 ?hdr "IpV4 0" 350]
    by (simp add: TOKEN_LEN_def)
  then show ?thesis by simp
qed

text \<open>
  Only a genuine reply counts: when a packet completes an attempt, the attempt was open under the
  packet's sequence number, the packet comes from the attempt's target and carries the socket's
  identifier and the attempt's token, the message is an echo reply of code 0 inside the packet, and on
  IPv4 its checksum is correct; exactly that attempt is closed.
\<close>

theorem deliver_sound:
  assumes "deliver st packet from now = (st', Some (seq, rtt))"
  shows "\<exists>w icmp. ic_waiters st seq = Some w \<and> rtt = now - wt_sent w \<and> st' = close_attempt st seq
    \<and> (if ic_v6 st then icmp = packet \<and> wt_target w = from \<and> icmp ! 0 = ECHO_REPLY_V6
       else icmp = drop (unat (packet ! 0 AND 0x0f) * 4) packet
         \<and> wt_target w = IpV4 (from_be (take 4 (drop 12 packet))) \<and> icmp ! 0 = ECHO_REPLY_V4 \<and> checksum icmp = 0)
    \<and> 8 + TOKEN_LEN \<le> length icmp \<and> icmp ! 1 = 0
    \<and> from_be (take 2 (drop 4 icmp)) = ic_id st \<and> from_be (take 2 (drop 6 icmp)) = seq
    \<and> take TOKEN_LEN (drop 8 icmp) = wt_token w"
proof -
  obtain r w where r: "parse_echo_reply (ic_v6 st) packet from = Some r" "er_id r = ic_id st"
    "ic_waiters st (er_seq r) = Some w" "wt_target w = er_source r" "wt_token w = er_token r"
    "seq = er_seq r" "rtt = now - wt_sent w" "st' = close_attempt st (er_seq r)"
    using assms by (auto simp: deliver_def close_attempt_def split: option.splits if_splits)
  have icmp: "parse_icmp v source m = Some r \<Longrightarrow> er_source r = source \<and> 8 + TOKEN_LEN \<le> length m
      \<and> m ! 0 = (if v then 129 else 0) \<and> m ! 1 = 0 \<and> (\<not> v \<longrightarrow> checksum m = 0)
      \<and> er_id r = from_be (take 2 (drop 4 m)) \<and> er_seq r = from_be (take 2 (drop 6 m))
      \<and> er_token r = take TOKEN_LEN (drop 8 m)" for v source m
    by (auto simp: parse_icmp_def split: if_splits)
  show ?thesis
  proof (cases "ic_v6 st")
    case True
    with r(1) have "parse_icmp True from packet = Some r" by (simp add: parse_echo_reply_v6)
    from icmp [OF this] r True show ?thesis
      by (intro exI [of _ w] exI [of _ packet]) (simp add: ECHO_REPLY_V6_def)
  next
    case False
    let ?icmp = "drop (unat (packet ! 0 AND 0x0f) * 4) packet"
    have "packet \<noteq> []" using r(1) False by (auto simp: parse_echo_reply_def)
    with r(1) False have "parse_icmp False (IpV4 (from_be (take 4 (drop 12 packet)))) ?icmp = Some r"
      by (simp add: parse_echo_reply_v4 Let_def split: if_splits)
    from icmp [OF this] r False show ?thesis
      by (intro exI [of _ w] exI [of _ ?icmp]) (simp add: ECHO_REPLY_V4_def)
  qed
qed

theorem deliver_sound_witness:
  "\<exists>w. ic_waiters (fst (open_attempt \<lparr>ic_v6 = True, ic_id = 7, ic_seq = 0, ic_waiters = Map.empty\<rparr> (IpV6 1)
      (replicate 16 9) 100)) 1 = Some w \<and> 250 = 350 - wt_sent w"
proof -
  let ?st = "fst (open_attempt \<lparr>ic_v6 = True, ic_id = 7, ic_seq = 0, ic_waiters = Map.empty\<rparr> (IpV6 1) (replicate 16 9) 100)"
  let ?packet = "[129, 0, 0, 0] @ to_be 2 (7 :: u16) @ to_be 2 (1 :: u16) @ replicate 16 9"
  have "deliver ?st ?packet (IpV6 1) 350 = (close_attempt ?st 1, Some (1, 250))"
    by (simp add: deliver_def parse_echo_reply_v6 parse_icmp_def open_attempt_def close_attempt_def TOKEN_LEN_def
        to_be_2 from_be_def)
  from deliver_sound [OF this] show ?thesis by blast
qed

end
