(* ===== verification/Addresses.thy ===== *)
theory Addresses
  imports Config
begin

text \<open>
  The operations of the standard library on text and addresses that the configuration is read with:
  \<open>split\<close>, \<open>split_once\<close> and \<open>rsplit_once\<close>, the parsers of \<open>core::net\<close> behind
  \<open>str::parse::<IpAddr>\<close> and \<open>str::parse::<SocketAddr>\<close>, the classification of addresses, and
  the components of a Unix path. A parser takes the text that is left and returns the value with the
  text after it; on failure the text is unread.
\<close>

section \<open>Text\<close>

definition char_in :: "nat \<Rightarrow> nat \<Rightarrow> char \<Rightarrow> bool" where
  "char_in lo hi c \<longleftrightarrow> lo \<le> (of_char c :: nat) \<and> (of_char c :: nat) \<le> hi"

definition is_ascii_lowercase :: "char \<Rightarrow> bool" where
  "is_ascii_lowercase c \<longleftrightarrow> char_in 97 122 c"

definition is_ascii_alphanumeric :: "char \<Rightarrow> bool" where
  "is_ascii_alphanumeric c \<longleftrightarrow> is_ascii_digit c \<or> char_in 97 122 c \<or> char_in 65 90 c"

definition is_ascii_control :: "char \<Rightarrow> bool" where
  "is_ascii_control c \<longleftrightarrow> (of_char c :: nat) < 32 \<or> (of_char c :: nat) = 127"

definition is_ascii :: "char \<Rightarrow> bool" where
  "is_ascii c \<longleftrightarrow> (of_char c :: nat) < 128"

primrec split_on :: "char \<Rightarrow> string \<Rightarrow> string list" where
  "split_on c [] = [[]]"
| "split_on c (x # s) =
     (case split_on c s of
        [] \<Rightarrow> []
      | part # parts \<Rightarrow> if x = c then [] # part # parts else (x # part) # parts)"

definition split_once :: "char \<Rightarrow> string \<Rightarrow> (string \<times> string) option" where
  "split_once c s =
     (if c \<in> set s then Some (takeWhile (\<lambda>x. x \<noteq> c) s, tl (dropWhile (\<lambda>x. x \<noteq> c) s)) else None)"

definition rsplit_once :: "char \<Rightarrow> string \<Rightarrow> (string \<times> string) option" where
  "rsplit_once c s = map_option (\<lambda>p. (rev (snd p), rev (fst p))) (split_once c (rev s))"

definition strip_prefix :: "string \<Rightarrow> string \<Rightarrow> string option" where
  "strip_prefix p s = (if take (length p) s = p then Some (drop (length p) s) else None)"

text \<open>\<open>str::parse::<i64>\<close>: an optional sign and decimal digits, within the type.\<close>

definition parse_i64 :: "string \<Rightarrow> int option" where
  "parse_i64 s =
     (case s of
        [] \<Rightarrow> None
      | c # ds \<Rightarrow>
          if c = CHR ''-'' then map_option (\<lambda>n. - int n) (parse_decimal (2 ^ 63 + 1) ds)
          else if c = CHR ''+'' then map_option int (parse_decimal (2 ^ 63) ds)
          else map_option int (parse_decimal (2 ^ 63) s))"

lemma split_on_nonempty [simp]: "split_on c s \<noteq> []"
  by (induction s) (auto split: list.split)

lemma split_on_no_sep: "x \<in> set (split_on c s) \<Longrightarrow> c \<notin> set x"
proof (induction s arbitrary: x)
  case (Cons a s)
  show ?case
  proof (cases "split_on c s")
    case (Cons part parts)
    with Cons.prems Cons.IH show ?thesis by (auto split: if_splits)
  qed simp
qed simp

lemma split_on_last: "c \<notin> set a \<Longrightarrow> split_on c a = [a]"
  by (induction a) auto

lemma split_on_append: "c \<notin> set a \<Longrightarrow> split_on c (a @ c # b) = a # split_on c b"
  by (induction a) (auto split: list.split)

section \<open>Parsers of addresses\<close>

type_synonym 'a parser = "string \<Rightarrow> ('a \<times> string) option"

definition digit_of :: "nat \<Rightarrow> char \<Rightarrow> nat option" where
  "digit_of radix c =
     (let n = of_char c :: nat;
          d = if char_in 48 57 c then Some (n - 48)
              else if char_in 97 122 c then Some (n - 87)
              else if char_in 65 90 c then Some (n - 55)
              else None
      in case d of Some v \<Rightarrow> if v < radix then Some v else None | None \<Rightarrow> None)"

definition digits_in :: "nat \<Rightarrow> string \<Rightarrow> nat" where
  "digits_in radix s = foldl (\<lambda>a c. radix * a + the (digit_of radix c)) 0 s"

definition read_number :: "nat \<Rightarrow> nat option \<Rightarrow> bool \<Rightarrow> nat \<Rightarrow> nat parser" where
  "read_number radix max_digits allow_zero_prefix limit s =
     (let ds = takeWhile (\<lambda>c. digit_of radix c \<noteq> None) s;
          v = digits_in radix ds
      in if ds = []
            \<or> (case max_digits of Some m \<Rightarrow> m < length ds | None \<Rightarrow> False)
            \<or> (\<not> allow_zero_prefix \<and> hd ds = CHR ''0'' \<and> 1 < length ds)
            \<or> limit \<le> v
         then None
         else Some (v, drop (length ds) s))"

definition read_given_char :: "char \<Rightarrow> unit parser" where
  "read_given_char c s = (case s of [] \<Rightarrow> None | x # t \<Rightarrow> if x = c then Some ((), t) else None)"

definition read_separator :: "char \<Rightarrow> nat \<Rightarrow> 'a parser \<Rightarrow> 'a parser" where
  "read_separator sep i inner s =
     (if 0 < i then Option.bind (read_given_char sep s) (\<lambda>(_, t). inner t) else inner s)"

fun read_octets :: "nat \<Rightarrow> nat \<Rightarrow> nat list parser" where
  "read_octets i 0 s = Some ([], s)"
| "read_octets i (Suc k) s =
     Option.bind (read_separator CHR ''.'' i (read_number 10 (Some 3) False 256) s) (\<lambda>(g, t).
     Option.bind (read_octets (Suc i) k t) (\<lambda>(gs, u). Some (g # gs, u)))"

definition from_groups :: "nat \<Rightarrow> nat list \<Rightarrow> nat" where
  "from_groups base gs = foldl (\<lambda>a g. base * a + g) 0 gs"

definition read_ipv4_addr :: "u32 parser" where
  "read_ipv4_addr s =
     map_option (\<lambda>(gs, t). (of_nat (from_groups 256 gs), t)) (read_octets 0 4 s)"

text \<open>
  Up to \<open>limit\<close> groups from index \<open>i\<close> on, with an IPv4 address allowed where two groups are
  left: the groups, whether they end with an IPv4 address, and the rest. The first argument counts
  the groups still allowed.
\<close>

fun read_groups :: "nat \<Rightarrow> nat \<Rightarrow> string \<Rightarrow> nat list \<times> bool \<times> string" where
  "read_groups 0 i s = ([], False, s)"
| "read_groups (Suc k) i s =
     (let v4 = if 0 < k then read_separator CHR '':'' i read_ipv4_addr s else None
      in case v4 of
           Some (a, t) \<Rightarrow> ([unat a div 65536, unat a mod 65536], True, t)
         | None \<Rightarrow>
             (case read_separator CHR '':'' i (read_number 16 (Some 4) True 65536) s of
                None \<Rightarrow> ([], False, s)
              | Some (g, t) \<Rightarrow> (case read_groups k (Suc i) t of (gs, v, u) \<Rightarrow> (g # gs, v, u))))"

definition read_ipv6_addr :: "u128 parser" where
  "read_ipv6_addr s =
     (case read_groups 8 0 s of (head, v4, t) \<Rightarrow>
        if length head = 8 then Some (of_nat (from_groups 65536 head), t)
        else if v4 then None
        else
          Option.bind (read_given_char CHR '':'' t) (\<lambda>(_, t1).
          Option.bind (read_given_char CHR '':'' t1) (\<lambda>(_, t2).
            (case read_groups (8 - (length head + 1)) 0 t2 of (tail, _, t3) \<Rightarrow>
               Some (of_nat (from_groups 65536
                       (head @ replicate (8 - length head - length tail) 0 @ tail)), t3)))))"

definition read_ip_addr :: "ip_addr parser" where
  "read_ip_addr s =
     (case read_ipv4_addr s of
        Some (a, t) \<Rightarrow> Some (IpV4 a, t)
      | None \<Rightarrow> map_option (\<lambda>(a, t). (IpV6 a, t)) (read_ipv6_addr s))"

definition read_port :: "nat parser" where
  "read_port s = Option.bind (read_given_char CHR '':'' s) (\<lambda>(_, t). read_number 10 None True 65536 t)"

definition read_scope_id :: "nat parser" where
  "read_scope_id s =
     Option.bind (read_given_char CHR ''%'' s) (\<lambda>(_, t). read_number 10 None True (2 ^ 32) t)"

definition read_socket_addr_v4 :: "socket_addr parser" where
  "read_socket_addr_v4 s =
     Option.bind (read_ipv4_addr s) (\<lambda>(a, t).
     Option.bind (read_port t) (\<lambda>(p, u). Some (SaV4 a (of_nat p), u)))"

definition read_socket_addr_v6 :: "socket_addr parser" where
  "read_socket_addr_v6 s =
     Option.bind (read_given_char CHR ''['' s) (\<lambda>(_, s1).
     Option.bind (read_ipv6_addr s1) (\<lambda>(a, s2).
     case (case read_scope_id s2 of None \<Rightarrow> (0, s2) | Some r \<Rightarrow> r) of (scope, s3) \<Rightarrow>
     Option.bind (read_given_char CHR '']'' s3) (\<lambda>(_, s4).
     Option.bind (read_port s4) (\<lambda>(p, s5). Some (SaV6 a (of_nat p) 0 (of_nat scope), s5)))))"

definition parse_with :: "'a parser \<Rightarrow> string \<Rightarrow> 'a option" where
  "parse_with p s = (case p s of Some (v, []) \<Rightarrow> Some v | _ \<Rightarrow> None)"

definition parse_ip_addr :: "string \<Rightarrow> ip_addr option" where
  "parse_ip_addr = parse_with read_ip_addr"

definition parse_socket_addr :: "string \<Rightarrow> socket_addr option" where
  "parse_socket_addr =
     parse_with (\<lambda>s. case read_socket_addr_v4 s of Some r \<Rightarrow> Some r | None \<Rightarrow> read_socket_addr_v6 s)"

section \<open>Classes of addresses\<close>

definition octet :: "u32 \<Rightarrow> nat \<Rightarrow> u32" where
  "octet a i = drop_bit (8 * (3 - i)) a AND 0xff"

definition segment :: "u128 \<Rightarrow> nat \<Rightarrow> u128" where
  "segment a i = drop_bit (16 * (7 - i)) a AND 0xffff"

definition v4_is_loopback :: "u32 \<Rightarrow> bool" where
  "v4_is_loopback a \<longleftrightarrow> octet a 0 = 127"

definition v4_is_multicast :: "u32 \<Rightarrow> bool" where
  "v4_is_multicast a \<longleftrightarrow> in_range 224 239 (octet a 0)"

definition v4_is_broadcast :: "u32 \<Rightarrow> bool" where
  "v4_is_broadcast a \<longleftrightarrow> a = 0xffffffff"

definition v4_is_link_local :: "u32 \<Rightarrow> bool" where
  "v4_is_link_local a \<longleftrightarrow> octet a 0 = 169 \<and> octet a 1 = 254"

definition v4_is_private :: "u32 \<Rightarrow> bool" where
  "v4_is_private a \<longleftrightarrow>
     octet a 0 = 10 \<or> (octet a 0 = 172 \<and> in_range 16 31 (octet a 1)) \<or> (octet a 0 = 192 \<and> octet a 1 = 168)"

definition v6_is_multicast :: "u128 \<Rightarrow> bool" where
  "v6_is_multicast a \<longleftrightarrow> drop_bit 120 a = 0xff"

definition v6_is_ipv4_mapped :: "u128 \<Rightarrow> bool" where
  "v6_is_ipv4_mapped a \<longleftrightarrow> drop_bit 32 a = 0xffff"

section \<open>Paths\<close>

text \<open>\<open>std::path\<close> on Unix: repeated separators and inner \<open>.\<close> components are dropped.\<close>

datatype path_component = RootDir | CurDir | ParentDir | NormalComponent string

definition is_absolute :: "string \<Rightarrow> bool" where
  "is_absolute p \<longleftrightarrow> p \<noteq> [] \<and> hd p = CHR ''/''"

definition component_of :: "string \<Rightarrow> path_component" where
  "component_of s = (if s = ''..'' then ParentDir else NormalComponent s)"

definition path_body :: "string \<Rightarrow> string list" where
  "path_body p = split_on CHR ''/'' (if is_absolute p then tl p else p)"

definition path_components :: "string \<Rightarrow> path_component list" where
  "path_components p =
     (if is_absolute p then [RootDir]
      else if hd (path_body p) = ''.'' then [CurDir]
      else [])
     @ map component_of (filter (\<lambda>s. s \<noteq> [] \<and> s \<noteq> ''.'') (path_body p))"

text \<open>\<open>Path::parent\<close> of an absolute path: its text without the last component.\<close>

definition trim_components :: "string list \<Rightarrow> string list" where
  "trim_components ss = rev (dropWhile (\<lambda>s. s = [] \<or> s = ''.'') (rev ss))"

definition path_parent :: "string \<Rightarrow> string option" where
  "path_parent p =
     (case trim_components (path_body p) of
        [] \<Rightarrow> None
      | ss \<Rightarrow> Some (CHR ''/'' # (case trim_components (butlast ss) of
                    [] \<Rightarrow> []
                  | t # ts \<Rightarrow> t @ concat (map (\<lambda>s. CHR ''/'' # s) ts))))"

lemma absolute_components:
  "is_absolute p \<Longrightarrow> CurDir \<notin> set (path_components p)"
  by (auto simp: path_components_def component_of_def)


lemmas parser_defs = parse_ip_addr_def parse_with_def read_ip_addr_def read_ipv4_addr_def read_ipv6_addr_def
  read_separator_def read_given_char_def read_number_def digit_of_def digits_in_def char_in_def from_groups_def
  parse_socket_addr_def read_socket_addr_v4_def read_socket_addr_v6_def read_port_def read_scope_id_def

lemmas read_octets_numeral [simp] = read_octets.simps(2) [of _ "pred_numeral k" for k, folded numeral_eq_Suc]
lemmas read_groups_numeral [simp] = read_groups.simps(2) [of "pred_numeral k" for k, folded numeral_eq_Suc]

lemmas replicate_numeral_Suc [simp] = replicate_Suc [of "pred_numeral k" for k, folded numeral_eq_Suc]

lemma parse_examples:
  "parse_ip_addr ''1.1.1.1'' = Some (IpV4 0x01010101)"
  "parse_ip_addr ''01.1.1.1'' = None"
  "parse_ip_addr ''2606:4700:4700::1111'' = Some (IpV6 0x26064700470000000000000000001111)"
  "parse_ip_addr ''::ffff:192.0.2.1'' = Some (IpV6 0xffffc0000201)"
  "parse_socket_addr ''[2001:db8::1]:443'' = Some (SaV6 0x20010db8000000000000000000000001 443 0 0)"
  "parse_socket_addr ''127.0.0.1:9750'' = Some (SaV4 0x7f000001 9750)"
  by (simp_all add: parser_defs)

end
