(* ===== verification/Raw_Config.thy ===== *)
theory Raw_Config
  imports Config
begin

text \<open>
  The image of the configuration file (\<open>config/raw.rs\<close>) as the deserializer hands it to the
  validation: every value optional unless the format requires it, integers of 64 bits as integers,
  and each table with the range of bytes it stands at.
\<close>

type_synonym span = "nat \<times> nat"
type_synonym 'a spanned = "span \<times> 'a"

datatype table_ref = TableId int | TableName string

record raw_routing =
  rr_table_base :: "int option"
  rr_rule_priority_base :: "int option"
  rr_route_protocol :: "int option"
  rr_fwmark_mask :: "int option"
  rr_all_down_policy :: "all_down_policy option"
  rr_discovery_tables :: "table_ref list option"
  rr_manage_sysctls :: "bool option"
  rr_reconcile_interval :: "string option"
  rr_on_shutdown :: "on_shutdown option"

record raw_firewall =
  rf_mode :: "firewall_mode option"
  rf_nat_priority :: "int option"
  rf_nft_path :: "string option"

record raw_downlink =
  rd_interface :: string

record raw_path =
  rw_source :: "string option"
  rw_gateway :: "string option"
  rw_gateway_onlink :: "bool option"
  rw_nat :: "nat_mode option"

record raw_targets =
  rt_targets :: "string list"

record raw_quality =
  rq_max_rtt :: "string option"
  rq_max_jitter :: "string option"
  rq_max_loss :: "f64 option"

record raw_health =
  rh_interval :: "string option"
  rh_timeout :: "string option"
  rh_attempts :: "int option"
  rh_required_reachable :: "int option"
  rh_fall :: "int option"
  rh_rise :: "int option"
  rh_ipv4 :: "raw_targets option"
  rh_ipv6 :: "raw_targets option"
  rh_quality :: "raw_quality option"
  rh_quality_window :: "int option"
  rh_quality_min_samples :: "int option"

record raw_uplink =
  ru_id :: int
  ru_name :: string
  ru_description :: "string option"
  ru_interface :: string
  ru_priority :: "int option"
  ru_weight :: "int option"
  ru_ipv4 :: "raw_path spanned option"
  ru_ipv6 :: "raw_path spanned option"
  ru_health :: "raw_health spanned option"

datatype policy_family = PolicyIpv4 | PolicyIpv6

datatype port_spec = Port int | PortRange string

record raw_policy =
  ry_name :: string
  ry_family :: policy_family
  ry_input_interface :: "string option"
  ry_source :: "string option"
  ry_destination :: "string option"
  ry_protocol :: "ip_protocol option"
  ry_destination_port :: "port_spec option"
  ry_uplink :: string
  ry_fallback :: "fallback option"

record raw_email =
  re_from :: string
  re_to :: "string list"
  re_sendmail :: "string option"
  re_max_per_hour :: "int option"
  re_events :: "string list option"

record raw_hook =
  rk_command :: "string list"
  rk_events :: "string list option"
  rk_timeout :: "string option"

record raw_notify =
  rn_coalesce :: "string option"
  rn_email :: "raw_email spanned option"
  rn_hook :: "raw_hook spanned list"
  rn_hook_user :: "string option"

record raw_api =
  ra_socket :: "string option"
  ra_group :: "string option"
  ra_status_socket :: "string option"
  ra_status_group :: "string option"

record raw_metrics =
  rm_listen :: "string option"

record raw_config =
  rc_routing :: "raw_routing spanned option"
  rc_firewall :: "raw_firewall spanned option"
  rc_downlink :: "raw_downlink spanned list"
  rc_uplink :: "raw_uplink spanned list"
  rc_health :: "raw_health spanned option"
  rc_policy :: "raw_policy spanned list"
  rc_notify :: "raw_notify spanned option"
  rc_api :: "raw_api spanned option"
  rc_metrics :: "raw_metrics spanned option"
  rc_state_dir :: "string spanned option"

text \<open>The derived \<open>Default\<close> of the two tables that have one: every value absent.\<close>

definition raw_quality_default :: raw_quality where
  "raw_quality_default = \<lparr>rq_max_rtt = None, rq_max_jitter = None, rq_max_loss = None\<rparr>"

definition raw_health_default :: raw_health where
  "raw_health_default =
     \<lparr>rh_interval = None, rh_timeout = None, rh_attempts = None, rh_required_reachable = None,
      rh_fall = None, rh_rise = None, rh_ipv4 = None, rh_ipv6 = None, rh_quality = None,
      rh_quality_window = None, rh_quality_min_samples = None\<rparr>"

end
