(* ===== verification/Validate.thy ===== *)
theory Validate
  imports Raw_Config Addresses "HOL-Library.State_Monad"
begin

text \<open>
  The validation of the configuration (\<open>config/validate.rs\<close>). The context \<open>Ctx\<close> that the
  source threads through every function is the state of a monad; a problem found is appended to it and
  the function goes on with a default, so that all problems are reported. A problem is a value of
  \<open>problem\<close>; its wording, which decides only the order and the repetition of the reports, is the
  function \<open>cx_render\<close>. The prefix parser of the \<open>ipnet\<close> crate is a parameter. The product of a
  duration and an integer panics when it overflows: that is the outer \<open>None\<close>.
\<close>

section \<open>Diagnostics\<close>

datatype mailbox_problem =
  NotPrintable | MailboxTooLong | NoAtSign | BadLocalPart | BadLocalStart char | BadDomain

datatype (plugins only: size) problem =
  OutOfRange int int int
| DurationProblem duration_error
| DurationOutOfRange duration duration duration
| NoDownlink
| NoUplink
| BadInterfaceName string
| InterfaceListedTwice string
| IdOutOfRange int
| IdUsed uplink_id
| BadUplinkName string
| UplinkNameUsed string
| InterfaceUsed string
| NoFamilyEnabled
| StaticSourceUsed ip_addr string
| NotSocketAddress string
| NotAbsolute
| ParentComponent
| ReservedTables u32 u32
| BadMask int
| UnknownTableName string
| UnusableTable int
| OwnTable u32
| WrongFamilyAddress string family
| NotAnAddress string
| UnusableSource ip_addr
| OnlinkWithoutGateway
| NatNotSet
| SnatWithoutSource
| ZeroDuration
| AttemptsTooLong duration u8 duration
| WrongFamilyTarget string family
| NotGlobalUnicast string
| TargetListedTwice string
| NoTarget
| BadTarget string
| PortZero string
| TooManyRequired u8 nat family
| LossOutOfRange f64
| TooManySamples u16 nat
| UplinkWithoutFamily string family
| UnknownUplink string
| NotADownlink string
| WrongFamilyPrefix string family
| NotAPrefix string
| IcmpOnIpv6
| Icmpv6OnIpv4
| PortsWithoutProtocol
| BadPorts
| PolicyNameUsed string
| NoRecipient
| SendmailNotAbsolute
| CommandNotAbsolute
| EmptyEvents
| UnknownEvent string
| NotAMailbox string mailbox_problem
| BadAccountName string
| NotASocketFile
| SocketPathTooLong
| SameSockets

record diagnostic =
  dg_line :: "nat option"
  dg_key :: string
  dg_message :: string

record ctx =
  cx_text :: string
  cx_diags :: "diagnostic list"
  cx_render :: "problem \<Rightarrow> string"

type_synonym 'a check = "(ctx, 'a) state"

abbreviation ret :: "'a \<Rightarrow> 'a check" where
  "ret \<equiv> State_Monad.return"

definition line_of :: "string \<Rightarrow> nat \<Rightarrow> nat" where
  "line_of text offset = length (filter (\<lambda>b. b = CHR ''\<newline>'') (take (min offset (length text)) text)) + 1"

definition err :: "span option \<Rightarrow> string \<Rightarrow> problem \<Rightarrow> unit check" where
  "err sp key message =
     State (\<lambda>cx. ((), cx\<lparr>cx_diags := cx_diags cx @
       [\<lparr>dg_line = map_option (\<lambda>s. line_of (cx_text cx) (fst s)) sp,
         dg_key = key, dg_message = cx_render cx message\<rparr>]\<rparr>))"

text \<open>The control structures of the source: a conditional report, loops and \<open>Option::map\<close>.\<close>

definition err_if :: "bool \<Rightarrow> span option \<Rightarrow> string \<Rightarrow> problem \<Rightarrow> unit check" where
  "err_if c sp key p = (if c then err sp key p else ret ())"

definition err_of :: "span option \<Rightarrow> string \<Rightarrow> problem + unit \<Rightarrow> unit check" where
  "err_of sp key r = (case r of Inl p \<Rightarrow> err sp key p | Inr _ \<Rightarrow> ret ())"

primrec for_each :: "('a \<Rightarrow> 'b \<Rightarrow> 'b check) \<Rightarrow> 'a list \<Rightarrow> 'b \<Rightarrow> 'b check" where
  "for_each f [] acc = ret acc"
| "for_each f (x # xs) acc = do { acc' \<leftarrow> f x acc; for_each f xs acc' }"

definition map_check :: "('a \<Rightarrow> 'b check) \<Rightarrow> 'a option \<Rightarrow> 'b option check" where
  "map_check f v = (case v of None \<Rightarrow> ret None | Some x \<Rightarrow> do { y \<leftarrow> f x; ret (Some y) })"

text \<open>\<open>TryFrom<i64>\<close> of the integer types.\<close>

definition try_unsigned :: "int \<Rightarrow> 'a::len word option" where
  "try_unsigned v = (if 0 \<le> v \<and> v < 2 ^ LENGTH('a) then Some (word_of_int v) else None)"

definition try_signed :: "int \<Rightarrow> 'a::len word option" where
  "try_signed v =
     (if - (2 ^ (LENGTH('a) - 1)) \<le> v \<and> v < 2 ^ (LENGTH('a) - 1) then Some (word_of_int v) else None)"

definition ctx_int :: "(int \<Rightarrow> 'a option) \<Rightarrow> int option \<Rightarrow> 'a \<Rightarrow> int \<times> int \<Rightarrow> span option \<Rightarrow> string \<Rightarrow> 'a check" where
  "ctx_int try_from value dflt rng sp key =
     (case value of
        None \<Rightarrow> ret dflt
      | Some v \<Rightarrow>
          if \<not> in_range (fst rng) (snd rng) v then do {
            err sp key (OutOfRange v (fst rng) (snd rng));
            ret dflt
          }
          else ret (case try_from v of None \<Rightarrow> dflt | Some x \<Rightarrow> x))"

definition ctx_duration :: "string option \<Rightarrow> duration \<Rightarrow> span option \<Rightarrow> string \<Rightarrow> duration check" where
  "ctx_duration value dflt sp key =
     (case value of
        None \<Rightarrow> ret dflt
      | Some text \<Rightarrow>
          (case Durations.parse text of
             Inr d \<Rightarrow> ret d
           | Inl e \<Rightarrow> do { err sp key (DurationProblem e); ret dflt }))"

definition ctx_duration_in ::
  "string option \<Rightarrow> duration \<Rightarrow> duration \<times> duration \<Rightarrow> span option \<Rightarrow> string \<Rightarrow> duration check" where
  "ctx_duration_in value dflt rng sp key = do {
     d \<leftarrow> ctx_duration value dflt sp key;
     if \<not> in_range (fst rng) (snd rng) d then do {
       err sp key (DurationOutOfRange d (fst rng) (snd rng));
       ret dflt
     }
     else ret d
   }"

definition span_of :: "'a spanned option \<Rightarrow> span option" where
  "span_of s = map_option fst s"

section \<open>Names and addresses\<close>

definition EVENT_TYPES :: "string list" where
  "EVENT_TYPES =
     [''daemon_started'', ''daemon_stopping'', ''config_reloaded'', ''reload_failed'',
      ''path_state_changed'', ''path_address_changed'', ''path_gateway_changed'',
      ''active_set_changed'', ''uplink_drained'', ''uplink_undrained'', ''artifact_repaired'',
      ''apply_failed'', ''status_degraded'', ''status_recovered'']"

definition DEFAULT_EMAIL_EVENTS :: "string list" where
  "DEFAULT_EMAIL_EVENTS =
     [''daemon_started'', ''daemon_stopping'', ''config_reloaded'', ''reload_failed'',
      ''path_state_changed'', ''active_set_changed'', ''uplink_drained'', ''uplink_undrained'',
      ''status_degraded'', ''status_recovered'']"

definition DEFAULT_TARGETS_V4 :: "string list" where
  "DEFAULT_TARGETS_V4 = [''icmp:1.1.1.1'', ''icmp:8.8.8.8'', ''icmp:9.9.9.9'', ''icmp:208.67.222.222'']"

definition DEFAULT_TARGETS_V6 :: "string list" where
  "DEFAULT_TARGETS_V6 = [''icmp:2606:4700:4700::1111'', ''icmp:2001:4860:4860::8888'', ''icmp:2620:fe::fe'']"

definition valid_uplink_name :: "string \<Rightarrow> bool" where
  "valid_uplink_name name \<longleftrightarrow>
     in_range 1 32 (length name) \<and>
     list_all (\<lambda>b. is_ascii_lowercase b \<or> is_ascii_digit b \<or> b = CHR ''_'' \<or> b = CHR ''-'') name"

definition check_interface_name :: "string \<Rightarrow> problem + unit" where
  "check_interface_name name =
     (if name = [] \<or> 15 < length name \<or> name = ''.'' \<or> name = ''..'' \<or>
         \<not> list_all (\<lambda>b. is_ascii_alphanumeric b \<or> b \<in> set ''_-.:+'') name
      then Inl (BadInterfaceName name) else Inr ())"

definition is_global_unicast :: "ip_addr \<Rightarrow> bool" where
  "is_global_unicast addr =
     (case addr of
        IpV4 a \<Rightarrow>
          \<not> (a = 0 \<or> v4_is_loopback a \<or> v4_is_multicast a \<or> v4_is_broadcast a \<or> v4_is_link_local a \<or>
             v4_is_private a \<or> octet a 0 = 0 \<or> 240 \<le> octet a 0 \<or>
             (octet a 0 = 100 \<and> octet a 1 AND 0xc0 = 64))
      | IpV6 a \<Rightarrow>
          \<not> (a = 0 \<or> a = 1 \<or> v6_is_multicast a \<or> segment a 0 AND 0xffc0 = 0xfe80 \<or>
             segment a 0 AND 0xfe00 = 0xfc00 \<or> v6_is_ipv4_mapped a))"

definition is_usable_source :: "ip_addr \<Rightarrow> bool" where
  "is_usable_source addr =
     (case addr of
        IpV4 a \<Rightarrow>
          \<not> (a = 0 \<or> v4_is_loopback a \<or> v4_is_multicast a \<or> v4_is_broadcast a \<or> v4_is_link_local a)
      | IpV6 a \<Rightarrow> \<not> (a = 0 \<or> a = 1 \<or> v6_is_multicast a \<or> segment a 0 AND 0xffc0 = 0xfe80))"

definition check_account_name :: "string \<Rightarrow> problem + unit" where
  "check_account_name name =
     (let body = if name \<noteq> [] \<and> last name = CHR ''$'' then butlast name else name
      in if in_range 1 32 (length name) \<and> body \<noteq> [] \<and> hd body \<noteq> CHR ''-'' \<and>
            list_all (\<lambda>b. is_ascii_alphanumeric b \<or> b \<in> set ''_-.'') body
         then Inr () else Inl (BadAccountName name))"

definition dns_label :: "string \<Rightarrow> bool" where
  "dns_label l \<longleftrightarrow>
     in_range 1 63 (length l) \<and> hd l \<noteq> CHR ''-'' \<and> last l \<noteq> CHR ''-'' \<and>
     list_all (\<lambda>b. is_ascii_alphanumeric b \<or> b = CHR ''-'') l"

text \<open>The characters of an atom: letters, digits and the punctuation of \<open>atext\<close> (0x27 is the quote, 0x60 the backquote).\<close>

definition atext :: "char \<Rightarrow> bool" where
  "atext b \<longleftrightarrow>
     is_ascii_alphanumeric b \<or> b \<in> set ''!#$%&'' \<or> b = CHR 0x27 \<or> b \<in> set ''*+-/=?^_'' \<or> b = CHR 0x60 \<or>
     b \<in> set ''{|}~''"

definition check_mailbox :: "string \<Rightarrow> problem + unit" where
  "check_mailbox text =
     (if \<not> list_all is_ascii text \<or> list_ex (\<lambda>b. is_ascii_control b \<or> b = CHR '' '') text
      then Inl (NotAMailbox text NotPrintable)
      else if 254 < length text then Inl (NotAMailbox text MailboxTooLong)
      else case rsplit_once CHR ''@'' text of
        None \<Rightarrow> Inl (NotAMailbox text NoAtSign)
      | Some (local, domain) \<Rightarrow>
          if local = [] \<or> 64 < length local \<or>
             \<not> list_all (\<lambda>a. a \<noteq> [] \<and> list_all atext a) (split_on CHR ''.'' local)
          then Inl (NotAMailbox text BadLocalPart)
          else if hd local \<in> set ''-/|'' then Inl (NotAMailbox text (BadLocalStart (hd local)))
          else if 253 < length domain \<or> \<not> list_all dns_label (split_on CHR ''.'' domain)
          then Inl (NotAMailbox text BadDomain)
          else Inr ())"

definition STAGING :: string where
  "STAGING = ''.polywan-staging-''"

definition STAGED :: string where
  "STAGED = ''s''"

text \<open>\<open>u32::MAX.ilog10() + 1\<close> is the number of decimal digits of \<open>u32::MAX\<close>.\<close>

definition STAGING_SUFFIX_MAX :: nat where
  "STAGING_SUFFIX_MAX = 1 + length STAGING + 10 + 1 + length STAGED"

definition SUN_PATH_MAX :: nat where
  "SUN_PATH_MAX = 107"

definition check_socket_path :: "string \<Rightarrow> problem + unit" where
  "check_socket_path path =
     (if \<not> is_absolute path then Inl NotAbsolute
      else if list_ex (\<lambda>c. c = CurDir \<or> c = ParentDir) (path_components path) \<or> last path = CHR ''/''
      then Inl NotASocketFile
      else
        let len = length path;
            parent = (case path_parent path of None \<Rightarrow> 0 | Some p \<Rightarrow> length p)
        in if SUN_PATH_MAX < len \<or> SUN_PATH_MAX < parent + STAGING_SUFFIX_MAX then Inl SocketPathTooLong
           else Inr ())"

definition parse_target :: "string \<Rightarrow> problem + target" where
  "parse_target text =
     (case strip_prefix ''icmp:'' text of
        Some a \<Rightarrow> (case parse_ip_addr a of Some ip \<Rightarrow> Inr (TargetIcmp ip) | None \<Rightarrow> Inl (BadTarget text))
      | None \<Rightarrow>
          (case strip_prefix ''tcp:'' text of
             Some s \<Rightarrow>
               (case parse_socket_addr s of
                  None \<Rightarrow> Inl (BadTarget text)
                | Some sa \<Rightarrow> if sa_port sa = 0 then Inl (PortZero text) else Inr (TargetTcp sa))
           | None \<Rightarrow> Inl (BadTarget text)))"

definition distinct_addresses :: "target list \<Rightarrow> nat" where
  "distinct_addresses targets = card (target_addr ` set targets)"

section \<open>Routing and firewall\<close>

definition routing_default :: raw_routing where
  "routing_default =
     \<lparr>rr_table_base = None, rr_rule_priority_base = None, rr_route_protocol = None, rr_fwmark_mask = None,
      rr_all_down_policy = None, rr_discovery_tables = None, rr_manage_sysctls = None,
      rr_reconcile_interval = None, rr_on_shutdown = None\<rparr>"

definition own_tables :: "u32 \<Rightarrow> u32 \<Rightarrow> bool" where
  "own_tables base t \<longleftrightarrow> in_range base (base + 191) t"

definition mask_of :: "span option \<Rightarrow> int option \<Rightarrow> fw_mask check" where
  "mask_of sp v =
     (case v of
        None \<Rightarrow> ret fwm_default
      | Some v \<Rightarrow>
          (case Option.bind (try_unsigned v) fw_mask_new of
             Some m \<Rightarrow> ret m
           | None \<Rightarrow> do { err sp ''routing.fwmark_mask'' (BadMask v); ret fwm_default }))"

definition table_id :: "span option \<Rightarrow> table_ref \<Rightarrow> u32 option check" where
  "table_id sp t =
     (case t of
        TableName n \<Rightarrow>
          if n = ''main'' then ret (Some 254)
          else if n = ''default'' then ret (Some 253)
          else do { err sp ''routing.discovery_tables'' (UnknownTableName n); ret None }
      | TableId n \<Rightarrow>
          (case try_unsigned n of
             Some i \<Rightarrow>
               if 1 \<le> i \<and> i \<noteq> (255 :: u32) then ret (Some i)
               else do { err sp ''routing.discovery_tables'' (UnusableTable n); ret None }
           | None \<Rightarrow> do { err sp ''routing.discovery_tables'' (UnusableTable n); ret None }))"

definition discovery_table :: "span option \<Rightarrow> u32 \<Rightarrow> table_ref \<Rightarrow> u32 list \<Rightarrow> u32 list check" where
  "discovery_table sp base t tables = do {
     i \<leftarrow> table_id sp t;
     case i of
       None \<Rightarrow> ret tables
     | Some i \<Rightarrow>
         if own_tables base i then do {
           err sp ''routing.discovery_tables'' (OwnTable i);
           ret tables
         }
         else ret (if i \<in> set tables then tables else tables @ [i])
   }"

definition the_or :: "'a \<Rightarrow> 'a option \<Rightarrow> 'a" where
  "the_or d v = (case v of None \<Rightarrow> d | Some x \<Rightarrow> x)"

definition routing :: "raw_routing spanned option \<Rightarrow> Config.routing check" where
  "routing raw = (
     let sp = span_of raw;
         r = the_or routing_default (map_option snd raw)
     in do {
       table_base \<leftarrow> ctx_int try_unsigned (rr_table_base r) 1000 (1, 4294967294 - 191) sp ''routing.table_base'';
       err_if (own_tables table_base 253 \<or> own_tables table_base 255) sp ''routing.table_base''
         (ReservedTables table_base (table_base + 191));
       rule_priority_base \<leftarrow>
         ctx_int try_unsigned (rr_rule_priority_base r) 1000 (1, 32765 - 699) sp ''routing.rule_priority_base'';
       route_protocol \<leftarrow> ctx_int try_unsigned (rr_route_protocol r) 249 (5, 255) sp ''routing.route_protocol'';
       fwmark_mask \<leftarrow> mask_of sp (rr_fwmark_mask r);
       discovery_tables \<leftarrow>
         for_each (discovery_table sp table_base) (the_or [TableName ''main''] (rr_discovery_tables r)) [];
       reconcile_interval \<leftarrow>
         ctx_duration_in (rr_reconcile_interval r) (from_secs 60) (from_secs 10, from_secs 3600) sp
           ''routing.reconcile_interval'';
       ret \<lparr>table_base = table_base, rule_priority_base = rule_priority_base,
            route_protocol = route_protocol, fwmark_mask = fwmark_mask,
            all_down = the_or ReadyPolicy (rr_all_down_policy r), discovery_tables = discovery_tables,
            manage_sysctls = the_or True (rr_manage_sysctls r), reconcile_interval = reconcile_interval,
            shutdown_action = the_or KeepOnShutdown (rr_on_shutdown r)\<rparr>
     })"

definition firewall :: "raw_firewall spanned option \<Rightarrow> Config.firewall check" where
  "firewall raw = (
     let sp = span_of raw;
         f = the_or \<lparr>rf_mode = None, rf_nat_priority = None, rf_nft_path = None\<rparr> (map_option snd raw)
     in do {
       nat_priority \<leftarrow> ctx_int try_signed (rf_nat_priority f) 100 (- 149, 400) sp ''firewall.nat_priority'';
       let nft = the_or ''/usr/sbin/nft'' (rf_nft_path f);
       err_if (\<not> is_absolute nft) sp ''firewall.nft_path'' NotAbsolute;
       ret \<lparr>fw_mode = the_or Managed (rf_mode f), nat_priority = nat_priority, nft_path = nft\<rparr>
     })"

section \<open>Paths of an uplink\<close>

definition path_addr :: "span \<Rightarrow> family \<Rightarrow> string \<Rightarrow> string option \<Rightarrow> string \<Rightarrow> ip_addr auto_or check" where
  "path_addr sp family key value what =
     (case value of
        None \<Rightarrow> ret Auto
      | Some text \<Rightarrow>
          if text = ''auto'' then ret Auto
          else (case parse_ip_addr text of
             Some a \<Rightarrow>
               if family_of a = family then ret (Static a)
               else do { err (Some sp) (key @ ''.'' @ what) (WrongFamilyAddress text family); ret Auto }
           | None \<Rightarrow> do { err (Some sp) (key @ ''.'' @ what) (NotAnAddress text); ret Auto }))"

definition path_nat :: "span \<Rightarrow> family \<Rightarrow> string \<Rightarrow> nat_mode option \<Rightarrow> nat_mode check" where
  "path_nat sp family key v =
     (case (v, family) of
        (Some n, _) \<Rightarrow> ret n
      | (None, V4) \<Rightarrow> ret Masquerade
      | (None, V6) \<Rightarrow> do { err (Some sp) (key @ ''.nat'') NatNotSet; ret NatNone })"

definition path :: "raw_path spanned \<Rightarrow> family \<Rightarrow> string \<Rightarrow> path_settings check" where
  "path raw family key = (
     let sp = fst raw; p = snd raw
     in do {
       source \<leftarrow> path_addr sp family key (rw_source p) ''source'';
       gateway \<leftarrow> path_addr sp family key (rw_gateway p) ''gateway'';
       (case source of
          Static a \<Rightarrow> err_if (\<not> is_usable_source a) (Some sp) (key @ ''.source'') (UnusableSource a)
        | Auto \<Rightarrow> ret ());
       let onlink = the_or False (rw_gateway_onlink p);
       err_if (onlink \<and> gateway = Auto) (Some sp) (key @ ''.gateway_onlink'') OnlinkWithoutGateway;
       nat \<leftarrow> path_nat sp family key (rw_nat p);
       err_if (nat = Snat \<and> source = Auto) (Some sp) (key @ ''.source'') SnatWithoutSource;
       ret \<lparr>ps_source = source, ps_gateway = gateway, gateway_onlink = onlink, ps_nat = nat\<rparr>
     })"

section \<open>Health settings\<close>

definition opt_or :: "'a option \<Rightarrow> 'a option \<Rightarrow> 'a option" where
  "opt_or a b = (case a of Some _ \<Rightarrow> a | None \<Rightarrow> b)"

definition merge_quality :: "raw_quality \<Rightarrow> raw_quality \<Rightarrow> raw_quality" where
  "merge_quality gq lq =
     \<lparr>rq_max_rtt = opt_or (rq_max_rtt lq) (rq_max_rtt gq),
      rq_max_jitter = opt_or (rq_max_jitter lq) (rq_max_jitter gq),
      rq_max_loss = opt_or (rq_max_loss lq) (rq_max_loss gq)\<rparr>"

definition merge_health :: "raw_health option \<Rightarrow> raw_health option \<Rightarrow> raw_health" where
  "merge_health global local =
     (let g = the_or raw_health_default global
      in case local of
           None \<Rightarrow> g
         | Some l \<Rightarrow>
             (let gq = the_or raw_quality_default (rh_quality g);
                  quality = map_option (merge_quality gq) (rh_quality l)
              in \<lparr>rh_interval = opt_or (rh_interval l) (rh_interval g),
                  rh_timeout = opt_or (rh_timeout l) (rh_timeout g),
                  rh_attempts = opt_or (rh_attempts l) (rh_attempts g),
                  rh_required_reachable = opt_or (rh_required_reachable l) (rh_required_reachable g),
                  rh_fall = opt_or (rh_fall l) (rh_fall g),
                  rh_rise = opt_or (rh_rise l) (rh_rise g),
                  rh_ipv4 = opt_or (rh_ipv4 l) (rh_ipv4 g),
                  rh_ipv6 = opt_or (rh_ipv6 l) (rh_ipv6 g),
                  rh_quality = opt_or quality (Some gq),
                  rh_quality_window = opt_or (rh_quality_window l) (rh_quality_window g),
                  rh_quality_min_samples = opt_or (rh_quality_min_samples l) (rh_quality_min_samples g)\<rparr>))"

text \<open>\<open>Duration * u32\<close>, which panics on overflow.\<close>

definition duration_mul :: "duration \<Rightarrow> nat \<Rightarrow> duration option" where
  "duration_mul d n = (if d * n < duration_limit then Some (d * n) else None)"

definition read_target :: "span option \<Rightarrow> string \<Rightarrow> family \<Rightarrow> string \<Rightarrow> target list \<Rightarrow> target list check" where
  "read_target sp key family text out =
     (case parse_target text of
        Inr t \<Rightarrow>
          if family_of (target_addr t) \<noteq> family then do { err sp key (WrongFamilyTarget text family); ret out }
          else if \<not> is_global_unicast (target_addr t) then do { err sp key (NotGlobalUnicast text); ret out }
          else if t \<in> set out then do { err sp key (TargetListedTwice text); ret out }
          else ret (out @ [t])
      | Inl e \<Rightarrow> do { err sp key e; ret out })"

definition target_texts :: "raw_health \<Rightarrow> family \<Rightarrow> string list" where
  "target_texts h family =
     the_or (if family = V4 then DEFAULT_TARGETS_V4 else DEFAULT_TARGETS_V6)
       (map_option rt_targets (case family of V4 \<Rightarrow> rh_ipv4 h | V6 \<Rightarrow> rh_ipv6 h))"

definition read_targets ::
  "raw_health \<Rightarrow> family list \<Rightarrow> span option \<Rightarrow> string \<Rightarrow> family \<Rightarrow> target list check" where
  "read_targets h families sp key family = (
     let key = key @ ''.'' @ family_key family @ ''.targets''
     in do {
       out \<leftarrow> for_each (read_target sp key family) (target_texts h family) [];
       err_if (out = [] \<and> family \<in> set families) sp key NoTarget;
       ret out
     })"

definition targets_of :: "target list \<Rightarrow> target list \<Rightarrow> family \<Rightarrow> nat" where
  "targets_of t4 t6 f = distinct_addresses (if f = V4 then t4 else t6)"

definition required_step ::
  "span option \<Rightarrow> string \<Rightarrow> u8 \<Rightarrow> (family \<Rightarrow> nat) \<Rightarrow> family \<Rightarrow> unit \<Rightarrow> unit check" where
  "required_step sp key required n f u =
     err_if (0 < n f \<and> n f < unat required) sp (key @ ''.required_reachable'') (TooManyRequired required (n f) f)"

definition quality_of :: "span option \<Rightarrow> string \<Rightarrow> raw_quality \<Rightarrow> quality check" where
  "quality_of sp key q = do {
     max_rtt \<leftarrow> map_check (\<lambda>t. ctx_duration (Some t) 0 sp (key @ ''.quality.max_rtt'')) (rq_max_rtt q);
     max_jitter \<leftarrow> map_check (\<lambda>t. ctx_duration (Some t) 0 sp (key @ ''.quality.max_jitter'')) (rq_max_jitter q);
     (case rq_max_loss q of
        None \<Rightarrow> ret ()
      | Some l \<Rightarrow> err_if (\<not> (f64_le 0 l \<and> f64_le l f64_one)) sp (key @ ''.quality.max_loss'') (LossOutOfRange l));
     ret \<lparr>max_rtt = max_rtt, max_jitter = max_jitter, max_loss = rq_max_loss q\<rparr>
   }"

definition min_targets :: "family list \<Rightarrow> (family \<Rightarrow> nat) \<Rightarrow> nat option" where
  "min_targets families n = (if families = [] then None else Some (Min (n ` set families)))"

definition health_rest ::
  "raw_health \<Rightarrow> family list \<Rightarrow> span option \<Rightarrow> string \<Rightarrow> duration \<Rightarrow> duration \<Rightarrow> u8 \<Rightarrow> Config.health check" where
  "health_rest h families sp key interval timeout attempts = do {
     fall \<leftarrow> ctx_int try_unsigned (rh_fall h) 2 (1, 20) sp (key @ ''.fall'');
     rise \<leftarrow> ctx_int try_unsigned (rh_rise h) 3 (1, 20) sp (key @ ''.rise'');
     t4 \<leftarrow> read_targets h families sp key V4;
     t6 \<leftarrow> read_targets h families sp key V6;
     required \<leftarrow> ctx_int try_unsigned (rh_required_reachable h) 2 (1, 255) sp (key @ ''.required_reachable'');
     for_each (required_step sp key required (targets_of t4 t6)) families ();
     quality \<leftarrow> quality_of sp key (the_or raw_quality_default (rh_quality h));
     window \<leftarrow> ctx_int try_unsigned (rh_quality_window h) 6 (2, 100) sp (key @ ''.quality_window'');
     samples \<leftarrow>
       ctx_int try_unsigned (rh_quality_min_samples h) 10 (1, 10000) sp (key @ ''.quality_min_samples'');
     (if quality_enabled quality then
        (case min_targets families (targets_of t4 t6) of
           None \<Rightarrow> ret ()
         | Some n \<Rightarrow>
             err_if (n * unat window < unat samples) sp (key @ ''.quality_min_samples'')
               (TooManySamples samples (n * unat window)))
      else ret ());
     ret \<lparr>h_interval = interval, h_timeout = timeout, h_attempts = attempts,
          required_reachable = required, h_fall = fall, h_rise = rise, targets_v4 = t4, targets_v6 = t6,
          h_quality = quality, quality_window = window, quality_min_samples = samples\<rparr>
   }"

definition health ::
  "raw_health \<Rightarrow> family list \<Rightarrow> span option \<Rightarrow> string \<Rightarrow> Config.health option check" where
  "health h families sp key = do {
     interval \<leftarrow> ctx_duration_in (rh_interval h) (from_secs 5) (from_secs 1, from_secs 300) sp (key @ ''.interval'');
     timeout \<leftarrow> ctx_duration (rh_timeout h) (from_secs 1) sp (key @ ''.timeout'');
     err_if (timeout = 0) sp (key @ ''.timeout'') ZeroDuration;
     attempts \<leftarrow> ctx_int try_unsigned (rh_attempts h) 2 (1, 5) sp (key @ ''.attempts'');
     case duration_mul timeout (unat attempts) of
       None \<Rightarrow> ret None
     | Some longest \<Rightarrow> do {
         err_if (interval \<le> longest) sp (key @ ''.timeout'') (AttemptsTooLong timeout attempts interval);
         r \<leftarrow> health_rest h families sp key interval timeout attempts;
         ret (Some r)
       }
   }"

section \<open>Policies\<close>

text \<open>The operations of the \<open>ipnet\<close> crate: parsing a prefix, the prefix of one address, the prefix without host bits.\<close>

record net_lib =
  nl_parse :: "string \<Rightarrow> ip_net option"
  nl_from :: "ip_addr \<Rightarrow> ip_net"
  nl_trunc :: "ip_net \<Rightarrow> ip_net"

definition policy_uplink :: "span \<Rightarrow> string \<Rightarrow> family \<Rightarrow> string \<Rightarrow> uplink list \<Rightarrow> uplink_id option check" where
  "policy_uplink sp key family name uplinks =
     (case find (\<lambda>u. u_name u = name) uplinks of
        Some u \<Rightarrow> do {
          err_if (uplink_path u family = None) (Some sp) (key @ ''.uplink'') (UplinkWithoutFamily (u_name u) family);
          ret (Some (u_id u))
        }
      | None \<Rightarrow> do { err (Some sp) (key @ ''.uplink'') (UnknownUplink name); ret None })"

definition policy_prefix :: "net_lib \<Rightarrow> span \<Rightarrow> string \<Rightarrow> family \<Rightarrow> string option \<Rightarrow> string \<Rightarrow> ip_net option check" where
  "policy_prefix nets sp key family v what =
     (case v of
        None \<Rightarrow> ret None
      | Some text \<Rightarrow>
          (case opt_or (nl_parse nets text) (map_option (nl_from nets) (parse_ip_addr text)) of
             Some n \<Rightarrow>
               if family_of (net_addr n) = family then ret (Some (nl_trunc nets n))
               else do { err (Some sp) (key @ ''.'' @ what) (WrongFamilyPrefix text family); ret None }
           | None \<Rightarrow> do { err (Some sp) (key @ ''.'' @ what) (NotAPrefix text); ret None }))"

definition policy_protocol :: "span \<Rightarrow> string \<Rightarrow> family \<Rightarrow> ip_protocol option \<Rightarrow> unit check" where
  "policy_protocol sp key family p =
     (case (p, family) of
        (Some Icmp, V6) \<Rightarrow> err (Some sp) (key @ ''.protocol'') IcmpOnIpv6
      | (Some Icmpv6, V4) \<Rightarrow> err (Some sp) (key @ ''.protocol'') Icmpv6OnIpv4
      | _ \<Rightarrow> ret ())"

definition port_range :: "port_spec \<Rightarrow> (int \<times> int) option" where
  "port_range spec =
     (case spec of
        Port n \<Rightarrow> Some (n, n)
      | PortRange s \<Rightarrow>
          Option.bind (split_once CHR ''-'' s) (\<lambda>(a, b).
          Option.bind (parse_i64 (trim a)) (\<lambda>m.
          Option.bind (parse_i64 (trim b)) (\<lambda>n. Some (m, n)))))"

definition policy_port ::
  "span \<Rightarrow> string \<Rightarrow> ip_protocol option \<Rightarrow> port_spec option \<Rightarrow> (u16 \<times> u16) option check" where
  "policy_port sp key protocol v =
     (case v of
        None \<Rightarrow> ret None
      | Some spec \<Rightarrow>
          if protocol \<notin> {Some Tcp, Some Udp, Some Sctp} then do {
            err (Some sp) (key @ ''.destination_port'') PortsWithoutProtocol;
            ret None
          }
          else (case port_range spec of
             Some (a, b) \<Rightarrow>
               if in_range 1 65535 a \<and> in_range 1 65535 b \<and> a \<le> b then ret (Some (word_of_int a, word_of_int b))
               else do { err (Some sp) (key @ ''.destination_port'') BadPorts; ret None }
           | None \<Rightarrow> do { err (Some sp) (key @ ''.destination_port'') BadPorts; ret None }))"

definition problems :: "nat check" where
  "problems = State (\<lambda>cx. (length (cx_diags cx), cx))"

definition policy ::
  "net_lib \<Rightarrow> raw_policy spanned \<Rightarrow> nat \<Rightarrow> uplink list \<Rightarrow> string list \<Rightarrow> Config.policy option check" where
  "policy nets raw i uplinks downlinks = (
     let sp = fst raw; p = snd raw; key = ''policy['' @ show_nat i @ '']'';
         family = (case ry_family p of PolicyIpv4 \<Rightarrow> V4 | PolicyIpv6 \<Rightarrow> V6)
     in do {
       before \<leftarrow> problems;
       uplink \<leftarrow> policy_uplink sp key family (ry_uplink p) uplinks;
       (case ry_input_interface p of
          None \<Rightarrow> ret ()
        | Some n \<Rightarrow> err_if (n \<notin> set downlinks) (Some sp) (key @ ''.input_interface'') (NotADownlink n));
       source \<leftarrow> policy_prefix nets sp key family (ry_source p) ''source'';
       destination \<leftarrow> policy_prefix nets sp key family (ry_destination p) ''destination'';
       policy_protocol sp key family (ry_protocol p);
       port \<leftarrow> policy_port sp key (ry_protocol p) (ry_destination_port p);
       after \<leftarrow> problems;
       ret (if after \<noteq> before then None
            else map_option (\<lambda>uplink.
              \<lparr>p_name = ry_name p, p_family = family, p_input_interface = ry_input_interface p,
               p_source = source, p_destination = destination, p_protocol = ry_protocol p,
               p_destination_port = port, p_uplink = uplink,
               p_fallback = the_or Balance (ry_fallback p)\<rparr>) uplink)
     })"

section \<open>Notifications and interfaces\<close>

definition check_events :: "string list \<Rightarrow> span option \<Rightarrow> string \<Rightarrow> unit check" where
  "check_events events sp key = do {
     err_if (events = []) sp key EmptyEvents;
     for_each (\<lambda>ev u. err_if (ev \<notin> set EVENT_TYPES) sp key (UnknownEvent ev)) events ()
   }"

definition unique_events :: "string list \<Rightarrow> string list" where
  "unique_events events = fold (\<lambda>ev unique. if ev \<in> set unique then unique else unique @ [ev]) events []"

definition DEFAULT_SENDMAIL :: string where
  "DEFAULT_SENDMAIL = ''/usr/sbin/sendmail''"

definition email_of :: "raw_email spanned \<Rightarrow> email check" where
  "email_of raw = (
     let sp = Some (fst raw); e = snd raw
     in do {
       max_per_hour \<leftarrow> ctx_int try_unsigned (re_max_per_hour e) 20 (1, 10000) sp ''notify.email.max_per_hour'';
       err_of sp ''notify.email.from'' (check_mailbox (re_from e));
       err_if (re_to e = []) sp ''notify.email.to'' NoRecipient;
       for_each (\<lambda>(i, to) u. err_of sp (''notify.email.to['' @ show_nat i @ '']'') (check_mailbox to))
         (enumerate 0 (re_to e)) ();
       let sendmail = the_or DEFAULT_SENDMAIL (re_sendmail e);
       err_if (\<not> is_absolute sendmail) sp ''notify.email.sendmail'' SendmailNotAbsolute;
       events \<leftarrow> (case re_events e of
         Some events \<Rightarrow> do { check_events events sp ''notify.email.events''; ret (unique_events events) }
       | None \<Rightarrow> ret DEFAULT_EMAIL_EVENTS);
       ret \<lparr>e_from = re_from e, e_to = re_to e, e_sendmail = sendmail, e_max_per_hour = max_per_hour,
            e_events = events\<rparr>
     })"

definition hook_of :: "nat \<Rightarrow> raw_hook spanned \<Rightarrow> hook check" where
  "hook_of i raw = (
     let sp = Some (fst raw); h = snd raw; key = ''notify.hook['' @ show_nat i @ '']''
     in do {
       err_if (rk_command h = [] \<or> \<not> is_absolute (hd (rk_command h))) sp (key @ ''.command'') CommandNotAbsolute;
       (case rk_events h of None \<Rightarrow> ret () | Some events \<Rightarrow> check_events events sp (key @ ''.events''));
       timeout \<leftarrow> ctx_duration (rk_timeout h) (from_secs 10) sp (key @ ''.timeout'');
       err_if (timeout = 0) sp (key @ ''.timeout'') ZeroDuration;
       ret \<lparr>hk_command = rk_command h, hk_events = rk_events h, hk_timeout = timeout\<rparr>
     })"

definition notify :: "raw_notify spanned option \<Rightarrow> Config.notify check" where
  "notify raw =
     (case raw of
        None \<Rightarrow> ret \<lparr>n_coalesce = from_secs 30, n_email = None, n_hooks = [], n_hook_user = ''nobody''\<rparr>
      | Some (sp, n) \<Rightarrow> do {
          coalesce \<leftarrow> ctx_duration (rn_coalesce n) (from_secs 30) (Some sp) ''notify.coalesce'';
          email \<leftarrow> map_check email_of (rn_email n);
          hooks \<leftarrow> for_each (\<lambda>(i, h) hooks. do { x \<leftarrow> hook_of i h; ret (hooks @ [x]) }) (enumerate 0 (rn_hook n)) [];
          let hook_user = the_or ''nobody'' (rn_hook_user n);
          err_of (Some sp) ''notify.hook_user'' (check_account_name hook_user);
          ret \<lparr>n_coalesce = coalesce, n_email = email, n_hooks = hooks, n_hook_user = hook_user\<rparr>
        })"

definition DEFAULT_API_SOCKET :: string where
  "DEFAULT_API_SOCKET = ''/run/polywan/api.sock''"

definition DEFAULT_STATUS_SOCKET :: string where
  "DEFAULT_STATUS_SOCKET = ''/run/polywan/status.sock''"

text \<open>Paths are compared by their components.\<close>

definition api :: "raw_api spanned option \<Rightarrow> Config.api check" where
  "api raw = (
     let sp = span_of raw;
         a = the_or \<lparr>ra_socket = None, ra_group = None, ra_status_socket = None, ra_status_group = None\<rparr>
               (map_option snd raw);
         socket = the_or DEFAULT_API_SOCKET (ra_socket a);
         status_socket = (case ra_status_socket a of
             None \<Rightarrow> Some DEFAULT_STATUS_SOCKET
           | Some p \<Rightarrow> if p = [] then None else Some p);
         group = the_or ''polywan'' (ra_group a)
     in do {
       err_of sp ''api.socket'' (check_socket_path socket);
       (case status_socket of
          None \<Rightarrow> ret ()
        | Some p \<Rightarrow>
            (case check_socket_path p of
               Inl m \<Rightarrow> err sp ''api.status_socket'' m
             | Inr _ \<Rightarrow>
                 err_if (path_components p = path_components socket) sp ''api.status_socket'' SameSockets));
       err_of sp ''api.group'' (check_account_name group);
       (case ra_status_group a of
          None \<Rightarrow> ret ()
        | Some g \<Rightarrow> err_of sp ''api.status_group'' (check_account_name g));
       ret \<lparr>a_socket = socket, a_group = group, a_status_socket = status_socket,
            a_status_group = ra_status_group a\<rparr>
     })"

definition metrics_listen :: "raw_metrics spanned option \<Rightarrow> socket_addr option check" where
  "metrics_listen raw =
     (case raw of
        None \<Rightarrow> ret None
      | Some (sp, m) \<Rightarrow>
          (case rm_listen m of
             None \<Rightarrow> ret None
           | Some l \<Rightarrow>
               (case parse_socket_addr l of
                  Some a \<Rightarrow> ret (Some a)
                | None \<Rightarrow> do { err (Some sp) ''metrics.listen'' (NotSocketAddress l); ret None })))"

definition state_dir :: "string spanned option \<Rightarrow> string check" where
  "state_dir raw =
     (case raw of
        None \<Rightarrow> ret ''/var/lib/polywan''
      | Some (sp, p) \<Rightarrow> do {
          (if \<not> is_absolute p then err (Some sp) ''state_dir'' NotAbsolute
           else err_if (ParentDir \<in> set (path_components p)) (Some sp) ''state_dir'' ParentComponent);
          ret p
        })"

section \<open>The whole file\<close>

definition downlink_step ::
  "nat \<times> raw_downlink spanned \<Rightarrow> string set \<times> string list \<Rightarrow> (string set \<times> string list) check" where
  "downlink_step d acc = (
     let i = fst d; sp = fst (snd d); name = rd_interface (snd (snd d));
         key = ''downlink['' @ show_nat i @ ''].interface'';
         interfaces = fst acc; downlinks = snd acc
     in case check_interface_name name of
          Inl e \<Rightarrow> do { err (Some sp) key e; ret (interfaces, downlinks @ [name]) }
        | Inr _ \<Rightarrow> do {
            err_if (name \<in> interfaces) (Some sp) key (InterfaceListedTwice name);
            ret (insert name interfaces, downlinks @ [name])
          })"

record uplink_acc =
  ua_interfaces :: "string set"
  ua_uplinks :: "uplink list"
  ua_static_sources :: "(ip_addr \<times> string) list"

definition uplink_id_of :: "span \<Rightarrow> string \<Rightarrow> int \<Rightarrow> uplink list \<Rightarrow> uplink_id check" where
  "uplink_id_of sp key n uplinks = do {
     i \<leftarrow> (case Option.bind (try_unsigned n) uplink_id_new of
       Some i \<Rightarrow> ret i
     | None \<Rightarrow> do { err (Some sp) (key @ ''.id'') (IdOutOfRange n); ret (UplinkId 1) });
     err_if (i \<in> u_id ` set uplinks \<and> in_range 1 63 n) (Some sp) (key @ ''.id'') (IdUsed i);
     ret i
   }"

definition uplink_name_check :: "span \<Rightarrow> string \<Rightarrow> string \<Rightarrow> uplink list \<Rightarrow> unit check" where
  "uplink_name_check sp key name uplinks =
     (if \<not> valid_uplink_name name then err (Some sp) (key @ ''.name'') (BadUplinkName name)
      else err_if (name \<in> u_name ` set uplinks) (Some sp) (key @ ''.name'') (UplinkNameUsed name))"

definition uplink_interface :: "span \<Rightarrow> string \<Rightarrow> string \<Rightarrow> string set \<Rightarrow> string set check" where
  "uplink_interface sp key name interfaces =
     (case check_interface_name name of
        Inl e \<Rightarrow> do { err (Some sp) (key @ ''.interface'') e; ret interfaces }
      | Inr _ \<Rightarrow> do {
          err_if (name \<in> interfaces) (Some sp) (key @ ''.interface'') (InterfaceUsed name);
          ret (insert name interfaces)
        })"

definition static_source_step ::
  "span \<Rightarrow> string \<Rightarrow> string \<Rightarrow> path_settings option \<Rightarrow> (ip_addr \<times> string) list \<Rightarrow> (ip_addr \<times> string) list check" where
  "static_source_step sp key name p sources =
     (case map_option ps_source p of
        Some (Static a) \<Rightarrow> do {
          (case find (\<lambda>s. fst s = a) sources of
             Some s \<Rightarrow> err (Some sp) (key @ ''.source'') (StaticSourceUsed a (snd s))
           | None \<Rightarrow> ret ());
          ret (sources @ [(a, name)])
        }
      | _ \<Rightarrow> ret sources)"

definition uplink_health ::
  "raw_health spanned option \<Rightarrow> string \<Rightarrow> raw_health spanned option \<Rightarrow> family list \<Rightarrow> Config.health option check" where
  "uplink_health global key local families =
     (case local of
        Some h \<Rightarrow>
          health (merge_health (map_option snd global) (Some (snd h))) families (Some (fst h)) (key @ ''.health'')
      | None \<Rightarrow> health (merge_health (map_option snd global) None) families (span_of global) ''health'')"

definition enabled_families :: "path_settings option \<Rightarrow> path_settings option \<Rightarrow> family list" where
  "enabled_families ipv4 ipv6 = map fst (filter snd [(V4, ipv4 \<noteq> None), (V6, ipv6 \<noteq> None)])"

definition uplink_step ::
  "raw_health spanned option \<Rightarrow> nat \<times> raw_uplink spanned \<Rightarrow> uplink_acc \<Rightarrow> uplink_acc option check" where
  "uplink_step global x acc = (
     let sp = fst (snd x); u = snd (snd x); key = ''uplink['' @ show_nat (fst x) @ '']''
     in do {
       i \<leftarrow> uplink_id_of sp key (ru_id u) (ua_uplinks acc);
       uplink_name_check sp key (ru_name u) (ua_uplinks acc);
       interfaces \<leftarrow> uplink_interface sp key (ru_interface u) (ua_interfaces acc);
       priority \<leftarrow> map_check (\<lambda>p. ctx_int try_unsigned (Some p) 1 (1, 1000) (Some sp) (key @ ''.priority'')) (ru_priority u);
       weight \<leftarrow> ctx_int try_unsigned (ru_weight u) 1 (1, 256) (Some sp) (key @ ''.weight'');
       err_if (ru_ipv4 u = None \<and> ru_ipv6 u = None) (Some sp) key NoFamilyEnabled;
       ipv4 \<leftarrow> map_check (\<lambda>p. path p V4 (key @ ''.ipv4'')) (ru_ipv4 u);
       ipv6 \<leftarrow> map_check (\<lambda>p. path p V6 (key @ ''.ipv6'')) (ru_ipv6 u);
       sources \<leftarrow> for_each (static_source_step sp key (ru_name u)) [ipv4, ipv6] (ua_static_sources acc);
       h \<leftarrow> uplink_health global key (ru_health u) (enabled_families ipv4 ipv6);
       ret (map_option (\<lambda>h.
         \<lparr>ua_interfaces = interfaces,
          ua_uplinks = ua_uplinks acc @
            [\<lparr>u_id = i, u_name = ru_name u, u_description = the_or (ru_name u) (ru_description u),
              u_interface = ru_interface u, u_priority = priority, u_weight = weight,
              u_ipv4 = ipv4, u_ipv6 = ipv6, u_health = h\<rparr>],
          ua_static_sources = sources\<rparr>) h)
     })"

primrec uplink_loop ::
  "raw_health spanned option \<Rightarrow> (nat \<times> raw_uplink spanned) list \<Rightarrow> uplink_acc \<Rightarrow> uplink_acc option check" where
  "uplink_loop global [] acc = ret (Some acc)"
| "uplink_loop global (x # xs) acc = do {
     r \<leftarrow> uplink_step global x acc;
     case r of None \<Rightarrow> ret None | Some acc' \<Rightarrow> uplink_loop global xs acc'
   }"

definition sort_problems :: "unit check" where
  "sort_problems =
     State (\<lambda>cx. ((), cx\<lparr>cx_diags :=
       remdups_adj (sort_key (\<lambda>d. (dg_line d, dg_key d, dg_message d)) (cx_diags cx))\<rparr>))"

definition policy_step ::
  "net_lib \<Rightarrow> uplink list \<Rightarrow> string list \<Rightarrow> nat \<times> raw_policy spanned \<Rightarrow> Config.policy list \<Rightarrow> Config.policy list check" where
  "policy_step nets uplinks downlinks x policies = do {
     p \<leftarrow> policy nets (snd x) (fst x) uplinks downlinks;
     ret (policies @ (case p of None \<Rightarrow> [] | Some p \<Rightarrow> [p]))
   }"

definition policy_name_step :: "nat \<times> Config.policy \<Rightarrow> string set \<Rightarrow> string set check" where
  "policy_name_step x names = do {
     err_if (p_name (snd x) \<in> names) None (''policy['' @ show_nat (fst x) @ ''].name'') (PolicyNameUsed (p_name (snd x)));
     ret (insert (p_name (snd x)) names)
   }"

definition validate_rest ::
  "net_lib \<Rightarrow> raw_config \<Rightarrow> Config.routing \<Rightarrow> Config.firewall \<Rightarrow> string list \<Rightarrow> uplink list \<Rightarrow> config check" where
  "validate_rest nets raw r f downlinks uplinks = do {
     sort_problems;
     policies \<leftarrow> for_each (policy_step nets uplinks downlinks) (enumerate 0 (rc_policy raw)) [];
     for_each policy_name_step (enumerate 0 policies) {};
     n \<leftarrow> notify (rc_notify raw);
     a \<leftarrow> api (rc_api raw);
     m \<leftarrow> metrics_listen (rc_metrics raw);
     d \<leftarrow> state_dir (rc_state_dir raw);
     ret \<lparr>c_routing = r, c_firewall = f, c_downlinks = downlinks, c_uplinks = uplinks,
          c_policies = policies, c_notify = n, c_api = a, c_metrics_listen = m, c_state_dir = d,
          c_digest = []\<rparr>
   }"

definition validate_checks :: "net_lib \<Rightarrow> raw_config \<Rightarrow> config option check" where
  "validate_checks nets raw = do {
     r \<leftarrow> routing (rc_routing raw);
     f \<leftarrow> firewall (rc_firewall raw);
     err_if (rc_downlink raw = []) None ''downlink'' NoDownlink;
     d \<leftarrow> for_each downlink_step (enumerate 0 (rc_downlink raw)) ({}, []);
     err_if (rc_uplink raw = []) None ''uplink'' NoUplink;
     u \<leftarrow> uplink_loop (rc_health raw) (enumerate 0 (rc_uplink raw))
           \<lparr>ua_interfaces = fst d, ua_uplinks = [], ua_static_sources = []\<rparr>;
     case u of
       None \<Rightarrow> ret None
     | Some u \<Rightarrow> do { c \<leftarrow> validate_rest nets raw r f (snd d) (ua_uplinks u); ret (Some c) }
   }"

definition validate ::
  "net_lib \<Rightarrow> (problem \<Rightarrow> string) \<Rightarrow> string \<Rightarrow> raw_config \<Rightarrow> (diagnostic list + config) option" where
  "validate nets render text raw =
     (case run_state (validate_checks nets raw) \<lparr>cx_text = text, cx_diags = [], cx_render = render\<rparr> of
        (None, cx) \<Rightarrow> None
      | (Some c, cx) \<Rightarrow>
          Some (if cx_diags cx = [] then Inr c
                else Inl (remdups_adj (sort_key (\<lambda>d. (dg_line d, dg_key d)) (cx_diags cx)))))"

end
