(* ===== verification/Accepted.thy ===== *)
theory Accepted
  imports Validate
begin

text \<open>
  What a configuration that the validation accepts satisfies. A calculus over the checks carries the
  proofs: \<open>clean P m\<close> says that when \<open>m\<close> ends without a problem there was none before it and its
  value satisfies \<open>P\<close>. There is one rule per construct, so the facts about a function follow its text.
\<close>

section \<open>Checks that report nothing\<close>

named_theorems grow_rules \<open>checks keep the problems found before them\<close>
named_theorems clean_rules \<open>values of checks that report nothing\<close>

definition grows :: "'a check \<Rightarrow> bool" where
  "grows m \<longleftrightarrow> (\<forall>cx. cx_diags (snd (run_state m cx)) = [] \<longrightarrow> cx_diags cx = [])"

definition clean :: "('a \<Rightarrow> bool) \<Rightarrow> 'a check \<Rightarrow> bool" where
  "clean P m \<longleftrightarrow>
     (\<forall>cx. cx_diags (snd (run_state m cx)) = [] \<longrightarrow> cx_diags cx = [] \<and> P (fst (run_state m cx)))"

lemma clean_grows: "clean P m \<Longrightarrow> grows m"
  by (simp add: clean_def grows_def)

lemma cleanD:
  assumes "clean P m" "run_state m cx = (v, cx')" "cx_diags cx' = []"
  shows "P v"
  using assms(1) [unfolded clean_def, THEN spec, of cx] assms(2,3) by simp

lemma clean_weaken: "clean P m \<Longrightarrow> (\<And>v. P v \<Longrightarrow> Q v) \<Longrightarrow> clean Q m"
  by (auto simp: clean_def)

lemma grows_bind [grow_rules]: "grows m \<Longrightarrow> (\<And>v. grows (f v)) \<Longrightarrow> grows (State_Monad.bind m f)"
  unfolding grows_def run_state_bind case_prod_beta by blast

lemma clean_bind:
  assumes "clean Q m" "\<And>v. grows (f v)" "\<And>v. Q v \<Longrightarrow> clean P (f v)"
  shows "clean P (State_Monad.bind m f)"
  unfolding clean_def
proof (intro allI impI)
  fix cx
  obtain v cx' where m: "run_state m cx = (v, cx')" by (rule prod.exhaust)
  assume "cx_diags (snd (run_state (State_Monad.bind m f) cx)) = []"
  with m have f: "cx_diags (snd (run_state (f v) cx')) = []" by simp
  with assms(2) have "cx_diags cx' = []" unfolding grows_def by blast
  with assms(1) [unfolded clean_def, THEN spec, of cx] m have start: "cx_diags cx = []" and "Q v" by simp_all
  from assms(3) [OF \<open>Q v\<close>, unfolded clean_def, THEN spec, of cx'] f have "P (fst (run_state (f v) cx'))" by simp
  with start m show "cx_diags cx = [] \<and> P (fst (run_state (State_Monad.bind m f) cx))" by simp
qed

lemma grows_ret [grow_rules]: "grows (ret v)"
  by (simp add: grows_def)

lemma clean_ret [clean_rules]: "P v \<Longrightarrow> clean P (ret v)"
  by (simp add: clean_def)

lemma clean_err [clean_rules]: "clean P (err sp key p)"
  by (simp add: clean_def err_def)

lemma grows_err [grow_rules]: "grows (err sp key p)"
  by (rule clean_grows [OF clean_err])

lemma clean_err_ret [clean_rules]: "clean P (State_Monad.bind (err sp key p) (\<lambda>_. ret v))"
  by (rule clean_bind [where Q = "\<lambda>_. False"]) (simp_all add: clean_err grows_ret)

lemma clean_err_if: "clean (\<lambda>_. \<not> c) (err_if c sp key p)"
  by (simp add: err_if_def clean_err clean_ret)

lemma clean_err_of: "clean (\<lambda>_. r = Inr ()) (err_of sp key r)"
  by (cases r) (simp_all add: err_of_def clean_err clean_ret)

lemmas grows_err_if [grow_rules] = clean_grows [OF clean_err_if]
lemmas grows_err_of [grow_rules] = clean_grows [OF clean_err_of]

lemma clean_if [clean_rules]:
  "(c \<Longrightarrow> clean P m) \<Longrightarrow> (\<not> c \<Longrightarrow> clean P m') \<Longrightarrow> clean P (if c then m else m')"
  by simp

lemma grows_if [grow_rules]: "grows m \<Longrightarrow> grows m' \<Longrightarrow> grows (if c then m else m')"
  by simp

lemma grows_let [grow_rules]: "(\<And>x. grows (f x)) \<Longrightarrow> grows (let x = v in f x)"
  by (simp add: Let_def)

lemma clean_case_option [clean_rules]:
  "(v = None \<Longrightarrow> clean P m) \<Longrightarrow> (\<And>x. v = Some x \<Longrightarrow> clean P (f x)) \<Longrightarrow>
   clean P (case v of None \<Rightarrow> m | Some x \<Rightarrow> f x)"
  by (cases v) simp_all

lemma grows_case_option [grow_rules]:
  "grows m \<Longrightarrow> (\<And>x. grows (f x)) \<Longrightarrow> grows (case v of None \<Rightarrow> m | Some x \<Rightarrow> f x)"
  by (cases v) simp_all

lemma clean_case_sum [clean_rules]:
  "(\<And>e. v = Inl e \<Longrightarrow> clean P (g e)) \<Longrightarrow> (\<And>x. v = Inr x \<Longrightarrow> clean P (f x)) \<Longrightarrow>
   clean P (case v of Inl e \<Rightarrow> g e | Inr x \<Rightarrow> f x)"
  by (cases v) simp_all

lemma grows_case_sum [grow_rules]:
  "(\<And>e. grows (g e)) \<Longrightarrow> (\<And>x. grows (f x)) \<Longrightarrow> grows (case v of Inl e \<Rightarrow> g e | Inr x \<Rightarrow> f x)"
  by (cases v) simp_all

lemma grows_case_prod [grow_rules]: "(\<And>a b. grows (f a b)) \<Longrightarrow> grows (case v of (a, b) \<Rightarrow> f a b)"
  by (cases v) simp

lemma grows_case_prod_fun [grow_rules]: "(\<And>a b. grows (f a b c)) \<Longrightarrow> grows ((case v of (a, b) \<Rightarrow> f a b) c)"
  by (cases v) simp

lemma grows_case_auto [grow_rules]:
  "grows m \<Longrightarrow> (\<And>x. grows (f x)) \<Longrightarrow> grows (case v of Auto \<Rightarrow> m | Static x \<Rightarrow> f x)"
  by (cases v) simp_all

lemma grows_for_each [grow_rules]: "(\<And>x a. grows (f x a)) \<Longrightarrow> grows (for_each f xs acc)"
  by (induction xs arbitrary: acc) (simp_all add: grow_rules)

text \<open>An invariant of a loop, over the elements already visited.\<close>

lemma clean_for_each:
  assumes "I [] acc" and "\<And>x a. grows (f x a)"
    and "\<And>ys x a. I ys a \<Longrightarrow> x \<in> set xs \<Longrightarrow> clean (I (ys @ [x])) (f x a)"
  shows "clean (I xs) (for_each f xs acc)"
proof -
  have "clean (I xs) (for_each f zs a)" if "xs = ys @ zs" "I ys a" for ys zs a
    using that
  proof (induction zs arbitrary: ys a)
    case Nil
    then show ?case by (simp add: clean_ret)
  next
    case (Cons z zs)
    have "clean (I (ys @ [z])) (f z a)" using assms(3) Cons.prems by simp
    then show ?case
      using Cons.IH [of "ys @ [z]"] Cons.prems(1) assms(2)
      by (simp add: clean_bind [where Q = "I (ys @ [z])"] grows_for_each)
  qed
  from this [of "[]" xs acc] assms(1) show ?thesis by simp
qed

lemma grows_map_check [grow_rules]: "(\<And>x. grows (f x)) \<Longrightarrow> grows (map_check f v)"
  by (auto simp: map_check_def intro!: grow_rules)

lemma clean_map_check:
  "(\<And>x. v = Some x \<Longrightarrow> clean P (f x)) \<Longrightarrow>
   clean (\<lambda>r. pred_option P r \<and> (r = None \<longleftrightarrow> v = None)) (map_check f v)"
  by (cases v) (auto simp: map_check_def clean_ret grows_ret intro!: clean_bind)

lemma clean_problems: "clean (\<lambda>n. n = 0) problems"
  by (simp add: clean_def problems_def)

lemma clean_sort_problems: "clean (\<lambda>_. True) sort_problems"
  unfolding clean_def sort_problems_def
  by simp (metis length_0_conv length_sort)

lemmas grows_problems [grow_rules] = clean_grows [OF clean_problems]
lemmas grows_sort_problems [grow_rules] = clean_grows [OF clean_sort_problems]

section \<open>Numbers and durations\<close>

lemmas in_range_numeral [simp] =
  in_range_def [of "Suc 0" _ "numeral n" for n] in_range_def [of "Suc 0" _ "Suc 0"]
  in_range_def [of "numeral m" _ "numeral n" for m n]

lemma unat_word_of_int:
  "0 \<le> v \<Longrightarrow> v < 2 ^ LENGTH('a) \<Longrightarrow> unat (word_of_int v :: 'a::len word) = nat v"
  by (simp add: unat_eq_nat_uint uint_word_of_int take_bit_int_eq_self)

lemma clean_ctx_unsigned:
  fixes dflt :: "'a::len word"
  assumes "0 \<le> lo" "hi < 2 ^ LENGTH('a)" "lo \<le> uint dflt" "uint dflt \<le> hi"
  shows "clean (\<lambda>v. lo \<le> uint v \<and> uint v \<le> hi) (ctx_int try_unsigned value dflt (lo, hi) sp key)"
proof -
  have "try_unsigned v = Some (word_of_int v :: 'a word)" "uint (word_of_int v :: 'a word) = v"
    if "in_range lo hi v" for v
    using assms(1,2) that by (simp_all add: in_range_def try_unsigned_def uint_word_of_int take_bit_int_eq_self)
  then show ?thesis
    unfolding ctx_int_def fst_conv snd_conv
    by (intro clean_rules) (simp_all add: assms in_range_def)
qed

lemma clean_ctx_int:
  fixes dflt :: "'a::len word"
  assumes "0 \<le> lo" "lo \<le> hi" "hi < 2 ^ LENGTH('a)" "in_range (nat lo) (nat hi) (unat dflt)"
  shows "clean (\<lambda>v. in_range (nat lo) (nat hi) (unat v)) (ctx_int try_unsigned value dflt (lo, hi) sp key)"
proof -
  have range: "in_range (nat lo) (nat hi) (unat w) \<longleftrightarrow> lo \<le> uint w \<and> uint w \<le> hi" for w :: "'a word"
    using assms(1,2) by (simp add: in_range_def nat_le_iff le_nat_iff)
  show ?thesis
    using assms unfolding range by (intro clean_ctx_unsigned) auto
qed

lemma clean_ctx_duration: "clean (\<lambda>_. True) (ctx_duration value dflt sp key)"
  by (auto simp: ctx_duration_def intro!: clean_rules)

lemma clean_ctx_duration_in:
  "in_range lo hi dflt \<Longrightarrow> clean (in_range lo hi) (ctx_duration_in value dflt (lo, hi) sp key)"
  unfolding ctx_duration_in_def
  by (rule clean_bind [OF clean_ctx_duration]) (auto intro!: clean_rules grow_rules)


lemma clean_ctx_signed:
  "- 149 \<le> sint (dflt :: 32 word) \<and> sint dflt \<le> 400 \<Longrightarrow>
   clean (\<lambda>v. - 149 \<le> sint v \<and> sint v \<le> 400) (ctx_int try_signed value dflt (- 149, 400) sp key)"
proof -
  assume dflt: "- 149 \<le> sint dflt \<and> sint dflt \<le> 400"
  have "sint (word_of_int v :: 32 word) = v" "try_signed v = Some (word_of_int v :: 32 word)"
    if "in_range (- 149) 400 v" for v
    using that by (simp_all add: in_range_def try_signed_def sint_sbintrunc' signed_take_bit_int_eq_self)
  with dflt show ?thesis
    unfolding ctx_int_def fst_conv snd_conv
    by (intro clean_rules) (simp_all add: in_range_def)
qed

lemmas check_grows [grow_rules] =
  clean_grows [OF clean_ctx_duration]

lemma grows_ctx_int [grow_rules]: "grows (ctx_int try_from value dflt rng sp key)"
  unfolding ctx_int_def by (intro grow_rules)

lemma grows_ctx_duration_in [grow_rules]: "grows (ctx_duration_in value dflt rng sp key)"
  unfolding ctx_duration_in_def by (intro grow_rules)

text \<open>A report that depends on an optional value.\<close>

lemma clean_auto_err_if:
  "clean (\<lambda>_. \<forall>a. v = Static a \<longrightarrow> \<not> c a) (case v of Auto \<Rightarrow> ret () | Static a \<Rightarrow> err_if (c a) sp (key a) (p a))"
  by (cases v) (simp_all add: err_if_def clean_err clean_ret)

lemma clean_option_err_if:
  "clean (\<lambda>_. pred_option (\<lambda>x. \<not> c x) v) (case v of None \<Rightarrow> ret () | Some x \<Rightarrow> err_if (c x) sp (key x) (p x))"
  by (cases v) (simp_all add: err_if_def clean_err clean_ret)

lemma clean_option_err_of:
  "clean (\<lambda>_. pred_option (\<lambda>x. r x = Inr ()) v) (case v of None \<Rightarrow> ret () | Some x \<Rightarrow> err_of sp (key x) (r x))"
  using clean_err_of by (cases v) (fastforce simp: clean_ret)+

named_theorems clean_steps \<open>one check and what follows it\<close>

lemmas basic_steps [clean_steps] =
  clean_bind [OF clean_err_if] clean_bind [OF clean_err_of] clean_bind [OF clean_ctx_duration]
  clean_bind [OF clean_ctx_duration_in] clean_bind [OF clean_ctx_int] clean_bind [OF clean_map_check]
  clean_bind [OF clean_auto_err_if] clean_bind [OF clean_option_err_if] clean_bind [OF clean_option_err_of]
  clean_bind [OF clean_problems] clean_bind [OF clean_sort_problems] clean_bind [OF clean_ctx_signed]

section \<open>Routing, firewall and paths\<close>

definition routing_ok :: "Config.routing \<Rightarrow> bool" where
  "routing_ok r \<longleftrightarrow>
     routing_wf r \<and> 5 \<le> unat (route_protocol r) \<and> distinct (discovery_tables r) \<and>
     0 \<notin> set (discovery_tables r) \<and> 255 \<notin> set (discovery_tables r) \<and>
     in_range (from_secs 10) (from_secs 3600) (reconcile_interval r)"

definition firewall_ok :: "Config.firewall \<Rightarrow> bool" where
  "firewall_ok f \<longleftrightarrow> - 149 \<le> sint (nat_priority f) \<and> sint (nat_priority f) \<le> 400 \<and> is_absolute (nft_path f)"

definition path_ok :: "family \<Rightarrow> path_settings \<Rightarrow> bool" where
  "path_ok f p \<longleftrightarrow>
     (\<forall>a. ps_source p = Static a \<longrightarrow> family_of a = f \<and> is_usable_source a) \<and>
     (\<forall>a. ps_gateway p = Static a \<longrightarrow> family_of a = f) \<and>
     (gateway_onlink p \<longrightarrow> ps_gateway p \<noteq> Auto) \<and> (ps_nat p = Snat \<longrightarrow> ps_source p \<noteq> Auto)"

lemma clean_firewall: "clean firewall_ok (firewall raw)"
  unfolding firewall_def Let_def
  by (intro clean_rules clean_steps grow_rules) (simp_all add: firewall_ok_def)

lemma clean_path_addr: "clean (\<lambda>v. \<forall>a. v = Static a \<longrightarrow> family_of a = f) (path_addr sp f key v what)"
  unfolding path_addr_def by (intro clean_rules) simp_all

lemma clean_path_nat: "clean (\<lambda>n. True) (path_nat sp f key v)"
  unfolding path_nat_def by (cases v; cases f) (simp_all add: clean_rules)

lemmas path_grows [grow_rules] = clean_grows [OF clean_path_addr] clean_grows [OF clean_path_nat]

lemma clean_path: "clean (path_ok f) (path raw f key)"
  unfolding path_def Let_def
  by (intro clean_rules clean_steps grow_rules clean_bind [OF clean_path_addr] clean_bind [OF clean_path_nat])
    (auto simp: path_ok_def)

lemma own_tables_unat:
  "unat base \<le> 4294967294 - 191 \<Longrightarrow> own_tables base t \<longleftrightarrow> unat base \<le> unat t \<and> unat t \<le> unat base + 191"
  by (simp add: own_tables_def in_range_def word_le_iff_unat unat_add_no_overflow)

lemma grows_table_id [grow_rules]: "grows (table_id sp t)"
  unfolding table_id_def by (cases t) (auto intro!: grow_rules)

lemma clean_table_id: "clean (pred_option (\<lambda>i. i \<noteq> 0 \<and> i \<noteq> 255)) (table_id sp t)"
  unfolding table_id_def by (cases t) (auto intro!: clean_rules)

lemma grows_discovery_table [grow_rules]: "grows (discovery_table sp base t tables)"
  unfolding discovery_table_def by (intro grow_rules)

definition tables_ok :: "u32 \<Rightarrow> u32 list \<Rightarrow> bool" where
  "tables_ok base ts \<longleftrightarrow> distinct ts \<and> 0 \<notin> set ts \<and> 255 \<notin> set ts \<and> (\<forall>t\<in>set ts. \<not> own_tables base t)"

lemma clean_discovery_tables:
  "clean (tables_ok base) (for_each (discovery_table sp base) ts [])"
proof (rule clean_for_each [where I = "\<lambda>_. tables_ok base"])
  fix ys :: "table_ref list" and t tables
  assume "tables_ok base tables"
  then show "clean (tables_ok base) (discovery_table sp base t tables)"
    unfolding discovery_table_def
    by (intro clean_bind [OF clean_table_id] clean_rules grow_rules) (auto simp: tables_ok_def)
qed (simp_all add: tables_ok_def grow_rules)

lemma fwm_default_ok: "fwm_ok fwm_default"
  by (simp add: fwm_ok_def fwm_default_def)

lemma clean_mask_of: "clean fwm_ok (mask_of sp v)"
  unfolding mask_of_def by (intro clean_rules) (auto simp: fwm_default_ok bind_eq_Some_conv dest: fw_mask_new_mask(1))

lemmas routing_grows [grow_rules] = clean_grows [OF clean_mask_of]

lemma routing_okI:
  assumes "in_range 1 4294967103 (unat base)" "\<not> (own_tables base 253 \<or> own_tables base 255)"
    "in_range 1 32066 (unat prio)" "in_range 5 255 (unat proto)" "fwm_ok m" "tables_ok base ts"
    "in_range (from_secs 10) (from_secs 3600) d"
  shows "routing_ok \<lparr>table_base = base, rule_priority_base = prio, route_protocol = proto, fwmark_mask = m,
    all_down = p, discovery_tables = ts, manage_sysctls = b, reconcile_interval = d, shutdown_action = a\<rparr>"
proof -
  have "\<not> own_tables base 254"
    using assms(1,2) by (auto simp: own_tables_unat in_range_def)
  with assms(5-7) assms(1,3,4) [unfolded in_range_def] show ?thesis
    by (simp add: routing_ok_def routing_wf_def layout_bounds_def tables_ok_def flip: own_tables_def)
qed

lemma clean_routing: "clean routing_ok (routing raw)"
  unfolding routing_def Let_def
  by (intro clean_rules clean_steps grow_rules clean_bind [OF clean_mask_of] clean_bind [OF clean_discovery_tables])
    (simp_all add: routing_okI from_secs_def)

lemmas section_grows [grow_rules] =
  clean_grows [OF clean_routing] clean_grows [OF clean_firewall] clean_grows [OF clean_path]

section \<open>Health settings\<close>

definition target_ok :: "family \<Rightarrow> target \<Rightarrow> bool" where
  "target_ok f t \<longleftrightarrow>
     family_of (target_addr t) = f \<and> is_global_unicast (target_addr t) \<and>
     (case t of TargetTcp sa \<Rightarrow> sa_port sa \<noteq> 0 | TargetIcmp _ \<Rightarrow> True)"

definition targets_ok :: "family \<Rightarrow> target list \<Rightarrow> bool" where
  "targets_ok f ts \<longleftrightarrow> distinct ts \<and> (\<forall>t\<in>set ts. target_ok f t)"

definition loss_ok :: "f64 \<Rightarrow> bool" where
  "loss_ok l \<longleftrightarrow> f64_le 0 l \<and> f64_le l f64_one"

definition health_ok :: "family list \<Rightarrow> Config.health \<Rightarrow> bool" where
  "health_ok families h \<longleftrightarrow>
     in_range (from_secs 1) (from_secs 300) (h_interval h) \<and>
     0 < h_timeout h \<and> in_range 1 5 (unat (h_attempts h)) \<and>
     h_timeout h * unat (h_attempts h) < h_interval h \<and>
     in_range 1 20 (unat (h_fall h)) \<and> in_range 1 20 (unat (h_rise h)) \<and>
     targets_ok V4 (targets_v4 h) \<and> targets_ok V6 (targets_v6 h) \<and>
     1 \<le> unat (required_reachable h) \<and>
     (\<forall>f\<in>set families. health_targets h f \<noteq> [] \<and>
        unat (required_reachable h) \<le> distinct_addresses (health_targets h f)) \<and>
     pred_option loss_ok (max_loss (h_quality h)) \<and>
     in_range 2 100 (unat (quality_window h)) \<and> in_range 1 10000 (unat (quality_min_samples h)) \<and>
     (quality_enabled (h_quality h) \<longrightarrow>
        (\<forall>f\<in>set families.
           unat (quality_min_samples h) \<le> distinct_addresses (health_targets h f) * unat (quality_window h)))"

lemma parse_target_port: "parse_target text = Inr (TargetTcp sa) \<Longrightarrow> sa_port sa \<noteq> 0"
  by (auto simp: parse_target_def split: option.splits if_splits)

lemma grows_read_target [grow_rules]: "grows (read_target sp key f text out)"
  unfolding read_target_def by (intro grow_rules)

lemma clean_read_target:
  assumes "targets_ok f out"
  shows "clean (targets_ok f) (read_target sp key f text out)"
  using assms unfolding read_target_def
  by (intro clean_rules)
    (auto simp: targets_ok_def target_ok_def dest: parse_target_port split: target.splits)

lemma grows_read_targets [grow_rules]: "grows (read_targets h families sp key f)"
  unfolding read_targets_def by (intro grow_rules)

lemma clean_read_targets:
  "clean (\<lambda>ts. targets_ok f ts \<and> (f \<in> set families \<longrightarrow> ts \<noteq> [])) (read_targets h families sp key f)"
proof -
  have loop: "clean (targets_ok f) (for_each (read_target sp k f) (target_texts h f) [])" for k
    by (rule clean_for_each [where I = "\<lambda>_. targets_ok f"])
      (simp_all add: clean_read_target grow_rules targets_ok_def [of f "[]"])
  show ?thesis
    unfolding read_targets_def Let_def
    by (intro clean_bind [OF loop] grow_rules clean_steps clean_rules) auto
qed

lemma clean_required_step: "clean (\<lambda>_. \<not> (0 < n f \<and> n f < unat required)) (required_step sp key required n f u)"
  unfolding required_step_def by (rule clean_err_if)

lemmas required_grows [grow_rules] = clean_grows [OF clean_required_step]

lemma clean_required:
  "clean (\<lambda>_. \<forall>f\<in>set fs. 0 < n f \<longrightarrow> unat required \<le> n f) (for_each (required_step sp key required n) fs ())"
proof (rule clean_for_each [where I = "\<lambda>fs _. \<forall>f\<in>set fs. 0 < n f \<longrightarrow> unat required \<le> n f"])
  fix ys f u
  assume "\<forall>f\<in>set ys. 0 < n f \<longrightarrow> unat required \<le> n f"
  then show "clean (\<lambda>_. \<forall>f\<in>set (ys @ [f]). 0 < n f \<longrightarrow> unat required \<le> n f) (required_step sp key required n f u)"
    by (intro clean_weaken [OF clean_required_step]) auto
qed (simp_all add: required_grows)

lemma clean_quality_of: "clean (\<lambda>q. pred_option loss_ok (max_loss q)) (quality_of sp key q)"
  unfolding quality_of_def
  by (intro clean_bind [OF clean_map_check [OF clean_ctx_duration]] clean_rules clean_steps grow_rules)
    (simp_all add: loss_ok_def [abs_def])

lemmas quality_grows [grow_rules] = clean_grows [OF clean_quality_of]

lemma clean_min_targets:
  "clean (\<lambda>_. c \<longrightarrow> (\<forall>f\<in>set fs. k \<le> n f * w))
     (if c then (case min_targets fs n of None \<Rightarrow> ret () | Some m \<Rightarrow> err_if (m * w < k) sp key (p m)) else ret ())"
proof (intro clean_if)
  assume c
  show "clean (\<lambda>_. c \<longrightarrow> (\<forall>f\<in>set fs. k \<le> n f * w))
     (case min_targets fs n of None \<Rightarrow> ret () | Some m \<Rightarrow> err_if (m * w < k) sp key (p m))"
  proof (rule clean_weaken [OF clean_option_err_if])
    assume "pred_option (\<lambda>m. \<not> m * w < k) (min_targets fs n)"
    then have "k \<le> Min (n ` set fs) * w" if "f \<in> set fs" for f
      using that by (auto simp: min_targets_def split: if_splits)
    moreover have "Min (n ` set fs) * w \<le> n f * w" if "f \<in> set fs" for f
      using that by (simp add: Min_le)
    ultimately show "c \<longrightarrow> (\<forall>f\<in>set fs. k \<le> n f * w)"
      by (meson order_trans)
  qed
qed (simp add: clean_ret)

lemma distinct_addresses_pos: "0 < distinct_addresses ts \<longleftrightarrow> ts \<noteq> []"
  by (auto simp: distinct_addresses_def card_gt_0_iff)

lemma targets_of_health:
  "targets_v4 h = t4 \<Longrightarrow> targets_v6 h = t6 \<Longrightarrow> targets_of t4 t6 f = distinct_addresses (health_targets h f)"
  by (cases f) (auto simp: targets_of_def)

lemma health_okI:
  assumes "in_range (from_secs 1) (from_secs 300) interval" "timeout \<noteq> 0" "in_range 1 5 (unat attempts)"
    "\<not> interval \<le> timeout * unat attempts" "in_range 1 20 (unat fall)" "in_range 1 20 (unat rise)"
    "targets_ok V4 t4 \<and> (V4 \<in> set families \<longrightarrow> t4 \<noteq> [])" "targets_ok V6 t6 \<and> (V6 \<in> set families \<longrightarrow> t6 \<noteq> [])"
    "in_range 1 255 (unat required)"
    "\<forall>f\<in>set families. 0 < targets_of t4 t6 f \<longrightarrow> unat required \<le> targets_of t4 t6 f"
    "pred_option loss_ok (max_loss quality)" "in_range 2 100 (unat window)" "in_range 1 10000 (unat samples)"
    "quality_enabled quality \<longrightarrow> (\<forall>f\<in>set families. unat samples \<le> targets_of t4 t6 f * unat window)"
  shows "health_ok families \<lparr>h_interval = interval, h_timeout = timeout, h_attempts = attempts,
    required_reachable = required, h_fall = fall, h_rise = rise, targets_v4 = t4, targets_v6 = t6,
    h_quality = quality, quality_window = window, quality_min_samples = samples\<rparr>"
proof -
  define h where "h = \<lparr>h_interval = interval, h_timeout = timeout, h_attempts = attempts,
    required_reachable = required, h_fall = fall, h_rise = rise, targets_v4 = t4, targets_v6 = t6,
    h_quality = quality, quality_window = window, quality_min_samples = samples\<rparr>"
  have targets: "targets_of t4 t6 f = distinct_addresses (health_targets h f)" for f
    by (rule targets_of_health) (simp_all add: h_def)
  have "health_targets h f \<noteq> []" if "f \<in> set families" for f
    using assms(7,8) that by (cases f) (simp_all add: h_def)
  moreover have "1 \<le> unat required" using assms(9) by (simp add: in_range_def)
  ultimately show ?thesis
    using assms unfolding targets h_def [symmetric] health_ok_def
    by (simp add: h_def distinct_addresses_pos)
qed

lemma clean_health_rest:
  assumes "in_range (from_secs 1) (from_secs 300) interval" "timeout \<noteq> 0" "in_range 1 5 (unat attempts)"
    "\<not> interval \<le> timeout * unat attempts"
  shows "clean (health_ok families) (health_rest h families sp key interval timeout attempts)"
  unfolding health_rest_def
  by (intro clean_rules clean_steps grow_rules clean_bind [OF clean_read_targets] clean_bind [OF clean_required]
      clean_bind [OF clean_quality_of] clean_bind [OF clean_min_targets])
    (use assms in \<open>simp_all add: health_okI\<close>)

lemma grows_health_rest [grow_rules]: "grows (health_rest h families sp key interval timeout attempts)"
  unfolding health_rest_def by (intro grow_rules)

lemma clean_health: "clean (pred_option (health_ok families)) (health h families sp key)"
  unfolding health_def duration_mul_def
  by (intro clean_rules clean_steps grow_rules clean_bind [OF clean_health_rest])
    (auto simp: from_secs_def split: if_splits)

lemmas health_grows [grow_rules] = clean_grows [OF clean_health]

section \<open>Policies\<close>

text \<open>Dropping the host bits of a prefix keeps its family.\<close>

definition nets_ok :: "net_lib \<Rightarrow> bool" where
  "nets_ok nets \<longleftrightarrow> (\<forall>n. family_of (net_addr (nl_trunc nets n)) = family_of (net_addr n))"

definition ports_ok :: "u16 \<times> u16 \<Rightarrow> bool" where
  "ports_ok r \<longleftrightarrow> 1 \<le> unat (fst r) \<and> unat (fst r) \<le> unat (snd r)"

definition serves :: "uplink list \<Rightarrow> uplink_id \<Rightarrow> family \<Rightarrow> bool" where
  "serves uplinks i f \<longleftrightarrow> (\<exists>u\<in>set uplinks. u_id u = i \<and> uplink_path u f \<noteq> None)"

definition policy_ok :: "uplink list \<Rightarrow> string list \<Rightarrow> Config.policy \<Rightarrow> bool" where
  "policy_ok uplinks downlinks p \<longleftrightarrow>
     serves uplinks (p_uplink p) (p_family p) \<and>
     pred_option (\<lambda>i. i \<in> set downlinks) (p_input_interface p) \<and>
     pred_option (\<lambda>n. family_of (net_addr n) = p_family p) (p_source p) \<and>
     pred_option (\<lambda>n. family_of (net_addr n) = p_family p) (p_destination p) \<and>
     (p_protocol p, p_family p) \<notin> {(Some Icmp, V6), (Some Icmpv6, V4)} \<and>
     pred_option (\<lambda>r. ports_ok r \<and> p_protocol p \<in> {Some Tcp, Some Udp, Some Sctp}) (p_destination_port p)"

lemma clean_policy_uplink:
  "clean (\<lambda>i. \<exists>j. i = Some j \<and> serves uplinks j f) (policy_uplink sp key f name uplinks)"
  unfolding policy_uplink_def
  by (intro clean_rules clean_steps grow_rules) (auto simp: serves_def dest: find_Some_iff_mem)

lemma clean_policy_prefix:
  "nets_ok nets \<Longrightarrow>
   clean (pred_option (\<lambda>n. family_of (net_addr n) = f)) (policy_prefix nets sp key f v what)"
  unfolding policy_prefix_def by (intro clean_rules) (auto simp: nets_ok_def)

lemma grows_policy_prefix [grow_rules]: "grows (policy_prefix nets sp key f v what)"
  unfolding policy_prefix_def by (intro grow_rules)

lemma clean_policy_protocol:
  "clean (\<lambda>_. (p, f) \<notin> {(Some Icmp, V6), (Some Icmpv6, V4)}) (policy_protocol sp key f p)"
  unfolding policy_protocol_def
  by (auto intro: clean_rules split: option.split ip_protocol.split family.split)

lemma unat_of_port: "in_range 1 65535 a \<Longrightarrow> unat (word_of_int a :: u16) = nat a"
  by (simp add: in_range_def unat_word_of_int)

lemma clean_policy_port:
  "clean (pred_option (\<lambda>r. ports_ok r \<and> p \<in> {Some Tcp, Some Udp, Some Sctp})) (policy_port sp key p v)"
  unfolding policy_port_def
  by (auto intro!: clean_rules simp: ports_ok_def unat_of_port split: option.split prod.split)
    (simp_all add: in_range_def)

lemmas policy_grows [grow_rules] =
  clean_grows [OF clean_policy_uplink] clean_grows [OF clean_policy_protocol] clean_grows [OF clean_policy_port]

lemma clean_policy:
  assumes "nets_ok nets"
  shows "clean (\<lambda>p. p \<noteq> None \<and> pred_option (policy_ok uplinks downlinks) p) (policy nets raw i uplinks downlinks)"
  unfolding policy_def Let_def
  by (intro clean_rules clean_steps grow_rules clean_bind [OF clean_policy_uplink]
      clean_bind [OF clean_policy_prefix] clean_bind [OF clean_policy_protocol] clean_bind [OF clean_policy_port])
    (use assms in \<open>auto simp: policy_ok_def\<close>)

lemma grows_policy [grow_rules]: "grows (policy nets raw i uplinks downlinks)"
  unfolding policy_def by (intro grow_rules)

lemma grows_policy_step [grow_rules]: "grows (policy_step nets uplinks downlinks x ps)"
  unfolding policy_step_def by (intro grow_rules)

lemma clean_policies:
  assumes "nets_ok nets"
  shows "clean (\<lambda>ps. length ps = length xs \<and> list_all (policy_ok uplinks downlinks) ps)
    (for_each (policy_step nets uplinks downlinks) xs [])"
proof (rule clean_for_each [where I = "\<lambda>ys ps. length ps = length ys \<and> list_all (policy_ok uplinks downlinks) ps"])
  fix ys :: "(nat \<times> raw_policy spanned) list" and x ps
  assume "length ps = length ys \<and> list_all (policy_ok uplinks downlinks) ps"
  then show "clean (\<lambda>ps. length ps = length (ys @ [x]) \<and> list_all (policy_ok uplinks downlinks) ps)
      (policy_step nets uplinks downlinks x ps)"
    unfolding policy_step_def
    by (intro clean_bind [OF clean_policy] clean_rules grow_rules) (use assms in auto)
qed (simp_all add: grow_rules)

lemma grows_policy_name_step [grow_rules]: "grows (policy_name_step x names)"
  unfolding policy_name_step_def by (intro grow_rules)

lemma clean_policy_names:
  "clean (\<lambda>_. distinct (map p_name ps)) (for_each policy_name_step (enumerate 0 ps) {})"
proof -
  have "clean (\<lambda>names. names = (p_name \<circ> snd) ` set (enumerate 0 ps) \<and> distinct (map (p_name \<circ> snd) (enumerate 0 ps)))
      (for_each policy_name_step (enumerate 0 ps) {})"
  proof (rule clean_for_each [where I = "\<lambda>xs names. names = (p_name \<circ> snd) ` set xs \<and> distinct (map (p_name \<circ> snd) xs)"])
    fix ys :: "(nat \<times> Config.policy) list" and x names
    assume "names = (p_name \<circ> snd) ` set ys \<and> distinct (map (p_name \<circ> snd) ys)"
    then show "clean (\<lambda>names. names = (p_name \<circ> snd) ` set (ys @ [x]) \<and> distinct (map (p_name \<circ> snd) (ys @ [x])))
        (policy_name_step x names)"
      unfolding policy_name_step_def
      by (intro clean_steps clean_rules grow_rules) auto
  qed (simp_all add: grow_rules)
  then show ?thesis
    by (rule clean_weaken) (metis map_map map_snd_enumerate)
qed

section \<open>Notifications and interfaces\<close>

definition events_ok :: "string list \<Rightarrow> bool" where
  "events_ok evs \<longleftrightarrow> evs \<noteq> [] \<and> set evs \<subseteq> set EVENT_TYPES"

definition email_ok :: "email \<Rightarrow> bool" where
  "email_ok e \<longleftrightarrow>
     in_range 1 10000 (unat (e_max_per_hour e)) \<and> check_mailbox (e_from e) = Inr () \<and> e_to e \<noteq> [] \<and>
     (\<forall>t\<in>set (e_to e). check_mailbox t = Inr ()) \<and> is_absolute (e_sendmail e) \<and>
     events_ok (e_events e) \<and> distinct (e_events e)"

definition hook_ok :: "hook \<Rightarrow> bool" where
  "hook_ok h \<longleftrightarrow>
     hk_command h \<noteq> [] \<and> is_absolute (hd (hk_command h)) \<and> pred_option events_ok (hk_events h) \<and> 0 < hk_timeout h"

definition notify_ok :: "Config.notify \<Rightarrow> bool" where
  "notify_ok n \<longleftrightarrow>
     pred_option email_ok (n_email n) \<and> list_all hook_ok (n_hooks n) \<and> check_account_name (n_hook_user n) = Inr ()"

definition api_ok :: "Config.api \<Rightarrow> bool" where
  "api_ok a \<longleftrightarrow>
     check_socket_path (a_socket a) = Inr () \<and>
     pred_option (\<lambda>p. check_socket_path p = Inr () \<and> path_components p \<noteq> path_components (a_socket a))
       (a_status_socket a) \<and>
     check_account_name (a_group a) = Inr () \<and>
     pred_option (\<lambda>g. check_account_name g = Inr ()) (a_status_group a)"

lemma clean_check_events: "clean (\<lambda>_. events_ok evs) (check_events evs sp key)"
proof -
  have "clean (\<lambda>_. set evs \<subseteq> set EVENT_TYPES)
      (for_each (\<lambda>ev u. err_if (ev \<notin> set EVENT_TYPES) sp key (UnknownEvent ev)) evs ())"
  proof (rule clean_for_each [where I = "\<lambda>evs _. set evs \<subseteq> set EVENT_TYPES"])
    fix ys ev and u :: unit
    assume "set ys \<subseteq> set EVENT_TYPES"
    then show "clean (\<lambda>_. set (ys @ [ev]) \<subseteq> set EVENT_TYPES) (err_if (ev \<notin> set EVENT_TYPES) sp key (UnknownEvent ev))"
      by (intro clean_weaken [OF clean_err_if]) simp
  qed (simp_all add: grow_rules)
  then show ?thesis
    unfolding check_events_def
    by (intro clean_steps grow_rules) (auto simp: events_ok_def elim: clean_weaken)
qed

lemmas check_events_grows [grow_rules] = clean_grows [OF clean_check_events]

lemma fold_unique:
  assumes "distinct acc"
  shows "set (fold (\<lambda>x u. if x \<in> set u then u else u @ [x]) xs acc) = set acc \<union> set xs \<and>
    distinct (fold (\<lambda>x u. if x \<in> set u then u else u @ [x]) xs acc)"
  using assms
proof (induction xs arbitrary: acc)
  case Nil
  then show ?case by simp
next
  case (Cons x xs)
  then show ?case
    using Cons.IH [of "if x \<in> set acc then acc else acc @ [x]"] by auto
qed

lemma unique_events: "set (unique_events evs) = set evs" "distinct (unique_events evs)"
  using fold_unique [of "[]" evs] by (simp_all add: unique_events_def)

lemma clean_mailboxes:
  "clean (\<lambda>_. \<forall>t\<in>set ts. check_mailbox t = Inr ())
     (for_each (\<lambda>(i, to) u. err_of sp (''notify.email.to['' @ show_nat i @ '']'') (check_mailbox to)) (enumerate n ts) ())"
proof (induction ts arbitrary: n)
  case Nil
  then show ?case by (simp add: clean_ret)
next
  case (Cons t ts)
  from Cons.IH [of "Suc n"] show ?case
    by (auto intro!: clean_steps grow_rules elim: clean_weaken)
qed

lemma clean_email_events:
  "clean (\<lambda>evs. events_ok evs \<and> distinct evs)
     (case v of Some events \<Rightarrow> do { check_events events sp key; ret (unique_events events) }
      | None \<Rightarrow> ret DEFAULT_EMAIL_EVENTS)"
proof -
  have "events_ok DEFAULT_EMAIL_EVENTS" "distinct DEFAULT_EMAIL_EVENTS"
    by (simp_all add: events_ok_def DEFAULT_EMAIL_EVENTS_def EVENT_TYPES_def)
  then show ?thesis
    by (intro clean_rules clean_bind [OF clean_check_events] grow_rules)
      (auto simp: events_ok_def unique_events simp flip: set_empty)
qed

lemma clean_email_of: "clean email_ok (email_of raw)"
  unfolding email_of_def Let_def
  by (intro clean_rules clean_steps grow_rules clean_bind [OF clean_mailboxes] clean_bind [OF clean_email_events])
    (simp_all add: email_ok_def)

lemma clean_hook_events:
  "clean (\<lambda>_. pred_option events_ok v) (case v of None \<Rightarrow> ret () | Some events \<Rightarrow> check_events events sp key)"
  using clean_check_events by (cases v) (auto simp: clean_ret)

lemma clean_hook_of: "clean hook_ok (hook_of i raw)"
  unfolding hook_of_def Let_def
  by (intro clean_rules clean_steps grow_rules clean_bind [OF clean_hook_events]) (simp_all add: hook_ok_def)

lemmas notify_grows [grow_rules] = clean_grows [OF clean_email_of] clean_grows [OF clean_hook_of]

lemma clean_hooks:
  "clean (list_all hook_ok) (for_each (\<lambda>(i, h) hooks. do { x \<leftarrow> hook_of i h; ret (hooks @ [x]) }) xs [])"
  by (rule clean_for_each [where I = "\<lambda>_. list_all hook_ok"])
    (auto intro!: grow_rules clean_bind [OF clean_hook_of] clean_rules)

lemma clean_notify: "clean notify_ok (notify raw)"
proof -
  have "check_account_name ''nobody'' = Inr ()"
    by (simp add: check_account_name_def is_ascii_alphanumeric_def char_in_def in_range_def)
  then show ?thesis
    unfolding notify_def Let_def
    by (cases raw)
      (auto simp: notify_ok_def intro!: clean_rules clean_bind [OF clean_map_check [OF clean_email_of]]
        clean_steps grow_rules clean_bind [OF clean_hooks])
qed

lemma clean_status_socket:
  "clean (\<lambda>_. pred_option (\<lambda>p. check_socket_path p = Inr () \<and> path_components p \<noteq> path_components s) v)
     (case v of
        None \<Rightarrow> ret ()
      | Some p \<Rightarrow>
          (case check_socket_path p of
             Inl m \<Rightarrow> err sp key m
           | Inr _ \<Rightarrow> err_if (path_components p = path_components s) sp key SameSockets))"
  by (cases v) (auto intro!: clean_rules intro: clean_weaken [OF clean_err_if])

lemma clean_api: "clean api_ok (api raw)"
  unfolding api_def Let_def
  by (intro clean_bind [OF clean_status_socket] clean_rules clean_steps grow_rules) (simp_all add: api_ok_def)

lemma clean_metrics_listen: "clean (\<lambda>_. True) (metrics_listen raw)"
  unfolding metrics_listen_def by (auto intro!: clean_rules split: prod.split)

lemma clean_state_dir: "clean (\<lambda>p. is_absolute p \<and> ParentDir \<notin> set (path_components p)) (state_dir raw)"
  unfolding state_dir_def
  by (auto simp: is_absolute_def path_components_def path_body_def component_of_def
      intro!: clean_bind [OF clean_err_if] clean_rules grow_rules split: prod.split)

lemmas final_grows [grow_rules] =
  clean_grows [OF clean_notify] clean_grows [OF clean_api] clean_grows [OF clean_metrics_listen]
  clean_grows [OF clean_state_dir]

section \<open>Downlinks and uplinks\<close>

definition interface_ok :: "string \<Rightarrow> bool" where
  "interface_ok n \<longleftrightarrow> check_interface_name n = Inr ()"

definition path_static :: "path_settings option \<Rightarrow> ip_addr list" where
  "path_static p = (case map_option ps_source p of Some (Static a) \<Rightarrow> [a] | _ \<Rightarrow> [])"

definition uplink_sources :: "uplink \<Rightarrow> ip_addr list" where
  "uplink_sources u = path_static (u_ipv4 u) @ path_static (u_ipv6 u)"

definition uplink_ok :: "uplink \<Rightarrow> bool" where
  "uplink_ok u \<longleftrightarrow>
     valid_id (u_id u) \<and> valid_uplink_name (u_name u) \<and> interface_ok (u_interface u) \<and>
     pred_option (\<lambda>p. in_range 1 1000 (unat p)) (u_priority u) \<and> in_range 1 256 (unat (u_weight u)) \<and>
     uplink_families u \<noteq> [] \<and> pred_option (path_ok V4) (u_ipv4 u) \<and> pred_option (path_ok V6) (u_ipv6 u) \<and>
     health_ok (uplink_families u) (u_health u)"

definition downlinks_ok :: "string set \<times> string list \<Rightarrow> bool" where
  "downlinks_ok acc \<longleftrightarrow> fst acc = set (snd acc) \<and> distinct (snd acc) \<and> list_all interface_ok (snd acc)"

text \<open>The invariant of the loop over the uplinks.\<close>

definition uplinks_ok :: "string list \<Rightarrow> uplink_acc \<Rightarrow> bool" where
  "uplinks_ok downlinks acc \<longleftrightarrow>
     ua_interfaces acc = set downlinks \<union> u_interface ` set (ua_uplinks acc) \<and>
     list_all uplink_ok (ua_uplinks acc) \<and>
     distinct (map u_id (ua_uplinks acc)) \<and> distinct (map u_name (ua_uplinks acc)) \<and>
     distinct (map u_interface (ua_uplinks acc)) \<and> set downlinks \<inter> u_interface ` set (ua_uplinks acc) = {} \<and>
     map fst (ua_static_sources acc) = concat (map uplink_sources (ua_uplinks acc)) \<and>
     distinct (map fst (ua_static_sources acc))"

lemma grows_downlink_step [grow_rules]: "grows (downlink_step d acc)"
  unfolding downlink_step_def by (intro grow_rules)

lemma clean_downlinks:
  "clean (\<lambda>acc. downlinks_ok acc \<and> length (snd acc) = length xs) (for_each downlink_step xs ({}, []))"
proof (rule clean_for_each [where I = "\<lambda>ys acc. downlinks_ok acc \<and> length (snd acc) = length ys"])
  fix ys :: "(nat \<times> raw_downlink spanned) list" and x acc
  assume "downlinks_ok acc \<and> length (snd acc) = length ys"
  then show "clean (\<lambda>acc. downlinks_ok acc \<and> length (snd acc) = length (ys @ [x])) (downlink_step x acc)"
    unfolding downlink_step_def Let_def
    by (intro clean_rules clean_steps grow_rules) (auto simp: downlinks_ok_def interface_ok_def)
qed (simp_all add: downlinks_ok_def grow_rules)

lemma grows_uplink_id_of [grow_rules]: "grows (uplink_id_of sp key n us)"
  unfolding uplink_id_of_def by (intro grow_rules)

lemma clean_uplink_id_of: "clean (\<lambda>i. valid_id i \<and> i \<notin> u_id ` set us) (uplink_id_of sp key n us)"
proof -
  have new: "clean (\<lambda>i. valid_id i \<and> in_range 1 63 n)
      (case Option.bind (try_unsigned n) uplink_id_new of
         Some i \<Rightarrow> ret i
       | None \<Rightarrow> do { err (Some sp) k p; ret (UplinkId 1) })" for k p
  proof (intro clean_rules)
    fix i
    assume "Option.bind (try_unsigned n) uplink_id_new = Some i"
    then obtain w where w: "try_unsigned n = Some (w :: u8)" "uplink_id_new w = Some i"
      by (auto simp: bind_eq_Some_conv)
    then have n: "0 \<le> n" "w = word_of_int n" "n < 256" by (auto simp: try_unsigned_def split: if_splits)
    then have "uint w = n" by (simp add: uint_word_of_int take_bit_int_eq_self)
    moreover have "valid_id i" "1 \<le> w" "w \<le> 63" using w(2)
      by (auto simp: uplink_id_new_def valid_id_def uplink_id_min_def uplink_id_max_def in_range_def split: if_splits)
    ultimately show "valid_id i \<and> in_range 1 63 n" by (simp add: in_range_def word_le_def)
  qed
  show ?thesis
    unfolding uplink_id_of_def
    by (intro clean_bind [OF new] clean_steps clean_rules grow_rules) auto
qed

lemma clean_uplink_name_check:
  "clean (\<lambda>_. valid_uplink_name name \<and> name \<notin> u_name ` set us) (uplink_name_check sp key name us)"
  unfolding uplink_name_check_def by (auto intro!: clean_rules intro: clean_weaken [OF clean_err_if])

lemma clean_uplink_interface:
  "clean (\<lambda>ifs. interface_ok name \<and> name \<notin> interfaces \<and> ifs = insert name interfaces)
     (uplink_interface sp key name interfaces)"
  unfolding uplink_interface_def
  by (intro clean_rules clean_steps grow_rules) (auto simp: interface_ok_def)

lemma grows_static_source_step [grow_rules]: "grows (static_source_step sp key name p sources)"
  unfolding static_source_step_def
  by (auto intro!: grow_rules split: option.split auto_or.split)

lemma clean_static_source_step:
  assumes "distinct (map fst s)"
  shows "clean (\<lambda>r. map fst r = map fst s @ path_static p \<and> distinct (map fst r)) (static_source_step sp key name p s)"
proof (cases p)
  case None
  with assms show ?thesis by (simp add: static_source_step_def path_static_def clean_ret)
next
  case p: (Some ps)
  show ?thesis
  proof (cases "ps_source ps")
    case Auto
    with p assms show ?thesis by (simp add: static_source_step_def path_static_def clean_ret)
  next
    case (Static a)
    show ?thesis
    proof (cases "find (\<lambda>x. fst x = a) s")
      case None
      then have "a \<notin> fst ` set s" by (auto simp: find_None_iff_mem)
      with None p Static assms show ?thesis by (simp add: static_source_step_def path_static_def clean_ret)
    next
      case (Some x)
      with p Static show ?thesis by (simp add: static_source_step_def clean_err_ret)
    qed
  qed
qed

definition adds_sources :: "(ip_addr \<times> string) list \<Rightarrow> path_settings option list \<Rightarrow> (ip_addr \<times> string) list \<Rightarrow> bool" where
  "adds_sources s ps r \<longleftrightarrow> map fst r = map fst s @ concat (map path_static ps) \<and> distinct (map fst r)"

lemma clean_static_sources:
  assumes "distinct (map fst s)"
  shows "clean (adds_sources s ps) (for_each (static_source_step sp key name) ps s)"
  unfolding adds_sources_def [abs_def]
  by (rule clean_for_each [where I = "\<lambda>ps r. map fst r = map fst s @ concat (map path_static ps) \<and> distinct (map fst r)"])
    (use assms in \<open>auto intro!: grow_rules intro: clean_weaken [OF clean_static_source_step]\<close>)

lemma clean_uplink_health: "clean (pred_option (health_ok families)) (uplink_health global key l families)"
  unfolding uplink_health_def by (intro clean_rules clean_health)

lemma enabled_families_uplink:
  "u_ipv4 u = ipv4 \<Longrightarrow> u_ipv6 u = ipv6 \<Longrightarrow> enabled_families ipv4 ipv6 = uplink_families u"
  by (auto simp: enabled_families_def uplink_families_def all_families_def)

lemmas uplink_grows [grow_rules] =
  clean_grows [OF clean_uplink_name_check] clean_grows [OF clean_uplink_interface] clean_grows [OF clean_uplink_health]

lemma grows_uplink_step [grow_rules]: "grows (uplink_step global x acc)"
  unfolding uplink_step_def by (intro grow_rules)

lemma uplinks_ok_snoc:
  assumes "uplinks_ok downlinks acc" "uplink_ok u"
    "u_id u \<notin> u_id ` set (ua_uplinks acc)" "u_name u \<notin> u_name ` set (ua_uplinks acc)"
    "u_interface u \<notin> ua_interfaces acc"
    "map fst sources = map fst (ua_static_sources acc) @ uplink_sources u" "distinct (map fst sources)"
  shows "uplinks_ok downlinks
    \<lparr>ua_interfaces = insert (u_interface u) (ua_interfaces acc), ua_uplinks = ua_uplinks acc @ [u],
     ua_static_sources = sources\<rparr>"
  using assms by (auto simp: uplinks_ok_def)

lemma uplinks_ok_step:
  assumes "uplinks_ok downlinks acc" "valid_id i \<and> i \<notin> u_id ` set (ua_uplinks acc)"
    "valid_uplink_name name \<and> name \<notin> u_name ` set (ua_uplinks acc)"
    "interface_ok face \<and> face \<notin> ua_interfaces acc \<and> faces = insert face (ua_interfaces acc)"
    "pred_option (\<lambda>p. in_range 1 1000 (unat p)) prio" "in_range 1 256 (unat w)" "p4 \<noteq> None \<or> p6 \<noteq> None"
    "pred_option (path_ok V4) p4" "pred_option (path_ok V6) p6"
    "adds_sources (ua_static_sources acc) [p4, p6] sources"
    "pred_option (health_ok (enabled_families p4 p6)) h"
  shows "pred_option (\<lambda>r. uplinks_ok downlinks r \<and> length (ua_uplinks r) = Suc (length (ua_uplinks acc)))
    (map_option (\<lambda>h. \<lparr>ua_interfaces = faces,
       ua_uplinks = ua_uplinks acc @
         [\<lparr>u_id = i, u_name = name, u_description = d, u_interface = face, u_priority = prio, u_weight = w,
           u_ipv4 = p4, u_ipv6 = p6, u_health = h\<rparr>],
       ua_static_sources = sources\<rparr>) h)"
proof (cases h)
  case (Some g)
  let ?u = "\<lparr>u_id = i, u_name = name, u_description = d, u_interface = face, u_priority = prio, u_weight = w,
    u_ipv4 = p4, u_ipv6 = p6, u_health = g\<rparr>"
  have fams: "uplink_families ?u = enabled_families p4 p6"
    by (rule enabled_families_uplink [symmetric]) simp_all
  have "enabled_families p4 p6 \<noteq> []" using assms(7) by (auto simp: enabled_families_def)
  then have "uplink_ok ?u"
    using assms(2-9,11) Some unfolding uplink_ok_def fams by simp
  moreover have "map fst sources = map fst (ua_static_sources acc) @ uplink_sources ?u" "distinct (map fst sources)"
    using assms(10) unfolding adds_sources_def by (simp add: uplink_sources_def, blast)
  ultimately have "uplinks_ok downlinks \<lparr>ua_interfaces = insert (u_interface ?u) (ua_interfaces acc),
      ua_uplinks = ua_uplinks acc @ [?u], ua_static_sources = sources\<rparr>"
    using assms(1-4) by (intro uplinks_ok_snoc) simp_all
  with Some assms(4) show ?thesis by simp
qed simp

lemma clean_uplink_step:
  assumes "uplinks_ok downlinks acc"
  shows "clean (pred_option (\<lambda>r. uplinks_ok downlinks r \<and> length (ua_uplinks r) = Suc (length (ua_uplinks acc))))
    (uplink_step global x acc)"
proof -
  have sources: "distinct (map fst (ua_static_sources acc))" using assms unfolding uplinks_ok_def by blast
  show ?thesis
    unfolding uplink_step_def Let_def
    by (intro clean_bind [OF clean_uplink_id_of] clean_bind [OF clean_uplink_name_check]
        clean_bind [OF clean_uplink_interface] clean_bind [OF clean_map_check [OF clean_path]]
        clean_bind [OF clean_map_check [OF clean_ctx_int]] clean_bind [OF clean_static_sources]
        clean_bind [OF clean_uplink_health] clean_rules clean_steps grow_rules uplinks_ok_step assms sources)
      simp_all
qed

lemma grows_uplink_loop [grow_rules]: "grows (uplink_loop global xs acc)"
  by (induction xs arbitrary: acc) (simp_all add: grow_rules)

lemma clean_uplink_loop:
  "uplinks_ok downlinks acc \<Longrightarrow>
   clean (pred_option (\<lambda>r. uplinks_ok downlinks r \<and> length (ua_uplinks r) = length (ua_uplinks acc) + length xs))
     (uplink_loop global xs acc)"
proof (induction xs arbitrary: acc)
  case Nil
  then show ?case by (simp add: clean_ret)
next
  case (Cons x xs)
  show ?case
    unfolding uplink_loop.simps
  proof (intro clean_bind [OF clean_uplink_step [OF Cons.prems]] clean_rules grow_rules)
    fix r acc'
    assume "pred_option (\<lambda>r. uplinks_ok downlinks r \<and> length (ua_uplinks r) = Suc (length (ua_uplinks acc))) r"
      and "r = Some acc'"
    then have "uplinks_ok downlinks acc'" "length (ua_uplinks acc') = Suc (length (ua_uplinks acc))" by simp_all
    from Cons.IH [OF this(1)] this(2)
    show "clean (pred_option (\<lambda>r. uplinks_ok downlinks r \<and> length (ua_uplinks r) = length (ua_uplinks acc) + length (x # xs)))
        (uplink_loop global xs acc')" by simp
  qed simp
qed

section \<open>The accepted configuration\<close>

definition config_ok :: "config \<Rightarrow> bool" where
  "config_ok c \<longleftrightarrow>
     routing_ok (c_routing c) \<and> firewall_ok (c_firewall c) \<and>
     c_downlinks c \<noteq> [] \<and> distinct (c_downlinks c) \<and> list_all interface_ok (c_downlinks c) \<and>
     c_uplinks c \<noteq> [] \<and> list_all uplink_ok (c_uplinks c) \<and>
     distinct (map u_id (c_uplinks c)) \<and> distinct (map u_name (c_uplinks c)) \<and>
     distinct (map u_interface (c_uplinks c)) \<and>
     set (c_downlinks c) \<inter> u_interface ` set (c_uplinks c) = {} \<and>
     distinct (concat (map uplink_sources (c_uplinks c))) \<and>
     list_all (policy_ok (c_uplinks c) (c_downlinks c)) (c_policies c) \<and>
     distinct (map p_name (c_policies c)) \<and>
     notify_ok (c_notify c) \<and> api_ok (c_api c) \<and>
     is_absolute (c_state_dir c) \<and> ParentDir \<notin> set (path_components (c_state_dir c))"

lemma clean_validate_rest:
  assumes "nets_ok nets" "routing_ok r" "firewall_ok f" "downlinks \<noteq> []"
    "distinct downlinks" "list_all interface_ok downlinks"
    "uplinks_ok downlinks acc" "ua_uplinks acc \<noteq> []"
  shows "clean (\<lambda>c. config_ok c \<and> c_uplinks c = ua_uplinks acc \<and> c_downlinks c = downlinks \<and>
      length (c_policies c) = length (rc_policy raw))
    (validate_rest nets raw r f downlinks (ua_uplinks acc))"
  unfolding validate_rest_def
  by (intro clean_steps clean_bind [OF clean_policies] clean_bind [OF clean_policy_names] clean_bind [OF clean_notify]
      clean_bind [OF clean_api] clean_bind [OF clean_metrics_listen] clean_bind [OF clean_state_dir] clean_rules
      grow_rules) (use assms in \<open>auto simp: config_ok_def uplinks_ok_def\<close>)

lemma grows_validate_rest [grow_rules]: "grows (validate_rest nets raw r f downlinks us)"
  unfolding validate_rest_def by (intro grow_rules)

definition same_size :: "raw_config \<Rightarrow> config \<Rightarrow> bool" where
  "same_size raw c \<longleftrightarrow>
     length (c_uplinks c) = length (rc_uplink raw) \<and> length (c_downlinks c) = length (rc_downlink raw) \<and>
     length (c_policies c) = length (rc_policy raw)"

lemma clean_validate_checks:
  assumes "nets_ok nets"
  shows "clean (pred_option (\<lambda>c. config_ok c \<and> same_size raw c)) (validate_checks nets raw)"
  unfolding validate_checks_def
  by (intro clean_bind [OF clean_routing] clean_bind [OF clean_firewall] clean_bind [OF clean_downlinks]
      clean_bind [OF clean_uplink_loop] clean_bind [OF clean_validate_rest] clean_steps clean_rules grow_rules assms)
    (auto simp: uplinks_ok_def downlinks_ok_def same_size_def)

lemma validate_accepted:
  assumes "nets_ok nets" "validate nets render text raw = Some (Inr c)"
  shows "config_ok c" "same_size raw c"
proof -
  obtain v cx where run: "run_state (validate_checks nets raw) \<lparr>cx_text = text, cx_diags = [], cx_render = render\<rparr> = (v, cx)"
    by (rule prod.exhaust)
  with assms(2) have v: "v = Some c" and cx: "cx_diags cx = []"
    by (auto simp: validate_def split: option.splits if_splits)
  from cleanD [OF clean_validate_checks [OF assms(1)] run cx] v
  show "config_ok c" "same_size raw c" by simp_all
qed

lemma config_ok_wf: "config_ok c \<Longrightarrow> config_wf c"
  by (auto simp: config_ok_def config_wf_def uplinks_wf_def routing_ok_def uplink_ok_def in_range_def list_all_iff)

section \<open>Panics\<close>

definition duration_or :: "string option \<Rightarrow> duration \<Rightarrow> duration" where
  "duration_or v dflt =
     (case v of None \<Rightarrow> dflt | Some t \<Rightarrow> (case Durations.parse t of Inr d \<Rightarrow> d | Inl _ \<Rightarrow> dflt))"

definition attempts_of :: "raw_health \<Rightarrow> nat" where
  "attempts_of h = (case rh_attempts h of None \<Rightarrow> 2 | Some n \<Rightarrow> if in_range 1 5 n then nat n else 2)"

definition overflows :: "raw_health \<Rightarrow> bool" where
  "overflows h \<longleftrightarrow> duration_limit \<le> duration_or (rh_timeout h) (from_secs 1) * attempts_of h"

definition settings_of :: "raw_config \<Rightarrow> raw_uplink \<Rightarrow> raw_health" where
  "settings_of raw u = merge_health (map_option snd (rc_health raw)) (map_option snd (ru_health u))"

lemma fst_ctx_duration [simp]: "fst (run_state (ctx_duration v dflt sp key) cx) = duration_or v dflt"
  by (auto simp: ctx_duration_def duration_or_def case_prod_beta split: option.split sum.split)

lemma fst_attempts [simp]:
  "unat (fst (run_state (ctx_int try_unsigned (rh_attempts h) (2 :: u8) (1, 5) sp key) cx)) = attempts_of h"
  by (cases "rh_attempts h")
    (simp_all add: ctx_int_def attempts_of_def try_unsigned_def in_range_def case_prod_beta unat_word_of_int)

lemma health_panics: "fst (run_state (health h families sp key) cx) = None \<longleftrightarrow> overflows h"
  by (auto simp: health_def case_prod_beta duration_mul_def overflows_def split: option.split)

lemma uplink_health_panics:
  "fst (run_state (uplink_health (rc_health raw) key (ru_health u) families) cx) = None \<longleftrightarrow> overflows (settings_of raw u)"
  by (cases "ru_health u") (simp_all add: uplink_health_def settings_of_def health_panics)

lemma uplink_step_panics:
  "fst (run_state (uplink_step (rc_health raw) x acc) cx) = None \<longleftrightarrow> overflows (settings_of raw (snd (snd x)))"
  by (simp add: uplink_step_def Let_def case_prod_beta uplink_health_panics)

lemma uplink_loop_panics:
  "fst (run_state (uplink_loop (rc_health raw) xs acc) cx) = None \<longleftrightarrow>
     (\<exists>x\<in>set xs. overflows (settings_of raw (snd (snd x))))"
proof (induction xs arbitrary: acc cx)
  case Nil
  then show ?case by simp
next
  case (Cons x xs)
  show ?case
    using uplink_step_panics [of raw x acc cx] Cons.IH
    by (auto simp: case_prod_beta split: option.split)
qed

lemma case_panics:
  "fst (run_state (case v of None \<Rightarrow> ret None | Some x \<Rightarrow> State_Monad.bind (m x) (\<lambda>y. ret (Some y))) cx) = None
     \<longleftrightarrow> v = None"
  by (cases v) (simp_all add: case_prod_beta)

lemma validate_checks_panics:
  "fst (run_state (validate_checks nets raw) cx) = None \<longleftrightarrow>
     (\<exists>u\<in>snd ` set (rc_uplink raw). overflows (settings_of raw u))"
proof -
  have "snd ` set (enumerate 0 (rc_uplink raw)) = set (rc_uplink raw)"
    by (metis map_snd_enumerate set_map)
  then have "snd ` set (rc_uplink raw) = (\<lambda>x. snd (snd x)) ` set (enumerate 0 (rc_uplink raw))"
    by (metis image_image)
  then show ?thesis
    by (simp add: validate_checks_def case_prod_beta case_panics uplink_loop_panics)
qed

lemma validate_None_iff:
  "validate nets render text raw = None \<longleftrightarrow> (\<exists>u\<in>snd ` set (rc_uplink raw). overflows (settings_of raw u))"
  unfolding validate_checks_panics [of nets raw "\<lparr>cx_text = text, cx_diags = [], cx_render = render\<rparr>", symmetric]
  by (auto simp: validate_def split: prod.split option.split)

section \<open>Socket paths\<close>

lemma length_show_nat: "n < 10 ^ Suc k \<Longrightarrow> length (show_nat n) \<le> Suc k"
proof (induction n arbitrary: k rule: show_nat.induct)
  case (1 n)
  show ?case
  proof (cases "n < 10")
    case True
    then show ?thesis by (subst show_nat.simps) simp
  next
    case False
    with "1.prems" obtain j where k: "k = Suc j" by (cases k) auto
    with "1.prems" have "n div 10 < 10 ^ Suc j" by (simp add: less_mult_imp_div_less)
    with 1(1) [OF False] False k show ?thesis by (subst show_nat.simps) simp
  qed
qed

lemma length_show_u32: "length (show_nat (unat (w :: u32))) \<le> 10"
proof -
  have "unat w < 2 ^ LENGTH(32)" by (rule unsigned_less)
  then show ?thesis using length_show_nat [of "unat w" 9] by simp
qed

section \<open>An example\<close>

text \<open>One downlink, one uplink with default health settings and one policy.\<close>

definition example_raw :: raw_config where
  "example_raw =
     \<lparr>rc_routing = None, rc_firewall = None,
      rc_downlink = [((0, 30), \<lparr>rd_interface = ''lan0''\<rparr>)],
      rc_uplink =
        [((30, 90),
          \<lparr>ru_id = 1, ru_name = ''fiber'', ru_description = None, ru_interface = ''wan0'', ru_priority = Some 1,
           ru_weight = Some 10,
           ru_ipv4 = Some ((60, 90), \<lparr>rw_source = None, rw_gateway = Some ''192.0.2.1'', rw_gateway_onlink = None, rw_nat = None\<rparr>),
           ru_ipv6 = None, ru_health = None\<rparr>)],
      rc_health = None,
      rc_policy =
        [((90, 130),
          \<lparr>ry_name = ''mail'', ry_family = PolicyIpv4, ry_input_interface = Some ''lan0'', ry_source = None,
           ry_destination = None, ry_protocol = Some Tcp, ry_destination_port = Some (Port 25),
           ry_uplink = ''fiber'', ry_fallback = None\<rparr>)],
      rc_notify = None, rc_api = None, rc_metrics = None, rc_state_dir = None\<rparr>"

definition example_nets :: net_lib where
  "example_nets =
     \<lparr>nl_parse = (\<lambda>_. None), nl_from = (\<lambda>a. \<lparr>net_addr = a, net_len = 32\<rparr>), nl_trunc = (\<lambda>n. n)\<rparr>"

lemmas name_defs = check_interface_name_def check_account_name_def valid_uplink_name_def is_ascii_alphanumeric_def
  is_ascii_lowercase_def char_in_def is_ascii_digit_def

lemmas address_defs = is_global_unicast_def v4_is_loopback_def v4_is_multicast_def v4_is_broadcast_def
  v4_is_link_local_def v4_is_private_def octet_def in_range_def [of "_ :: u32"] word_le_iff_unat

lemma example_targets:
  "parse_target ''icmp:1.1.1.1'' = Inr (TargetIcmp (IpV4 0x01010101))"
  "parse_target ''icmp:8.8.8.8'' = Inr (TargetIcmp (IpV4 0x08080808))"
  "parse_target ''icmp:9.9.9.9'' = Inr (TargetIcmp (IpV4 0x09090909))"
  "parse_target ''icmp:208.67.222.222'' = Inr (TargetIcmp (IpV4 0xd043dede))"
  "parse_target ''icmp:2606:4700:4700::1111'' = Inr (TargetIcmp (IpV6 0x26064700470000000000000000001111))"
  "parse_target ''icmp:2001:4860:4860::8888'' = Inr (TargetIcmp (IpV6 0x20014860486000000000000000008888))"
  "parse_target ''icmp:2620:fe::fe'' = Inr (TargetIcmp (IpV6 0x262000fe0000000000000000000000fe))"
  by (simp_all add: parse_target_def strip_prefix_def parser_defs)

lemma example_global:
  "is_global_unicast (IpV4 0x01010101)" "is_global_unicast (IpV4 0x08080808)" "is_global_unicast (IpV4 0x09090909)"
  "is_global_unicast (IpV4 0xd043dede)"
  by (simp_all add: address_defs)

lemma example_global6:
  "is_global_unicast (IpV6 0x26064700470000000000000000001111)"
  "is_global_unicast (IpV6 0x20014860486000000000000000008888)"
  "is_global_unicast (IpV6 0x262000fe0000000000000000000000fe)"
  by (simp_all add: is_global_unicast_def v6_is_multicast_def v6_is_ipv4_mapped_def segment_def)

lemma example_default_targets:
  "run_state (read_targets raw_health_default [V4] sp key V4) cx =
     ([TargetIcmp (IpV4 0x01010101), TargetIcmp (IpV4 0x08080808), TargetIcmp (IpV4 0x09090909),
       TargetIcmp (IpV4 0xd043dede)], cx)"
  "run_state (read_targets raw_health_default [V4] sp key V6) cx =
     ([TargetIcmp (IpV6 0x26064700470000000000000000001111), TargetIcmp (IpV6 0x20014860486000000000000000008888),
       TargetIcmp (IpV6 0x262000fe0000000000000000000000fe)], cx)"
  by (simp_all add: read_targets_def Let_def target_texts_def the_or_def raw_health_default_def
      DEFAULT_TARGETS_V4_def DEFAULT_TARGETS_V6_def read_target_def example_targets example_global example_global6 err_if_def)

lemma raw_health_default_simps:
  "rh_interval raw_health_default = None" "rh_timeout raw_health_default = None" "rh_attempts raw_health_default = None"
  "rh_required_reachable raw_health_default = None" "rh_fall raw_health_default = None"
  "rh_rise raw_health_default = None" "rh_quality raw_health_default = None"
  "rh_quality_window raw_health_default = None" "rh_quality_min_samples raw_health_default = None"
  by (simp_all add: raw_health_default_def)

definition example_default_health :: Config.health where
  "example_default_health =
     \<lparr>h_interval = 5 * 10 ^ 9, h_timeout = 10 ^ 9, h_attempts = 2, required_reachable = 2,
      h_fall = 2, h_rise = 3,
      targets_v4 = [TargetIcmp (IpV4 0x01010101), TargetIcmp (IpV4 0x08080808), TargetIcmp (IpV4 0x09090909),
        TargetIcmp (IpV4 0xd043dede)],
      targets_v6 = [TargetIcmp (IpV6 0x26064700470000000000000000001111),
        TargetIcmp (IpV6 0x20014860486000000000000000008888), TargetIcmp (IpV6 0x262000fe0000000000000000000000fe)],
      h_quality = \<lparr>max_rtt = None, max_jitter = None, max_loss = None\<rparr>,
      quality_window = 6, quality_min_samples = 10\<rparr>"

lemma example_health:
  "run_state (health raw_health_default [V4] sp key) cx =
     (Some example_default_health, cx)"
  by (simp add: health_def health_rest_def example_default_targets raw_health_default_simps ctx_int_def ctx_duration_def
      ctx_duration_in_def from_secs_def in_range_def err_if_def duration_mul_def duration_limit_def required_step_def
      targets_of_def distinct_addresses_def quality_of_def map_check_def raw_quality_default_def quality_enabled_def
      the_or_def example_default_health_def)

lemma example_path:
  "run_state (path (sp, \<lparr>rw_source = None, rw_gateway = Some ''192.0.2.1'', rw_gateway_onlink = None, rw_nat = None\<rparr>) V4 key) cx =
     (\<lparr>ps_source = Auto, ps_gateway = Static (IpV4 0xc0000201), gateway_onlink = False, ps_nat = Masquerade\<rparr>, cx)"
  by (simp add: path_def path_addr_def path_nat_def parser_defs err_if_def the_or_def)

definition example_accepted :: config where
  "example_accepted =
     \<lparr>c_routing =
        \<lparr>table_base = 1000, rule_priority_base = 1000, route_protocol = 249, fwmark_mask = fwm_default,
         all_down = ReadyPolicy, discovery_tables = [254], manage_sysctls = True,
         reconcile_interval = 60 * 10 ^ 9, shutdown_action = KeepOnShutdown\<rparr>,
      c_firewall = \<lparr>fw_mode = Managed, nat_priority = 100, nft_path = ''/usr/sbin/nft''\<rparr>,
      c_downlinks = [''lan0''],
      c_uplinks =
        [\<lparr>u_id = UplinkId 1, u_name = ''fiber'', u_description = ''fiber'', u_interface = ''wan0'',
          u_priority = Some 1, u_weight = 10,
          u_ipv4 = Some \<lparr>ps_source = Auto, ps_gateway = Static (IpV4 0xc0000201), gateway_onlink = False,
            ps_nat = Masquerade\<rparr>,
          u_ipv6 = None, u_health = example_default_health\<rparr>],
      c_policies =
        [\<lparr>p_name = ''mail'', p_family = V4, p_input_interface = Some ''lan0'', p_source = None,
          p_destination = None, p_protocol = Some Tcp, p_destination_port = Some (25, 25),
          p_uplink = UplinkId 1, p_fallback = Balance\<rparr>],
      c_notify = \<lparr>n_coalesce = 30 * 10 ^ 9, n_email = None, n_hooks = [], n_hook_user = ''nobody''\<rparr>,
      c_api = \<lparr>a_socket = ''/run/polywan/api.sock'', a_group = ''polywan'',
        a_status_socket = Some ''/run/polywan/status.sock'', a_status_group = None\<rparr>,
      c_metrics_listen = None, c_state_dir = ''/var/lib/polywan'', c_digest = []\<rparr>"

lemma example_routing: "run_state (routing None) cx = (c_routing example_accepted, cx)"
  by (simp add: routing_def Let_def span_of_def the_or_def routing_default_def ctx_int_def err_if_def own_tables_def in_range_def
      word_le_iff_unat mask_of_def discovery_table_def table_id_def ctx_duration_in_def ctx_duration_def from_secs_def
      example_accepted_def)

lemma example_firewall: "run_state (firewall None) cx = (c_firewall example_accepted, cx)"
  by (simp add: firewall_def Let_def span_of_def the_or_def ctx_int_def err_if_def is_absolute_def example_accepted_def)

lemma example_downlinks:
  "run_state (for_each downlink_step (enumerate 0 (rc_downlink example_raw)) ({}, [])) cx = (({''lan0''}, [''lan0'']), cx)"
  by (simp add: example_raw_def downlink_step_def Let_def name_defs err_if_def)

lemma example_uplinks:
  "run_state (uplink_loop None (enumerate 0 (rc_uplink example_raw))
      \<lparr>ua_interfaces = {''lan0''}, ua_uplinks = [], ua_static_sources = []\<rparr>) cx =
    (Some \<lparr>ua_interfaces = {''wan0'', ''lan0''}, ua_uplinks = c_uplinks example_accepted, ua_static_sources = []\<rparr>, cx)"
  by (simp add: example_raw_def uplink_step_def Let_def uplink_id_of_def try_unsigned_def uplink_id_new_def uplink_id_min_def
      uplink_id_max_def in_range_def word_le_iff_unat uplink_name_check_def name_defs err_if_def uplink_interface_def
      map_check_def ctx_int_def example_path static_source_step_def uplink_health_def merge_health_def span_of_def
      the_or_def enabled_families_def example_health example_accepted_def)

lemma example_api: "run_state (api None) cx = (c_api example_accepted, cx)"
  by (simp add: api_def Let_def span_of_def the_or_def err_of_def err_if_def check_socket_path_def is_absolute_def
      path_components_def path_body_def component_of_def path_parent_def trim_components_def STAGING_SUFFIX_MAX_def
      STAGING_def STAGED_def SUN_PATH_MAX_def name_defs in_range_def DEFAULT_API_SOCKET_def DEFAULT_STATUS_SOCKET_def
      example_accepted_def)

lemma example_policies:
  "cx_diags cx = [] \<Longrightarrow>
   run_state (for_each (policy_step example_nets (c_uplinks example_accepted) [''lan0'']) (enumerate 0 (rc_policy example_raw)) []) cx
     = (c_policies example_accepted, cx)"
  by (simp add: example_raw_def policy_step_def policy_def Let_def problems_def policy_uplink_def err_if_def
      policy_prefix_def policy_protocol_def policy_port_def port_range_def in_range_def the_or_def example_accepted_def)

lemma example_raw_rest:
  "rc_routing example_raw = None" "rc_firewall example_raw = None" "rc_health example_raw = None"
  "rc_notify example_raw = None" "rc_api example_raw = None" "rc_metrics example_raw = None"
  "rc_state_dir example_raw = None" "rc_downlink example_raw \<noteq> []" "rc_uplink example_raw \<noteq> []"
  by (simp_all add: example_raw_def)

lemma example_validated: "validate example_nets (\<lambda>_. []) [] example_raw = Some (Inr example_accepted)"
proof -
  have names: "run_state (for_each policy_name_step (enumerate 0 (c_policies example_accepted)) {}) cx = ({''mail''}, cx)" for cx
    by (simp add: example_accepted_def policy_name_step_def err_if_def)
  have rest: "run_state (validate_rest example_nets example_raw (c_routing example_accepted) (c_firewall example_accepted)
      [''lan0''] (c_uplinks example_accepted)) cx = (example_accepted, cx)" if "cx_diags cx = []" for cx
    using that
    by (simp add: validate_rest_def sort_problems_def example_policies names example_raw_rest example_api notify_def
        metrics_listen_def state_dir_def from_secs_def) (simp add: example_accepted_def)
  show ?thesis
    by (simp add: validate_def validate_checks_def example_raw_rest example_routing example_firewall err_if_def
        example_downlinks example_uplinks rest)
qed

section \<open>Properties\<close>

text \<open>
  C7. Whatever file the validation accepts, the configuration is well formed: its tables and rule
  priorities fit the kernel's ranges and avoid the reserved tables; ids, names and interfaces of the
  uplinks are valid and unique, and no interface is both an uplink and a downlink; static sources are
  usable, of their family and unique; every round of probes ends before the next one starts; every
  enabled family has enough distinct global targets; and each policy names an uplink with its family,
  a downlink, prefixes of its family and a proper range of ports. No uplink, downlink or policy of the
  file is lost.
\<close>

theorem accepted_config_ok:
  assumes "nets_ok nets" "validate nets render text raw = Some (Inr c)"
  shows "config_ok c \<and> config_wf c \<and> same_size raw c"
  using validate_accepted [OF assms] config_ok_wf by blast

theorem accepted_config_ok_witness:
  "nets_ok example_nets \<and> validate example_nets (\<lambda>_. []) [] example_raw = Some (Inr example_accepted) \<and>
   config_wf example_accepted"
proof -
  have nets: "nets_ok example_nets" by (simp add: nets_ok_def example_nets_def)
  from accepted_config_ok [OF nets example_validated] nets example_validated show ?thesis by blast
qed

text \<open>
  C29. The validation panics exactly when the product of the timeout and the attempts of some uplink,
  after the uplink's settings are merged into the global ones, does not fit a \<open>Duration\<close>; on every
  other file it ends with a configuration or a list of problems.
\<close>

theorem validate_panics_iff:
  "validate nets render text raw = None \<longleftrightarrow> list_ex (\<lambda>u. overflows (settings_of raw (snd u))) (rc_uplink raw)"
  by (auto simp: validate_None_iff list_ex_iff)

text \<open>A timeout of the greatest number of seconds the parser reads is such a case: the file is not refused.\<close>

lemma huge_timeout_panics:
  "validate example_nets (\<lambda>_. []) []
     (example_raw\<lparr>rc_health := Some ((0, 0),
        raw_health_default\<lparr>rh_timeout := Some (show_nat 18446744073709551615 @ ''s'')\<rparr>)\<rparr>) = None"
proof -
  let ?c = "(18446744073709551615, ''s'')"
  have ok: "component_ok ?c" by (simp add: component_ok_def unit_part_def)
  have val: "component_value ?c = 18446744073709551615 * 10 ^ 9"
    by (simp add: component_value_def unit_part_def from_secs_def)
  have "Durations.parse (show_nat 18446744073709551615 @ ''s'') = Inr (18446744073709551615 * 10 ^ 9)"
    using parse_loop_components [of "[?c]" 0] Durations.trim_components [of "[?c]"] ok val
    by (simp add: Durations.parse_def component_text_def duration_limit_def)
  then show ?thesis
    unfolding validate_None_iff
    by (simp add: example_raw_def overflows_def settings_of_def merge_health_def the_or_def duration_or_def
        attempts_of_def raw_health_default_def duration_limit_def)
qed

text \<open>
  C30. The path of an accepted socket fits the kernel's limit, and so does the path the socket is set up
  under first, in a private directory next to it named after the process, whatever the process id.
\<close>

theorem socket_paths_fit:
  assumes "check_socket_path p = Inr ()" "path_parent p = Some parent"
  shows "length p \<le> SUN_PATH_MAX \<and>
    length (parent @ ''/'' @ STAGING @ show_nat (unat (pid :: u32)) @ ''/'' @ STAGED) \<le> SUN_PATH_MAX"
  using assms length_show_u32 [of pid]
  by (simp add: check_socket_path_def STAGING_SUFFIX_MAX_def Let_def split: if_splits)

theorem socket_paths_fit_witness:
  "length (''/run/polywan'' @ ''/'' @ STAGING @ show_nat (unat (4294967295 :: u32)) @ ''/'' @ STAGED) \<le> SUN_PATH_MAX"
proof -
  have "check_socket_path ''/run/polywan/api.sock'' = Inr ()" "path_parent ''/run/polywan/api.sock'' = Some ''/run/polywan''"
    by (simp_all add: check_socket_path_def is_absolute_def path_components_def path_body_def component_of_def
        path_parent_def trim_components_def STAGING_SUFFIX_MAX_def STAGING_def STAGED_def SUN_PATH_MAX_def)
  from socket_paths_fit [OF this, of 4294967295] show ?thesis by blast
qed

end
