(* ===== verification/Manifest.thy ===== *)
theory Manifest
  imports Config Addresses
begin

text \<open>
  The files of the state directory (\<open>state.rs\<close>): the manifest with the bindings of uplink ids to
  names and the recorded system settings, the drain state and the health checkpoint. Reading and
  writing JSON is library code; the operations on the values are modelled, and the sequences of
  operations that the daemon and \<open>forget-uplink\<close> perform on the bindings.
\<close>

section \<open>Data\<close>

definition VERSION :: u32 where
  "VERSION = 1"

definition NFT_TABLE :: string where
  "NFT_TABLE = ''polywan''"

datatype mode = ModeManaged | ModeExternal

record recorded_structure =
  rs_fwmark_mask :: u32
  rs_table_base :: u32
  rs_rule_priority_base :: u32
  rs_route_protocol :: u8
  rs_firewall_mode :: mode

definition recorded_from :: "structural \<Rightarrow> recorded_structure" where
  "recorded_from s =
     \<lparr>rs_fwmark_mask = fwm_mask (st_fwmark_mask s), rs_table_base = st_table_base s,
      rs_rule_priority_base = st_rule_priority_base s, rs_route_protocol = st_route_protocol s,
      rs_firewall_mode = (case st_firewall_mode s of Managed \<Rightarrow> ModeManaged | External \<Rightarrow> ModeExternal)\<rparr>"

definition recorded_mask :: "recorded_structure \<Rightarrow> fw_mask option" where
  "recorded_mask s = fw_mask_new (rs_fwmark_mask s)"

record binding =
  bi_id :: u8
  bi_name :: string
  bi_removed :: bool

record manifest =
  mf_version :: u32
  mf_structure :: recorded_structure
  mf_tables :: "u32 \<times> u32"
  mf_priorities :: "u32 \<times> u32"
  mf_nft_table :: string
  mf_families :: "string list"
  mf_uplinks :: "binding list"
  mf_sysctl_baseline :: "(string, string) btree_map"
  mf_sysctl_set :: "(string, string) btree_map"

datatype manifest_conflict =
  StructureConflict recorded_structure recorded_structure
| IdReused u8 string string
| IdChanged string u8 u8

section \<open>Operations on the manifest\<close>

definition binding_conflict :: "uplink \<Rightarrow> binding \<Rightarrow> manifest_conflict list" where
  "binding_conflict u b =
     (if bi_id b = id_get (u_id u) \<and> bi_name b \<noteq> u_name u then [IdReused (bi_id b) (bi_name b) (u_name u)]
      else if bi_name b = u_name u \<and> bi_id b \<noteq> id_get (u_id u)
      then [IdChanged (u_name u) (bi_id b) (id_get (u_id u))]
      else [])"

definition manifest_check :: "manifest \<Rightarrow> config \<Rightarrow> manifest_conflict list" where
  "manifest_check m c =
     (let configured = recorded_from (config_structural c)
      in (if configured \<noteq> mf_structure m then [StructureConflict (mf_structure m) configured] else [])
         @ concat (map (\<lambda>u. concat (map (binding_conflict u) (mf_uplinks m))) (c_uplinks c)))"

definition mark_removed :: "config \<Rightarrow> binding \<Rightarrow> binding" where
  "mark_removed c b = b\<lparr>bi_removed := \<not> list_ex (\<lambda>u. id_get (u_id u) = bi_id b) (c_uplinks c)\<rparr>"

definition bind_uplink :: "uplink \<Rightarrow> binding list \<Rightarrow> binding list" where
  "bind_uplink u bs =
     (if list_ex (\<lambda>b. bi_id b = id_get (u_id u)) bs then bs
      else bs @ [\<lparr>bi_id = id_get (u_id u), bi_name = u_name u, bi_removed = False\<rparr>])"

definition manifest_bind :: "config \<Rightarrow> manifest \<Rightarrow> manifest" where
  "manifest_bind c m =
     m\<lparr>mf_uplinks := sort_key bi_id (fold bind_uplink (c_uplinks c) (map (mark_removed c) (mf_uplinks m))),
       mf_families := map family_key (filter (config_manages c) all_families)\<rparr>"

definition manifest_new :: "config \<Rightarrow> manifest" where
  "manifest_new c =
     (let s = config_structural c
      in manifest_bind c
           \<lparr>mf_version = VERSION, mf_structure = recorded_from s,
            mf_tables = (st_table_base s, st_table_base s + 191),
            mf_priorities = (st_rule_priority_base s, st_rule_priority_base s + 699),
            mf_nft_table = ''inet '' @ NFT_TABLE, mf_families = [], mf_uplinks = [],
            mf_sysctl_baseline = [], mf_sysctl_set = []\<rparr>)"

datatype forget_error = NotRecorded string | StillConfigured string | InvalidRecordedId u8

text \<open>The manifest is changed in place: an invalid recorded id is removed although it is reported.\<close>

definition manifest_forget :: "string \<Rightarrow> manifest \<Rightarrow> manifest \<times> (forget_error + uplink_id)" where
  "manifest_forget name m =
     (case position (\<lambda>b. bi_name b = name) (mf_uplinks m) of
        None \<Rightarrow> (m, Inl (NotRecorded name))
      | Some pos \<Rightarrow>
          let b = mf_uplinks m ! pos
          in if \<not> bi_removed b then (m, Inl (StillConfigured name))
             else (m\<lparr>mf_uplinks := remove_at pos (mf_uplinks m)\<rparr>,
                   case uplink_id_new (bi_id b) of Some i \<Rightarrow> Inr i | None \<Rightarrow> Inl (InvalidRecordedId (bi_id b))))"

definition record_sysctl :: "string \<Rightarrow> string \<Rightarrow> string \<Rightarrow> manifest \<Rightarrow> manifest" where
  "record_sysctl key previous set_value m =
     m\<lparr>mf_sysctl_baseline :=
         (if btm_contains (mf_sysctl_baseline m) key then mf_sysctl_baseline m
          else btm_insert key previous (mf_sysctl_baseline m)),
       mf_sysctl_set := btm_insert key set_value (mf_sysctl_set m)\<rparr>"

section \<open>Drain state and checkpoint\<close>

record drain_state =
  dr_version :: u32
  dr_drained :: "string list"

definition drain_of :: "string list \<Rightarrow> drain_state" where
  "drain_of drained = \<lparr>dr_version = VERSION, dr_drained = drained\<rparr>"

definition drain_default :: drain_state where
  "drain_default = drain_of []"

record path_checkpoint =
  pc_uplink :: u8
  pc_family :: string
  pc_ifindex :: "u32 option"
  pc_source :: "ip_addr option"
  pc_gateway :: "ip_addr option"
  pc_up :: bool
  pc_since_ms :: u64
  pc_passes :: u8
  pc_failures :: u8

record checkpoint =
  cp_version :: u32
  cp_boot_id :: string
  cp_boottime_ms :: u64
  cp_config_digest :: string
  cp_structure :: recorded_structure
  cp_paths :: "path_checkpoint list"
  cp_active_v4 :: "u8 list"
  cp_active_v6 :: "u8 list"

definition CHECKPOINT_MAX_AGE_MS :: u64 where
  "CHECKPOINT_MAX_AGE_MS = 10 * 60 * 1000"

definition checkpoint_valid :: "checkpoint \<Rightarrow> string \<Rightarrow> u64 \<Rightarrow> recorded_structure \<Rightarrow> bool" where
  "checkpoint_valid c boot_id now_ms structure \<longleftrightarrow>
     cp_boot_id c = boot_id \<and> cp_boottime_ms c \<le> now_ms \<and>
     now_ms - cp_boottime_ms c < CHECKPOINT_MAX_AGE_MS \<and> cp_structure c = structure"

section \<open>Bindings\<close>

text \<open>Ids and names of the recorded bindings are unique, and the list is sorted by id.\<close>

definition bindings_ok :: "binding list \<Rightarrow> bool" where
  "bindings_ok bs \<longleftrightarrow> sorted (map bi_id bs) \<and> distinct (map bi_id bs) \<and> distinct (map bi_name bs)"

definition bound :: "manifest \<Rightarrow> u8 \<Rightarrow> string \<Rightarrow> bool" where
  "bound m i n \<longleftrightarrow> (i, n) \<in> (\<lambda>b. (bi_id b, bi_name b)) ` set (mf_uplinks m)"

lemma check_empty_iff:
  "manifest_check m c = [] \<longleftrightarrow>
     recorded_from (config_structural c) = mf_structure m \<and>
     (\<forall>u\<in>set (c_uplinks c). \<forall>b\<in>set (mf_uplinks m). bi_id b = id_get (u_id u) \<longleftrightarrow> bi_name b = u_name u)"
proof -
  have "binding_conflict u b = [] \<longleftrightarrow> (bi_id b = id_get (u_id u) \<longleftrightarrow> bi_name b = u_name u)" for u b
    by (auto simp: binding_conflict_def)
  then show ?thesis by (auto simp: manifest_check_def Let_def)
qed

lemma fold_bind_keeps: "set bs \<subseteq> set (fold bind_uplink us bs)"
proof (induction us arbitrary: bs)
  case (Cons u us)
  have "set bs \<subseteq> set (bind_uplink u bs)" by (auto simp: bind_uplink_def)
  with Cons [of "bind_uplink u bs"] show ?case by auto
qed simp

lemma fold_bind_members:
  "b \<in> set (fold bind_uplink us bs) \<Longrightarrow>
   b \<in> set bs \<or> (\<exists>u\<in>set us. b = \<lparr>bi_id = id_get (u_id u), bi_name = u_name u, bi_removed = False\<rparr>)"
proof (induction us arbitrary: bs)
  case (Cons u us)
  then have "b \<in> set (bind_uplink u bs) \<or>
      (\<exists>u\<in>set us. b = \<lparr>bi_id = id_get (u_id u), bi_name = u_name u, bi_removed = False\<rparr>)"
    using Cons.IH [of "bind_uplink u bs"] by simp
  then show ?case by (auto simp: bind_uplink_def split: if_splits)
qed simp

lemma fold_bind_covers:
  "u \<in> set us \<Longrightarrow> \<exists>b\<in>set (fold bind_uplink us bs). bi_id b = id_get (u_id u)"
proof (induction us arbitrary: bs)
  case (Cons v us)
  show ?case
  proof (cases "u = v")
    case True
    have "\<exists>b\<in>set (bind_uplink v bs). bi_id b = id_get (u_id v)"
      by (auto simp: bind_uplink_def list_ex_iff)
    with True fold_bind_keeps [of "bind_uplink v bs" us] show ?thesis by auto
  next
    case False
    with Cons show ?thesis by simp
  qed
qed simp

lemma fold_bind_distinct:
  assumes "distinct (map bi_id bs)" "distinct (map bi_name bs)" "distinct (map u_id us)" "distinct (map u_name us)"
    and "\<forall>u\<in>set us. \<forall>b\<in>set bs. bi_id b = id_get (u_id u) \<longleftrightarrow> bi_name b = u_name u"
  shows "distinct (map bi_id (fold bind_uplink us bs)) \<and> distinct (map bi_name (fold bind_uplink us bs))"
  using assms
proof (induction us arbitrary: bs)
  case (Cons u us)
  have "\<forall>v\<in>set us. \<forall>b\<in>set (bind_uplink u bs). bi_id b = id_get (u_id v) \<longleftrightarrow> bi_name b = u_name v"
  proof (intro ballI)
    fix v b
    assume v: "v \<in> set us" and b: "b \<in> set (bind_uplink u bs)"
    show "bi_id b = id_get (u_id v) \<longleftrightarrow> bi_name b = u_name v"
    proof (cases "b \<in> set bs")
      case True
      with v Cons.prems(5) show ?thesis by simp
    next
      case False
      with b have "bi_id b = id_get (u_id u)" "bi_name b = u_name u" by (auto simp: bind_uplink_def split: if_splits)
      moreover have "u_id v \<noteq> u_id u" "u_name v \<noteq> u_name u" using v Cons.prems(3,4) by (metis distinct.simps(2) image_eqI list.simps(9) list.set_map)+
      ultimately show ?thesis by (auto simp: uplink_id.expand)
    qed
  qed
  moreover have "distinct (map bi_id (bind_uplink u bs))" "distinct (map bi_name (bind_uplink u bs))"
    using Cons.prems(1,2,5) by (auto simp: bind_uplink_def list_ex_iff)
  ultimately show ?case
    using Cons.IH [of "bind_uplink u bs"] Cons.prems(3,4) by simp
qed simp

lemma mark_removed_simps [simp]: "bi_id (mark_removed c b) = bi_id b" "bi_name (mark_removed c b) = bi_name b"
  by (simp_all add: mark_removed_def)

lemma bind_uplinks:
  "mf_uplinks (manifest_bind c m) =
     sort_key bi_id (fold bind_uplink (c_uplinks c) (map (mark_removed c) (mf_uplinks m)))"
  "mf_structure (manifest_bind c m) = mf_structure m"
  by (simp_all add: manifest_bind_def)

lemma bind_keeps_bound: "bound m i n \<Longrightarrow> bound (manifest_bind c m) i n"
proof -
  assume "bound m i n"
  then obtain b where b: "b \<in> set (mf_uplinks m)" "i = bi_id b" "n = bi_name b" by (auto simp: bound_def)
  then have "mark_removed c b \<in> set (mf_uplinks (manifest_bind c m))"
    using fold_bind_keeps [of "map (mark_removed c) (mf_uplinks m)" "c_uplinks c"] by (auto simp: bind_uplinks)
  with b show ?thesis
    unfolding bound_def by (intro image_eqI [where x = "mark_removed c b"]) simp_all
qed

lemma bind_bound_cases:
  assumes "bound (manifest_bind c m) i n"
  shows "bound m i n \<or> (\<exists>u\<in>set (c_uplinks c). i = id_get (u_id u) \<and> n = u_name u)"
  using assms fold_bind_members [of _ "c_uplinks c" "map (mark_removed c) (mf_uplinks m)"]
  by (fastforce simp: bound_def bind_uplinks image_iff)

lemma bind_bindings_ok:
  assumes "bindings_ok (mf_uplinks m)" "manifest_check m c = []" "uplinks_wf (c_uplinks c)"
  shows "bindings_ok (mf_uplinks (manifest_bind c m))"
proof -
  let ?bs = "map (mark_removed c) (mf_uplinks m)"
  have "distinct (map bi_id (fold bind_uplink (c_uplinks c) ?bs)) \<and>
      distinct (map bi_name (fold bind_uplink (c_uplinks c) ?bs))"
    using assms by (intro fold_bind_distinct) (auto simp: bindings_ok_def uplinks_wf_def check_empty_iff comp_def)
  then show ?thesis
    by (simp add: bindings_ok_def bind_uplinks distinct_map inj_on_def)
qed

section \<open>Histories\<close>

text \<open>
  What happens to a manifest over the life of an installation: the daemon starts or reloads with a
  configuration that does not conflict and binds it; \<open>forget-uplink\<close> removes a binding; settings are
  recorded.
\<close>

datatype manifest_action = Bind config | Forget string | RecordSetting string string string

inductive manifest_step :: "manifest \<Rightarrow> manifest_action \<Rightarrow> manifest \<Rightarrow> bool" where
  step_bind: "manifest_check m c = [] \<Longrightarrow> config_wf c \<Longrightarrow> manifest_step m (Bind c) (manifest_bind c m)"
| step_forget: "manifest_forget n m = (m', Inr i) \<Longrightarrow> manifest_step m (Forget n) m'"
| step_record: "manifest_step m (RecordSetting key previous v) (record_sysctl key previous v m)"

inductive manifest_steps :: "manifest \<Rightarrow> manifest_action list \<Rightarrow> manifest \<Rightarrow> bool" where
  steps_done: "manifest_steps m [] m"
| steps_more: "manifest_step m a m' \<Longrightarrow> manifest_steps m' as m'' \<Longrightarrow> manifest_steps m (a # as) m''"

inductive_cases manifest_stepE: "manifest_step m a m'"

lemma position_split:
  assumes "position P bs = Some pos"
  obtains xs b ys where "bs = xs @ b # ys" "bs ! pos = b" "remove_at pos bs = xs @ ys" "P b"
  using position_SomeD [OF assms] that [of "take pos bs" "bs ! pos" "drop (Suc pos) bs"]
  by (simp add: remove_at_def id_take_nth_drop)

lemma forget_shape:
  assumes "manifest_forget n m = (m', Inr i)"
  obtains xs b ys where "mf_uplinks m = xs @ b # ys" "m' = m\<lparr>mf_uplinks := xs @ ys\<rparr>" "bi_name b = n" "bi_removed b"
proof -
  from assms obtain pos where pos: "position (\<lambda>b. bi_name b = n) (mf_uplinks m) = Some pos"
    and m': "m' = m\<lparr>mf_uplinks := remove_at pos (mf_uplinks m)\<rparr>" and r: "bi_removed (mf_uplinks m ! pos)"
    by (auto simp: manifest_forget_def Let_def split: option.splits if_splits)
  from pos obtain xs b ys where "mf_uplinks m = xs @ b # ys" "mf_uplinks m ! pos = b"
    "remove_at pos (mf_uplinks m) = xs @ ys" "bi_name b = n"
    by (rule position_split)
  with m' r that show thesis by simp
qed

lemma step_bindings_ok: "manifest_step m a m' \<Longrightarrow> bindings_ok (mf_uplinks m) \<Longrightarrow> bindings_ok (mf_uplinks m')"
proof (induction rule: manifest_step.induct)
  case (step_bind m c)
  then show ?case by (simp add: bind_bindings_ok config_wf_def)
next
  case (step_forget n m m' i)
  from step_forget(1) obtain xs b ys where "mf_uplinks m = xs @ b # ys" "m' = m\<lparr>mf_uplinks := xs @ ys\<rparr>"
    by (rule forget_shape)
  with step_forget(2) show ?case by (auto simp: bindings_ok_def sorted_append)
qed (simp add: record_sysctl_def)

lemma step_keeps_bound:
  "manifest_step m a m' \<Longrightarrow> a \<noteq> Forget n \<Longrightarrow> bound m i n \<Longrightarrow> bound m' i n"
proof (induction rule: manifest_step.induct)
  case (step_bind m c)
  then show ?case by (simp add: bind_keeps_bound)
next
  case (step_forget n' m m' j)
  from step_forget(1) obtain xs b ys where "mf_uplinks m = xs @ b # ys" "m' = m\<lparr>mf_uplinks := xs @ ys\<rparr>" "bi_name b = n'"
    by (rule forget_shape)
  with step_forget(2,3) show ?case by (auto simp: bound_def)
qed (simp add: record_sysctl_def bound_def)

lemma steps_bindings_ok: "manifest_steps m as m' \<Longrightarrow> bindings_ok (mf_uplinks m) \<Longrightarrow> bindings_ok (mf_uplinks m')"
  by (induction rule: manifest_steps.induct) (auto dest: step_bindings_ok)

lemma steps_keep_bound: "manifest_steps m as m' \<Longrightarrow> Forget n \<notin> set as \<Longrightarrow> bound m i n \<Longrightarrow> bound m' i n"
proof (induction rule: manifest_steps.induct)
  case (steps_more m a m' as m'')
  then have "bound m' i n" using step_keeps_bound [of m a m' n i] by auto
  with steps_more show ?case by simp
qed simp

lemma new_bindings_ok: "config_wf c \<Longrightarrow> bindings_ok (mf_uplinks (manifest_new c))"
  unfolding manifest_new_def Let_def
  by (rule bind_bindings_ok)
    (auto simp: bindings_ok_def config_wf_def manifest_check_def config_structural_def)

lemma bind_binds:
  assumes "manifest_check m c = []" "distinct (map u_id (c_uplinks c))" "u \<in> set (c_uplinks c)"
  shows "bound (manifest_bind c m) (id_get (u_id u)) (u_name u)"
proof -
  let ?bs = "fold bind_uplink (c_uplinks c) (map (mark_removed c) (mf_uplinks m))"
  from fold_bind_covers [OF assms(3)] obtain b where b: "b \<in> set ?bs" "bi_id b = id_get (u_id u)" by blast
  from fold_bind_members [OF b(1)] have "bi_name b = u_name u"
  proof
    assume "b \<in> set (map (mark_removed c) (mf_uplinks m))"
    with assms(1,3) b(2) show ?thesis by (auto simp: check_empty_iff)
  next
    assume "\<exists>v\<in>set (c_uplinks c). b = \<lparr>bi_id = id_get (u_id v), bi_name = u_name v, bi_removed = False\<rparr>"
    then obtain v where v: "v \<in> set (c_uplinks c)" "b = \<lparr>bi_id = id_get (u_id v), bi_name = u_name v, bi_removed = False\<rparr>"
      by blast
    with b(2) have "u_id v = u_id u" by (simp add: uplink_id.expand)
    with assms(2,3) v(1) have "v = u" by (auto simp: distinct_map dest: inj_onD)
    with v(2) show ?thesis by simp
  qed
  with b show ?thesis
    unfolding bound_def bind_uplinks by (intro image_eqI [where x = b]) simp_all
qed

text \<open>
  C9. Uplink ids are never reused: once an id is bound to a name, whatever configurations the daemon
  then starts or reloads with and whatever other uplinks are forgotten, the binding stays until that
  name is forgotten, and every configuration that is accepted gives the id to that name and to no
  other. The recorded ids and names stay unique.
\<close>

theorem binding_kept_until_forgotten:
  assumes "config_wf c0" "manifest_steps (manifest_new c0) as m" "manifest_steps m as' m'"
    and "bound m i n" "Forget n \<notin> set as'"
  shows "bound m' i n \<and> bindings_ok (mf_uplinks m') \<and>
    (\<forall>c u. manifest_check m' c = [] \<and> u \<in> set (c_uplinks c) \<longrightarrow> (id_get (u_id u) = i \<longleftrightarrow> u_name u = n))"
proof -
  have "bindings_ok (mf_uplinks m)" using steps_bindings_ok [OF assms(2) new_bindings_ok [OF assms(1)]] .
  then have ok: "bindings_ok (mf_uplinks m')" by (rule steps_bindings_ok [OF assms(3)])
  have b: "bound m' i n" by (rule steps_keep_bound [OF assms(3,5,4)])
  then obtain x where x: "x \<in> set (mf_uplinks m')" "bi_id x = i" "bi_name x = n" by (auto simp: bound_def)
  then have "id_get (u_id u) = i \<longleftrightarrow> u_name u = n"
    if "manifest_check m' c = []" "u \<in> set (c_uplinks c)" for c u
    using that unfolding check_empty_iff by metis
  with ok b show ?thesis by blast
qed

definition example_smaller :: config where
  "example_smaller = example_config\<lparr>c_uplinks := [example_uplink 1 ''a'' 1]\<rparr>"

lemma example_new_uplinks:
  "mf_uplinks (manifest_new example_config) =
     [\<lparr>bi_id = 1, bi_name = ''a'', bi_removed = False\<rparr>, \<lparr>bi_id = 2, bi_name = ''b'', bi_removed = False\<rparr>]"
  by (simp add: manifest_new_def Let_def bind_uplinks example_config_uplinks bind_uplink_def example_uplink_def
      word_le_iff_unat)

theorem binding_kept_until_forgotten_witness:
  "manifest_check (manifest_new example_config) example_smaller = [] \<and>
   bound (manifest_bind example_smaller (manifest_new example_config)) 2 ''b''"
proof -
  let ?m = "manifest_new example_config"
  have wf: "config_wf example_smaller"
    using example_config_wf
    by (simp add: config_wf_def example_smaller_def uplinks_wf_def example_config_uplinks)
  have same: "recorded_from (config_structural example_smaller) = mf_structure ?m"
    by (simp add: manifest_new_def Let_def bind_uplinks example_smaller_def config_structural_def)
  have check: "manifest_check ?m example_smaller = []"
    unfolding check_empty_iff same example_new_uplinks
    by (simp add: example_smaller_def example_uplink_def)
  have steps: "manifest_steps ?m [Bind example_smaller] (manifest_bind example_smaller ?m)"
    by (intro steps_more [OF step_bind [OF check wf]] steps_done)
  have b: "bound ?m 2 ''b''" by (simp add: bound_def example_new_uplinks)
  show ?thesis
    using binding_kept_until_forgotten [OF example_config_wf steps_done steps b] check by simp
qed

end
