(* ===== verification/Sysctl.thy ===== *)
theory Sysctl
  imports Manifest Accepted
begin

text \<open>
  System settings (\<open>sysctl.rs\<close>): which settings a configuration wants, the differences from the
  running system, recording their baselines in the manifest, and giving them back. The files below
  \<open>/proc/sys\<close> belong to the kernel: reading and writing them are parameters, with the state of the
  system as an argument.
\<close>

section \<open>Data\<close>

datatype io_kind = NotFound | InvalidInput | OtherKind string

datatype io_error = IoError (io_kind_of: io_kind) (io_message: string)

record setting =
  se_key :: string
  se_value :: string
  se_interface :: "string option"
  se_family :: "family option"

record difference =
  df_setting :: setting
  df_current :: string

record 'w sysctl_env =
  sys_read :: "string \<Rightarrow> 'w \<Rightarrow> io_error + string"
  sys_write :: "string \<Rightarrow> string \<Rightarrow> 'w \<Rightarrow> 'w \<times> (io_error + unit)"

definition dotted :: "string \<Rightarrow> string" where
  "dotted key = map (\<lambda>c. if c = CHR ''/'' then CHR ''.'' else c) key"

section \<open>Wanted settings\<close>

definition global_setting :: "string \<Rightarrow> string \<Rightarrow> family \<Rightarrow> setting" where
  "global_setting key v f = \<lparr>se_key = key, se_value = v, se_interface = None, se_family = Some f\<rparr>"

definition per_interface :: "family \<Rightarrow> string \<Rightarrow> string \<Rightarrow> string \<Rightarrow> setting" where
  "per_interface f interface name v =
     (let dir = if f = V4 then ''ipv4'' else ''ipv6''
      in \<lparr>se_key = ''net/'' @ dir @ ''/conf/'' @ interface @ ''/'' @ name, se_value = v,
          se_interface = Some interface, se_family = Some f\<rparr>)"

definition uplink_settings :: "bool \<Rightarrow> bool \<Rightarrow> uplink \<Rightarrow> setting list" where
  "uplink_settings v4 v6 u =
     (if v4 then [per_interface V4 (u_interface u) ''rp_filter'' ''2'',
                  per_interface V4 (u_interface u) ''src_valid_mark'' ''1'',
                  per_interface V4 (u_interface u) ''ignore_routes_with_linkdown'' ''1''] else [])
     @ (if v6 then [per_interface V6 (u_interface u) ''ignore_routes_with_linkdown'' ''1''] else [])"

definition desired_settings :: "config \<Rightarrow> setting list" where
  "desired_settings c =
     (let v4 = config_manages c V4; v6 = config_manages c V6
      in (if v4 then [global_setting ''net/ipv4/ip_forward'' ''1'' V4,
                      global_setting ''net/ipv4/fib_multipath_hash_policy'' ''1'' V4] else [])
         @ (if v6 then [global_setting ''net/ipv6/conf/all/forwarding'' ''1'' V6,
                        global_setting ''net/ipv6/fib_multipath_hash_policy'' ''1'' V6] else [])
         @ concat (map (uplink_settings v4 v6) (c_uplinks c)))"

definition valid_key :: "string \<Rightarrow> bool" where
  "valid_key key =
     (case strip_prefix ''net/'' key of
        None \<Rightarrow> False
      | Some rest \<Rightarrow> list_all (\<lambda>c. c \<noteq> [] \<and> c \<noteq> ''.'' \<and> c \<noteq> ''..'') (split_on CHR ''/'' rest))"

text \<open>\<open>StateDir::manifest\<close>: a manifest with a key that names anything else is corrupt.\<close>

definition manifest_keys_ok :: "manifest \<Rightarrow> bool" where
  "manifest_keys_ok m \<longleftrightarrow> list_all valid_key (map fst (mf_sysctl_baseline m) @ map fst (mf_sysctl_set m))"

definition key_family :: "string \<Rightarrow> family option" where
  "key_family key =
     (if strip_prefix ''net/ipv4/'' key \<noteq> None then Some V4
      else if strip_prefix ''net/ipv6/'' key \<noteq> None then Some V6
      else None)"

section \<open>Recording and restoring\<close>

fun differences :: "(string \<Rightarrow> io_error + string) \<Rightarrow> setting list \<Rightarrow> io_error + difference list" where
  "differences rd [] = Inr []"
| "differences rd (s # ss) =
     (case rd (se_key s) of
        Inr current \<Rightarrow>
          if current = se_value s then differences rd ss
          else (case differences rd ss of
                  Inl e \<Rightarrow> Inl e
                | Inr ds \<Rightarrow> Inr (\<lparr>df_setting = s, df_current = current\<rparr> # ds))
      | Inl e \<Rightarrow>
          if io_kind_of e = NotFound \<and> se_interface s \<noteq> None then differences rd ss
          else Inl (IoError (io_kind_of e) (dotted (se_key s) @ '': '' @ io_message e)))"

definition record_differences :: "difference list \<Rightarrow> manifest \<Rightarrow> manifest" where
  "record_differences ds m =
     fold (\<lambda>d. record_sysctl (se_key (df_setting d)) (df_current d) (se_value (df_setting d))) ds m"

definition restore_step ::
  "('w, 'a) sysctl_env_scheme \<Rightarrow> manifest \<Rightarrow> (string \<Rightarrow> bool) \<Rightarrow> string \<times> string \<Rightarrow>
     'w \<times> (string \<times> (io_error + unit)) list \<Rightarrow> 'w \<times> (string \<times> (io_error + unit)) list" where
  "restore_step env m keys e st =
     (let key = fst e; value = snd e; w = fst st; v = snd st
      in if \<not> keys key then st
         else case btm_get (mf_sysctl_baseline m) key of
           None \<Rightarrow> st
         | Some baseline \<Rightarrow>
             (case sys_read env key w of
                Inr current \<Rightarrow>
                  if current = value \<and> baseline \<noteq> value
                  then (case sys_write env key baseline w of (w', r) \<Rightarrow> (w', v @ [(key, r)]))
                  else st
              | Inl x \<Rightarrow> if io_kind_of x = NotFound then st else (w, v @ [(key, Inl x)])))"

definition restore ::
  "('w, 'a) sysctl_env_scheme \<Rightarrow> manifest \<Rightarrow> (string \<Rightarrow> bool) \<Rightarrow> 'w \<Rightarrow> 'w \<times> (string \<times> (io_error + unit)) list" where
  "restore env m keys w = fold (restore_step env m keys) (mf_sysctl_set m) (w, [])"

record handoff =
  ho_restored :: "string list"
  ho_released :: "string list"
  ho_failed :: "(string \<times> io_error) list"

definition hand_back_outcome :: "('w, 'a) sysctl_env_scheme \<Rightarrow> manifest \<Rightarrow> string \<Rightarrow> 'w \<Rightarrow> 'w \<times> (io_error + bool)" where
  "hand_back_outcome env m key w =
     (let value = the (btm_get (mf_sysctl_set m) key); baseline = btm_get (mf_sysctl_baseline m) key
      in case sys_read env key w of
           Inl e \<Rightarrow> if io_kind_of e = NotFound then (w, Inr False) else (w, Inl e)
         | Inr current \<Rightarrow>
             if current \<noteq> value then (w, Inr False)
             else (case baseline of
                     Some b \<Rightarrow>
                       if b \<noteq> value
                       then (case sys_write env key b w of (w', r) \<Rightarrow> (w', map_sum id (\<lambda>_. True) r))
                       else (w, Inr True)
                   | None \<Rightarrow> (w, Inr True)))"

definition hand_back_step ::
  "('w, 'a) sysctl_env_scheme \<Rightarrow> string \<Rightarrow> manifest \<times> 'w \<times> handoff \<Rightarrow> manifest \<times> 'w \<times> handoff" where
  "hand_back_step env key st =
     (case st of (m, w, h) \<Rightarrow>
      case hand_back_outcome env m key w of
        (w', Inl e) \<Rightarrow> (m, w', h\<lparr>ho_failed := ho_failed h @ [(key, e)]\<rparr>)
      | (w', Inr restored) \<Rightarrow>
          (m\<lparr>mf_sysctl_set := btm_remove key (mf_sysctl_set m),
             mf_sysctl_baseline := btm_remove key (mf_sysctl_baseline m)\<rparr>,
           w',
           if restored then h\<lparr>ho_restored := ho_restored h @ [key]\<rparr>
           else h\<lparr>ho_released := ho_released h @ [key]\<rparr>))"

definition hand_back ::
  "('w, 'a) sysctl_env_scheme \<Rightarrow> family \<Rightarrow> manifest \<Rightarrow> 'w \<Rightarrow> manifest \<times> 'w \<times> handoff" where
  "hand_back env f m w =
     fold (hand_back_step env) (filter (\<lambda>k. key_family k = Some f) (map fst (mf_sysctl_set m)))
       (m, w, \<lparr>ho_restored = [], ho_released = [], ho_failed = []\<rparr>)"

definition departed :: "manifest \<Rightarrow> config \<Rightarrow> family list" where
  "departed m c =
     filter (\<lambda>f. \<not> config_manages c f \<and> list_ex (\<lambda>k. key_family k = Some f) (map fst (mf_sysctl_set m)))
       all_families"

section \<open>What the kernel promises\<close>

text \<open>
  On a set of settings that do not influence each other: a write that succeeds is read back, a write
  that fails changes nothing, and a write leaves the other settings alone.
\<close>

definition sysctl_laws :: "('w, 'a) sysctl_env_scheme \<Rightarrow> string set \<Rightarrow> bool" where
  "sysctl_laws env K \<longleftrightarrow>
     (\<forall>key\<in>K. \<forall>v w.
        (case sys_write env key v w of
           (w', Inr _) \<Rightarrow> sys_read env key w' = Inr v
         | (w', Inl _) \<Rightarrow> sys_read env key w' = sys_read env key w) \<and>
        (\<forall>k\<in>K. k \<noteq> key \<longrightarrow> sys_read env k (fst (sys_write env key v w)) = sys_read env k w))"

lemma write_other:
  "sysctl_laws env K \<Longrightarrow> key \<in> K \<Longrightarrow> k \<in> K \<Longrightarrow> k \<noteq> key \<Longrightarrow>
   sys_read env k (fst (sys_write env key v w)) = sys_read env k w"
  by (simp add: sysctl_laws_def)

lemma write_same:
  "sysctl_laws env K \<Longrightarrow> key \<in> K \<Longrightarrow> sys_write env key v w = (w', Inr u) \<Longrightarrow> sys_read env key w' = Inr v"
  unfolding sysctl_laws_def by (metis (mono_tags, lifting) case_prod_conv sum.case(2))

section \<open>Restoring\<close>

definition all_ok :: "(string \<times> (io_error + unit)) list \<Rightarrow> bool" where
  "all_ok rs \<longleftrightarrow> list_all (\<lambda>r. snd r = Inr ()) rs"

definition restored_value :: "manifest \<Rightarrow> (string \<Rightarrow> bool) \<Rightarrow> string \<times> string \<Rightarrow> io_error + string \<Rightarrow> io_error + string" where
  "restored_value m keys e current =
     (case btm_get (mf_sysctl_baseline m) (fst e) of
        Some b \<Rightarrow> if keys (fst e) \<and> current = Inr (snd e) then Inr b else current
      | None \<Rightarrow> current)"

lemma restore_step_grows: "\<exists>rs. snd (restore_step env m keys e st) = snd st @ rs"
  by (auto simp: restore_step_def Let_def split: option.split sum.split prod.split)

lemma restore_step_ok: "all_ok (snd (restore_step env m keys e st)) \<Longrightarrow> all_ok (snd st)"
  using restore_step_grows [of env m keys e st] by (auto simp: all_ok_def)

lemma fold_restore_ok: "all_ok (snd (fold (restore_step env m keys) es st)) \<Longrightarrow> all_ok (snd st)"
proof (induction es arbitrary: st)
  case (Cons e es)
  then show ?case using restore_step_ok [of env m keys e st] by simp
qed simp

lemma restore_step_same:
  assumes "sysctl_laws env K" "fst e \<in> K" "all_ok (snd (restore_step env m keys e st))"
  shows "sys_read env (fst e) (fst (restore_step env m keys e st)) = restored_value m keys e (sys_read env (fst e) (fst st))"
proof (cases "\<exists>b. keys (fst e) \<and> btm_get (mf_sysctl_baseline m) (fst e) = Some b \<and> sys_read env (fst e) (fst st) = Inr (snd e) \<and> b \<noteq> snd e")
  case False
  then show ?thesis
    by (auto simp: restore_step_def restored_value_def Let_def split: option.split sum.split prod.split)
next
  case True
  then obtain b where b: "keys (fst e)" "btm_get (mf_sysctl_baseline m) (fst e) = Some b"
    "sys_read env (fst e) (fst st) = Inr (snd e)" "b \<noteq> snd e" by blast
  obtain w' r where w: "sys_write env (fst e) b (fst st) = (w', r)" by (rule prod.exhaust)
  with b have st: "restore_step env m keys e st = (w', snd st @ [(fst e, r)])"
    by (simp add: restore_step_def Let_def)
  with assms(3) obtain u where "r = Inr u" by (cases r) (auto simp: all_ok_def)
  with write_same [OF assms(1,2)] w b st show ?thesis by (simp add: restored_value_def)
qed

lemma restore_step_other:
  assumes "sysctl_laws env K" "fst e \<in> K" "k \<in> K" "k \<noteq> fst e"
  shows "sys_read env k (fst (restore_step env m keys e st)) = sys_read env k (fst st)"
  using write_other [OF assms]
  by (auto simp: restore_step_def Let_def split: option.split sum.split prod.split) (metis fst_conv)

lemma fold_restore_read:
  assumes "sysctl_laws env K" "fst ` set es \<subseteq> K" "distinct (map fst es)" "k \<in> K"
    and "all_ok (snd (fold (restore_step env m keys) es st))"
  shows "sys_read env k (fst (fold (restore_step env m keys) es st)) =
    (case map_of es k of
       None \<Rightarrow> sys_read env k (fst st)
     | Some v \<Rightarrow> restored_value m keys (k, v) (sys_read env k (fst st)))"
  using assms(2,3,5)
proof (induction es arbitrary: st)
  case (Cons e es)
  let ?st = "restore_step env m keys e st"
  have ok: "all_ok (snd ?st)" using Cons.prems(3) fold_restore_ok [of env m keys es ?st] by simp
  have IH: "sys_read env k (fst (fold (restore_step env m keys) es ?st)) =
      (case map_of es k of None \<Rightarrow> sys_read env k (fst ?st) | Some v \<Rightarrow> restored_value m keys (k, v) (sys_read env k (fst ?st)))"
    using Cons by simp
  show ?case
  proof (cases "k = fst e")
    case True
    then have "map_of es k = None" using Cons.prems(2) by (simp add: map_of_eq_None_iff)
    with IH True restore_step_same [OF assms(1) _ ok] Cons.prems(1) show ?thesis by (cases e) simp
  next
    case False
    then have other: "sys_read env k (fst ?st) = sys_read env k (fst st)"
      using restore_step_other [OF assms(1) _ assms(4) False] Cons.prems(1) by simp
    have "map_of (e # es) k = map_of es k" using False by (cases e) simp
    with IH [unfolded other] show ?thesis by simp
  qed
qed simp

lemma restore_read:
  assumes "sysctl_laws env K" "fst ` set (mf_sysctl_set m) \<subseteq> K" "btm_wf (mf_sysctl_set m)" "k \<in> K"
    and "restore env m keys w = (w', rs)" "all_ok rs"
  shows "sys_read env k w' =
    (case btm_get (mf_sysctl_set m) k of
       None \<Rightarrow> sys_read env k w
     | Some v \<Rightarrow> restored_value m keys (k, v) (sys_read env k w))"
  using fold_restore_read [OF assms(1,2) btm_wf_distinct [OF assms(3)] assms(4), of m keys "(w, [])", unfolded fst_conv] assms(5,6)
  by (simp add: restore_def btm_get_def)

section \<open>Recording\<close>

lemma record_sysctl_simps:
  "mf_sysctl_set (record_sysctl k p v m) = btm_insert k v (mf_sysctl_set m)"
  "mf_sysctl_baseline (record_sysctl k p v m) =
     (if btm_contains (mf_sysctl_baseline m) k then mf_sysctl_baseline m else btm_insert k p (mf_sysctl_baseline m))"
  by (simp_all add: record_sysctl_def)

definition settings_wf :: "manifest \<Rightarrow> bool" where
  "settings_wf m \<longleftrightarrow>
     btm_wf (mf_sysctl_set m) \<and> btm_wf (mf_sysctl_baseline m) \<and>
     fst ` set (mf_sysctl_set m) \<subseteq> fst ` set (mf_sysctl_baseline m)"

lemma record_wf: "settings_wf m \<Longrightarrow> settings_wf (record_sysctl k p v m)"
  by (auto simp: settings_wf_def record_sysctl_simps btm_wf_insert btm_contains_def btm_get_None)

lemma record_differences_wf: "settings_wf m \<Longrightarrow> settings_wf (record_differences ds m)"
  unfolding record_differences_def by (induction ds arbitrary: m) (simp_all add: record_wf)

lemma record_set:
  assumes "settings_wf m" "distinct (map (\<lambda>d. se_key (df_setting d)) ds)"
  shows "btm_get (mf_sysctl_set (record_differences ds m)) k =
    (case find (\<lambda>d. se_key (df_setting d) = k) ds of
       Some d \<Rightarrow> Some (se_value (df_setting d))
     | None \<Rightarrow> btm_get (mf_sysctl_set m) k)"
  using assms
proof (induction ds arbitrary: m)
  case (Cons d ds)
  let ?k = "se_key (df_setting d)"
  have none: "find (\<lambda>d. se_key (df_setting d) = ?k) ds = None"
    using Cons.prems(2) by (auto simp: find_None_iff_mem image_iff)
  from Cons.IH [OF record_wf [OF Cons.prems(1)]] Cons.prems none show ?case
    by (auto simp: record_differences_def record_sysctl_simps btm_get_insert settings_wf_def split: option.splits)
qed (simp add: record_differences_def)

lemma record_baseline:
  assumes "settings_wf m" "distinct (map (\<lambda>d. se_key (df_setting d)) ds)"
  shows "btm_get (mf_sysctl_baseline (record_differences ds m)) k =
    (case btm_get (mf_sysctl_baseline m) k of
       Some b \<Rightarrow> Some b
     | None \<Rightarrow> map_option df_current (find (\<lambda>d. se_key (df_setting d) = k) ds))"
  using assms
proof (induction ds arbitrary: m)
  case (Cons d ds)
  let ?k = "se_key (df_setting d)"
  have none: "find (\<lambda>d. se_key (df_setting d) = ?k) ds = None"
    using Cons.prems(2) by (auto simp: find_None_iff_mem image_iff)
  from Cons.IH [OF record_wf [OF Cons.prems(1)]] Cons.prems none show ?case
    by (auto simp: record_differences_def record_sysctl_simps btm_get_insert btm_contains_def settings_wf_def
        split: option.splits if_splits)
qed (simp add: record_differences_def split: option.split)

section \<open>The settings of an accepted configuration\<close>

lemma interface_component:
  assumes "interface_ok i"
  shows "i \<noteq> []" "i \<noteq> ''.''" "i \<noteq> ''..''" "CHR ''/'' \<notin> set i"
  using assms
  by (auto simp: interface_ok_def check_interface_name_def list_all_iff is_ascii_alphanumeric_def char_in_def
      is_ascii_digit_def split: if_splits dest!: bspec [of _ _ "CHR ''/''"])

lemma per_interface_valid:
  assumes "interface_ok i" "name \<in> {''rp_filter'', ''src_valid_mark'', ''ignore_routes_with_linkdown''}"
  shows "valid_key (se_key (per_interface f i name v))"
proof -
  have "split_on CHR ''/'' ((if f = V4 then ''ipv4'' else ''ipv6'') @ ''/conf/'' @ i @ ''/'' @ name) =
      [if f = V4 then ''ipv4'' else ''ipv6'', ''conf'', i, name]"
    using assms(2) split_on_append [OF interface_component(4) [OF assms(1)], of name]
    by (auto simp: split_on_last)
  then show ?thesis
    using interface_component [OF assms(1)] assms(2)
    by (auto simp: valid_key_def per_interface_def strip_prefix_def)
qed

lemma desired_settings_cases:
  assumes "config_ok c" "s \<in> set (desired_settings c)"
  obtains "se_family s = Some V4" "se_key s \<in> {''net/ipv4/ip_forward'', ''net/ipv4/fib_multipath_hash_policy''}"
  | "se_family s = Some V6" "se_key s \<in> {''net/ipv6/conf/all/forwarding'', ''net/ipv6/fib_multipath_hash_policy''}"
  | f u name v where "s = per_interface f (u_interface u) name v" "u \<in> set (c_uplinks c)" "interface_ok (u_interface u)"
      "name \<in> {''rp_filter'', ''src_valid_mark'', ''ignore_routes_with_linkdown''}"
  using assms that
  by (auto simp: desired_settings_def uplink_settings_def global_setting_def config_ok_def list_all_iff uplink_ok_def
      Let_def split: if_splits)

lemma desired_valid:
  assumes "config_ok c" "s \<in> set (desired_settings c)"
  shows "valid_key (se_key s)"
  using assms
proof (cases rule: desired_settings_cases)
  case (3 f u name v)
  then show ?thesis using per_interface_valid by simp
qed (auto simp: valid_key_def strip_prefix_def)

lemma record_sysctl_keys_ok:
  "valid_key k \<Longrightarrow> manifest_keys_ok m \<Longrightarrow> settings_wf m \<Longrightarrow> manifest_keys_ok (record_sysctl k p v m)"
  by (auto simp: manifest_keys_ok_def record_sysctl_simps list_all_iff)

lemma differences_from: "differences rd ss = Inr ds \<Longrightarrow> d \<in> set ds \<Longrightarrow> df_setting d \<in> set ss"
  by (induction ss arbitrary: ds) (auto split: sum.splits if_splits)

text \<open>
  C31. The settings an accepted configuration asks for can always be recorded: their keys are
  well-formed, stay below \<open>net/\<close> and belong to a family, and recording any differences found in them in a
  manifest that reads back gives a manifest that reads back.
\<close>

theorem recorded_keys_read_back:
  assumes "nets_ok nets" "validate nets render src raw = Some (Inr c)"
    and "differences rd (desired_settings c) = Inr ds" "settings_wf m" "manifest_keys_ok m"
  shows "manifest_keys_ok (record_differences ds m) \<and> settings_wf (record_differences ds m) \<and>
    (\<forall>s\<in>set (desired_settings c). valid_key (se_key s) \<and> key_family (se_key s) = se_family s)"
proof -
  note ok = validate_accepted(1) [OF assms(1,2)]
  have "valid_key (se_key (df_setting d))" if "d \<in> set ds" for d
    by (rule desired_valid [OF ok differences_from [OF assms(3) that]])
  then have "manifest_keys_ok (record_differences ds m) \<and> settings_wf (record_differences ds m)"
    using assms(4,5) unfolding record_differences_def
    by (induction ds arbitrary: m) (simp_all add: record_sysctl_keys_ok record_wf)
  moreover have "key_family (se_key s) = se_family s" if "s \<in> set (desired_settings c)" for s
    using ok that
  proof (cases rule: desired_settings_cases)
    case (3 f u name v)
    then show ?thesis by (cases f) (simp_all add: per_interface_def key_family_def strip_prefix_def)
  qed (auto simp: key_family_def strip_prefix_def global_setting_def)
  ultimately show ?thesis using desired_valid [OF ok] by blast
qed

theorem recorded_keys_read_back_witness:
  "\<exists>ds. differences (\<lambda>_. Inr ''0'') (desired_settings example_accepted) = Inr ds \<and> length ds = 5 \<and>
     manifest_keys_ok (record_differences ds (manifest_new example_accepted))"
proof -
  have nets: "nets_ok example_nets" by (simp add: nets_ok_def example_nets_def)
  have m: "settings_wf (manifest_new example_accepted)" "manifest_keys_ok (manifest_new example_accepted)"
    by (simp_all add: settings_wf_def manifest_keys_ok_def manifest_new_def Let_def manifest_bind_def)
  have "differences (\<lambda>_. Inr ''0'') (desired_settings example_accepted) =
      Inr (map (\<lambda>s. \<lparr>df_setting = s, df_current = ''0''\<rparr>) (desired_settings example_accepted)) \<and>
      length (desired_settings example_accepted) = 5"
    by (simp add: desired_settings_def example_accepted_def config_manages_def Let_def uplink_settings_def
        global_setting_def per_interface_def)
  with recorded_keys_read_back [OF nets example_validated _ m] show ?thesis by fastforce
qed

end
