(* ===== verification/Persist.thy ===== *)
theory Persist
  imports Sysctl
begin

text \<open>
  The persistence lane (\<open>worker.rs\<close>): the jobs that change the manifest, the other state files and the
  system settings, run one at a time on the lane's copy of the manifest. What the jobs do to the
  machine goes through an environment of operations on its state; writing a state file is atomic
  (\<open>write_atomic\<close>), which is what the environment promises of it.
\<close>

section \<open>Jobs\<close>

record 'w persist_env = "'w sysctl_env" +
  pe_write_manifest :: "manifest \<Rightarrow> 'w \<Rightarrow> 'w \<times> (string + unit)"
  pe_write_drain :: "drain_state \<Rightarrow> 'w \<Rightarrow> 'w \<times> (string + unit)"
  pe_write_checkpoint :: "checkpoint \<Rightarrow> 'w \<Rightarrow> 'w \<times> (string + unit)"

datatype sysctl_scope = GlobalScope | InterfaceScope string

datatype persist_job =
  SysctlsJob u64 sysctl_scope "setting list" bool
| BindJob u64 config "drain_state option"
| HandBackJob u64 "family list"
| DrainJob u64 drain_state
| ForgetJob u64 string
| CheckpointJob checkpoint
| GatewayWarningJob string string string

datatype bind_error = BindConflict manifest_conflict | BindWrite string

datatype forget_failure = ForgetRefused forget_error | ForgetWrite string

datatype done_report =
  SysctlsDone u64 sysctl_scope "string + unit" manifest
| BoundDone u64 "bind_error list + unit" manifest
| HandedBackDone u64 "string list + unit" manifest
| DrainedDone u64 "string + unit"
| ForgottenDone u64 "forget_failure + u8" manifest

fun write_settings :: "('w, 'a) sysctl_env_scheme \<Rightarrow> difference list \<Rightarrow> 'w \<Rightarrow> 'w \<times> (string + unit)" where
  "write_settings env [] w = (w, Inr ())"
| "write_settings env (d # ds) w =
     (case sys_write env (se_key (df_setting d)) (se_value (df_setting d)) w of
        (w', Inl e) \<Rightarrow> (w', Inl (dotted (se_key (df_setting d)) @ '': '' @ io_message e))
      | (w', Inr _) \<Rightarrow> write_settings env ds w')"

definition apply_sysctls ::
  "'w persist_env \<Rightarrow> setting list \<Rightarrow> bool \<Rightarrow> manifest \<Rightarrow> 'w \<Rightarrow> (string + unit) \<times> manifest \<times> 'w" where
  "apply_sysctls env settings manage m w =
     (case differences (\<lambda>k. sys_read env k w) settings of
        Inl e \<Rightarrow> (if \<not> manage then Inr () else Inl (io_message e), m, w)
      | Inr ds \<Rightarrow>
          if ds = [] \<or> \<not> manage then (Inr (), m, w)
          else
            let recorded = record_differences ds m;
                written = (if recorded \<noteq> m
                           then (case pe_write_manifest env recorded w of
                                   (w', Inl e) \<Rightarrow> (w', Inl e)
                                 | (w', Inr _) \<Rightarrow> (w', Inr recorded))
                           else (w, Inr m))
            in case written of
                 (w1, Inl e) \<Rightarrow> (Inl e, m, w1)
               | (w1, Inr m1) \<Rightarrow> (case write_settings env ds w1 of (w2, r) \<Rightarrow> (r, m1, w2)))"

definition bind_job :: "'w persist_env \<Rightarrow> config \<Rightarrow> drain_state option \<Rightarrow> manifest \<Rightarrow> 'w \<Rightarrow>
    (bind_error list + unit) \<times> manifest \<times> 'w" where
  "bind_job env c drain m w =
     (if manifest_check m c \<noteq> [] then (Inl (map BindConflict (manifest_check m c)), m, w)
      else
        let bnd = manifest_bind c m
        in case pe_write_manifest env bnd w of
             (w1, Inl e) \<Rightarrow> (Inl [BindWrite e], m, w1)
           | (w1, Inr _) \<Rightarrow>
               (case drain of
                  None \<Rightarrow> (Inr (), bnd, w1)
                | Some d \<Rightarrow>
                    (case pe_write_drain env d w1 of
                       (w2, Inl e) \<Rightarrow> (Inl [BindWrite e], bnd, w2)
                     | (w2, Inr _) \<Rightarrow> (Inr (), bnd, w2))))"

definition hand_back_family ::
  "'w persist_env \<Rightarrow> family \<Rightarrow> manifest \<times> 'w \<times> string list \<Rightarrow> manifest \<times> 'w \<times> string list" where
  "hand_back_family env f st =
     (case st of (m, w, failures) \<Rightarrow>
      case hand_back env f m w of (m', w', h) \<Rightarrow>
        (m', w', failures @ map (\<lambda>(k, e). dotted k @ '': '' @ io_message e) (ho_failed h)))"

definition hand_back_job ::
  "'w persist_env \<Rightarrow> family list \<Rightarrow> manifest \<Rightarrow> 'w \<Rightarrow> (string list + unit) \<times> manifest \<times> 'w" where
  "hand_back_job env families m w =
     (case fold (hand_back_family env) families (m, w, []) of (m1, w1, failures) \<Rightarrow>
      case pe_write_manifest env m1 w1 of (w2, r) \<Rightarrow>
        let failures' = failures @ (case r of Inl e \<Rightarrow> [''manifest: '' @ e] | Inr _ \<Rightarrow> [])
        in (if failures' = [] then Inr () else Inl failures', m1, w2))"

definition forget_job ::
  "'w persist_env \<Rightarrow> string \<Rightarrow> manifest \<Rightarrow> 'w \<Rightarrow> (forget_failure + u8) \<times> manifest \<times> 'w" where
  "forget_job env uplink m w =
     (case manifest_forget uplink m of
        (released, Inl e) \<Rightarrow> (Inl (ForgetRefused e), m, w)
      | (released, Inr i) \<Rightarrow>
          (case pe_write_manifest env released w of
             (w', Inl e) \<Rightarrow> (Inl (ForgetWrite e), m, w')
           | (w', Inr _) \<Rightarrow> (Inr (id_get i), released, w')))"

fun persist :: "'w persist_env \<Rightarrow> persist_job \<Rightarrow> manifest \<Rightarrow> 'w \<Rightarrow> done_report option \<times> manifest \<times> 'w" where
  "persist env (SysctlsJob seq scope settings manage) m w =
     (case apply_sysctls env settings manage m w of (r, m', w') \<Rightarrow> (Some (SysctlsDone seq scope r m'), m', w'))"
| "persist env (BindJob seq c drain) m w =
     (case bind_job env c drain m w of (r, m', w') \<Rightarrow> (Some (BoundDone seq r m'), m', w'))"
| "persist env (HandBackJob seq families) m w =
     (case hand_back_job env families m w of (r, m', w') \<Rightarrow> (Some (HandedBackDone seq r m'), m', w'))"
| "persist env (DrainJob seq st) m w =
     (case pe_write_drain env st w of (w', r) \<Rightarrow> (Some (DrainedDone seq r), m, w'))"
| "persist env (ForgetJob seq uplink) m w =
     (case forget_job env uplink m w of (r, m', w') \<Rightarrow> (Some (ForgottenDone seq r m'), m', w'))"
| "persist env (CheckpointJob c) m w = (None, m, fst (pe_write_checkpoint env c w))"
| "persist env (GatewayWarningJob u i d) m w = (None, m, w)"

definition run_jobs :: "'w persist_env \<Rightarrow> persist_job list \<Rightarrow> manifest \<times> 'w \<Rightarrow> manifest \<times> 'w" where
  "run_jobs env jobs st = fold (\<lambda>j st. snd (persist env j (fst st) (snd st))) jobs st"

section \<open>Crash safety of the system settings\<close>

text \<open>
  The environment: a write of a setting does not touch the state files; writing the manifest replaces
  the file or leaves it, and has replaced it when it succeeds; state files are not settings.
\<close>

definition persist_laws :: "'w persist_env \<Rightarrow> ('w \<Rightarrow> manifest option) \<Rightarrow> string set \<Rightarrow> bool" where
  "persist_laws env disk K \<longleftrightarrow>
     sysctl_laws env K \<and>
     (\<forall>k v w. disk (fst (sys_write env k v w)) = disk w) \<and>
     (\<forall>m w. case pe_write_manifest env m w of (w', r) \<Rightarrow>
        (disk w' = Some m \<or> disk w' = disk w \<and> r \<noteq> Inr ()) \<and> (\<forall>k\<in>K. sys_read env k w' = sys_read env k w)) \<and>
     (\<forall>d w. disk (fst (pe_write_drain env d w)) = disk w \<and>
        (\<forall>k\<in>K. sys_read env k (fst (pe_write_drain env d w)) = sys_read env k w)) \<and>
     (\<forall>c w. disk (fst (pe_write_checkpoint env c w)) = disk w \<and>
        (\<forall>k\<in>K. sys_read env k (fst (pe_write_checkpoint env c w)) = sys_read env k w))"

text \<open>The same environment, keeping every state the machine goes through.\<close>

definition log_step :: "('w \<Rightarrow> 'w \<times> 'r) \<Rightarrow> 'w \<times> 'w list \<Rightarrow> ('w \<times> 'w list) \<times> 'r" where
  "log_step f st = (case f (fst st) of (w', r) \<Rightarrow> ((w', snd st @ [w']), r))"

definition logged :: "'w persist_env \<Rightarrow> ('w \<times> 'w list) persist_env" where
  "logged env =
     \<lparr>sys_read = (\<lambda>k st. sys_read env k (fst st)),
      sys_write = (\<lambda>k v. log_step (sys_write env k v)),
      pe_write_manifest = (\<lambda>m. log_step (pe_write_manifest env m)),
      pe_write_drain = (\<lambda>d. log_step (pe_write_drain env d)),
      pe_write_checkpoint = (\<lambda>c. log_step (pe_write_checkpoint env c))\<rparr>"

lemma logged_simps [simp]:
  "sys_read (logged env) k st = sys_read env k (fst st)"
  "sys_write (logged env) k v st = log_step (sys_write env k v) st"
  "pe_write_manifest (logged env) m st = log_step (pe_write_manifest env m) st"
  "pe_write_drain (logged env) d st = log_step (pe_write_drain env d) st"
  "pe_write_checkpoint (logged env) c st = log_step (pe_write_checkpoint env c) st"
  by (simp_all add: logged_def)

text \<open>
  The manifest covers the settings: each has its original value, or the program's value and is recorded
  as such, and the recorded baselines are the original values.
\<close>

definition covers ::
  "'w persist_env \<Rightarrow> string set \<Rightarrow> (string \<Rightarrow> io_error + string) \<Rightarrow> (string \<Rightarrow> string) \<Rightarrow> manifest \<Rightarrow> 'w \<Rightarrow> bool" where
  "covers env K orig val m w \<longleftrightarrow>
     settings_wf m \<and> fst ` set (mf_sysctl_set m) \<subseteq> K \<and>
     (\<forall>k\<in>K. \<forall>b. btm_get (mf_sysctl_baseline m) k = Some b \<longrightarrow> orig k = Inr b) \<and>
     (\<forall>k s. btm_get (mf_sysctl_set m) k = Some s \<longrightarrow> s = val k) \<and>
     (\<forall>k\<in>K. sys_read env k w = orig k \<or>
        sys_read env k w = Inr (val k) \<and> btm_get (mf_sysctl_set m) k \<noteq> None)"

definition crash_safe where
  "crash_safe env disk K orig val w \<longleftrightarrow> (\<exists>d. disk w = Some d \<and> covers env K orig val d w)"

definition lane_inv where
  "lane_inv env disk K orig val m w \<longleftrightarrow>
     covers env K orig val m w \<and>
     (\<exists>d. disk w = Some d \<and> covers env K orig val d w \<and>
        (\<forall>k. btm_get (mf_sysctl_set m) k \<noteq> None \<longrightarrow> btm_get (mf_sysctl_set d) k \<noteq> None))"

lemma lane_crash_safe: "lane_inv env disk K orig val m w \<Longrightarrow> crash_safe env disk K orig val w"
  by (auto simp: lane_inv_def crash_safe_def)

lemma covers_baseline:
  assumes "covers env K orig val m w" "btm_get (mf_sysctl_set m) k \<noteq> None"
  obtains b where "btm_get (mf_sysctl_baseline m) k = Some b" "orig k = Inr b" "k \<in> K"
    "btm_get (mf_sysctl_set m) k = Some (val k)"
proof -
  from assms have k: "k \<in> fst ` set (mf_sysctl_set m)" by (simp add: btm_get_None)
  with assms(1) have "k \<in> K" "k \<in> fst ` set (mf_sysctl_baseline m)" by (auto simp: covers_def settings_wf_def)
  then obtain b where "btm_get (mf_sysctl_baseline m) k = Some b" using btm_get_None by fastforce
  with assms \<open>k \<in> K\<close> that show thesis unfolding covers_def by blast
qed

text \<open>Cleanup after a crash gives every setting its original value back.\<close>

lemma covers_restore:
  assumes "sysctl_laws env K" "covers env K orig val m w" "restore env m (\<lambda>_. True) w = (y, rs)" "all_ok rs" "k \<in> K"
  shows "sys_read env k y = orig k"
proof -
  from assms(2) have wf: "btm_wf (mf_sysctl_set m)" and sub: "fst ` set (mf_sysctl_set m) \<subseteq> K"
    by (auto simp: covers_def settings_wf_def)
  note read = restore_read [OF assms(1) sub wf assms(5,3,4)]
  show ?thesis
  proof (cases "btm_get (mf_sysctl_set m) k")
    case None
    with read assms(2,5) show ?thesis by (auto simp: covers_def)
  next
    case (Some s)
    with assms(2) obtain b where b: "btm_get (mf_sysctl_baseline m) k = Some b" "orig k = Inr b"
      "btm_get (mf_sysctl_set m) k = Some (val k)" using covers_baseline [of env K orig val m w k] by auto
    with Some read assms(2,5) show ?thesis by (auto simp: covers_def restored_value_def)
  qed
qed

lemma covers_same_reads:
  assumes "covers env K orig val m w" "\<And>k. k \<in> K \<Longrightarrow> sys_read env k w' = sys_read env k w"
    and "mf_sysctl_set m' = mf_sysctl_set m" "mf_sysctl_baseline m' = mf_sysctl_baseline m"
  shows "covers env K orig val m' w'"
  using assms by (simp add: covers_def settings_wf_def)

lemma covers_write:
  assumes "sysctl_laws env K" "covers env K orig val m w" "k \<in> K" "btm_get (mf_sysctl_set m) k \<noteq> None"
    and "sys_write env k v w = (w', r)" "v = val k \<or> orig k = Inr v"
  shows "covers env K orig val m w'"
proof -
  have other: "sys_read env j w' = sys_read env j w" if "j \<in> K" "j \<noteq> k" for j
    using write_other [OF assms(1,3) that] assms(5) by (metis fst_conv)
  have "sys_read env k w' = Inr v \<or> sys_read env k w' = sys_read env k w"
    using assms(1,3,5) by (cases r) (auto simp: sysctl_laws_def dest!: bspec [of _ _ k] spec [of _ v] spec [of _ w])
  then have "sys_read env k w' = orig k \<or> sys_read env k w' = Inr (val k)"
    using assms(2,3,6) by (auto simp: covers_def)
  with other assms(2,4) show ?thesis unfolding covers_def by metis
qed

lemma covers_record:
  assumes "covers env K orig val m w" "k \<in> K" "sys_read env k w = Inr p"
  shows "covers env K orig val (record_sysctl k p (val k) m) w"
proof -
  let ?m = "record_sysctl k p (val k) m"
  have wf: "settings_wf m" "btm_wf (mf_sysctl_set m)" "btm_wf (mf_sysctl_baseline m)"
    using assms(1) by (auto simp: covers_def settings_wf_def)
  have sets: "btm_get (mf_sysctl_set ?m) j = (if j = k then Some (val k) else btm_get (mf_sysctl_set m) j)" for j
    using wf by (simp add: record_sysctl_simps btm_get_insert)
  have fresh: "orig k = Inr p" if "btm_get (mf_sysctl_baseline m) k = None"
  proof -
    have "btm_get (mf_sysctl_set m) k = None"
      using that covers_baseline [OF assms(1), of k] by (metis option.discI)
    with assms show ?thesis by (auto simp: covers_def)
  qed
  have base: "orig j = Inr b" if "j \<in> K" "btm_get (mf_sysctl_baseline ?m) j = Some b" for j b
    using that fresh assms(1) wf
    by (auto simp: record_sysctl_simps btm_contains_def btm_get_insert covers_def split: if_splits)
  have "fst ` set (mf_sysctl_set ?m) \<subseteq> K"
    using assms(1,2) by (simp add: record_sysctl_simps covers_def)
  then show ?thesis
    using assms(1) base record_wf [OF wf(1)] unfolding covers_def sets by auto
qed

definition good where
  "good env disk K orig val m st \<longleftrightarrow>
     lane_inv env disk K orig val m (fst st) \<and> list_all (crash_safe env disk K orig val) (snd st)"

lemma log_step_eq: "f (fst st) = (w', r) \<Longrightarrow> log_step f st = ((w', snd st @ [w']), r)"
  by (simp add: log_step_def)

lemma goodI:
  "lane_inv env disk K orig val m w' \<Longrightarrow> list_all (crash_safe env disk K orig val) ws \<Longrightarrow>
   good env disk K orig val m (w', ws @ [w'])"
  by (simp add: good_def lane_crash_safe)

lemma lane_write:
  assumes "persist_laws env disk K" "lane_inv env disk K orig val m w" "btm_get (mf_sysctl_set m) k \<noteq> None" "k \<in> K"
    and "sys_write env k v w = (w', r)" "v = val k \<or> orig k = Inr v"
  shows "lane_inv env disk K orig val m w'"
proof -
  have laws: "sysctl_laws env K" "disk w' = disk w"
    using assms(1,5) unfolding persist_laws_def by (metis fst_conv)+
  from assms(2) obtain d where d: "disk w = Some d" "covers env K orig val d w" "covers env K orig val m w"
    "\<forall>k. btm_get (mf_sysctl_set m) k \<noteq> None \<longrightarrow> btm_get (mf_sysctl_set d) k \<noteq> None"
    unfolding lane_inv_def by blast
  have "covers env K orig val m w'" "covers env K orig val d w'"
    using covers_write [OF laws(1) d(3) assms(4,3,5,6)] covers_write [OF laws(1) d(2) assms(4) _ assms(5,6)] d(4) assms(3)
    by blast+
  with d laws(2) show ?thesis unfolding lane_inv_def by auto
qed

lemma lane_manifest:
  assumes "persist_laws env disk K" "lane_inv env disk K orig val m w" "covers env K orig val m' w"
    and "pe_write_manifest env m' w = (w', r)"
  shows "r = Inr () \<Longrightarrow> lane_inv env disk K orig val m' w'"
    and "(\<And>k. btm_get (mf_sysctl_set m) k \<noteq> None \<Longrightarrow> btm_get (mf_sysctl_set m') k \<noteq> None) \<Longrightarrow>
      lane_inv env disk K orig val m w'"
proof -
  have "case pe_write_manifest env m' w of (w', r) \<Rightarrow>
      (disk w' = Some m' \<or> disk w' = disk w \<and> r \<noteq> Inr ()) \<and> (\<forall>k\<in>K. sys_read env k w' = sys_read env k w)"
    by (rule assms(1) [unfolded persist_laws_def, THEN conjunct2, THEN conjunct2, THEN conjunct1, THEN spec, THEN spec])
  then have law: "disk w' = Some m' \<or> disk w' = disk w \<and> r \<noteq> Inr ()"
    and reads: "\<And>k. k \<in> K \<Longrightarrow> sys_read env k w' = sys_read env k w"
    by (simp_all add: assms(4))
  have m': "covers env K orig val m' w'" by (rule covers_same_reads [OF assms(3) reads]) simp_all
  { assume "r = Inr ()"
    with law m' show "lane_inv env disk K orig val m' w'" by (simp add: lane_inv_def) }
  from assms(2) obtain d where d: "disk w = Some d" "covers env K orig val d w" "covers env K orig val m w"
    "\<forall>k. btm_get (mf_sysctl_set m) k \<noteq> None \<longrightarrow> btm_get (mf_sysctl_set d) k \<noteq> None"
    unfolding lane_inv_def by blast
  have "covers env K orig val m w'" "covers env K orig val d w'"
    using covers_same_reads [OF d(3) reads] covers_same_reads [OF d(2) reads] by simp_all
  moreover assume "\<And>k. btm_get (mf_sysctl_set m) k \<noteq> None \<Longrightarrow> btm_get (mf_sysctl_set m') k \<noteq> None"
  ultimately show "lane_inv env disk K orig val m w'"
    using law m' d(1,4) unfolding lane_inv_def by auto
qed

lemma good_same:
  assumes "good env disk K orig val m st" "mf_sysctl_set m' = mf_sysctl_set m" "mf_sysctl_baseline m' = mf_sysctl_baseline m"
  shows "good env disk K orig val m' st"
  using assms covers_same_reads [of env K orig val m "fst st" "fst st" m'] by (auto simp: good_def lane_inv_def)

lemma good_untouched:
  assumes "good env disk K orig val m st" "disk w' = disk (fst st)"
    and "\<And>k. k \<in> K \<Longrightarrow> sys_read env k w' = sys_read env k (fst st)"
  shows "good env disk K orig val m (w', snd st @ [w'])"
proof -
  have "lane_inv env disk K orig val m w'"
    using assms(1,2) covers_same_reads [OF _ assms(3)] unfolding good_def lane_inv_def by metis
  with assms(1) show ?thesis by (intro goodI) (simp_all add: good_def)
qed

text \<open>Writing the recorded settings.\<close>

lemma write_settings_good:
  assumes "persist_laws env disk K" "good env disk K orig val m st"
    and "\<And>d. d \<in> set ds \<Longrightarrow> se_key (df_setting d) \<in> K \<and> se_value (df_setting d) = val (se_key (df_setting d)) \<and>
      btm_get (mf_sysctl_set m) (se_key (df_setting d)) \<noteq> None"
  shows "good env disk K orig val m (fst (write_settings (logged env) ds st))"
  using assms(2,3)
proof (induction ds arbitrary: st)
  case (Cons d ds)
  let ?k = "se_key (df_setting d)" and ?v = "se_value (df_setting d)"
  obtain w' r where w: "sys_write env ?k ?v (fst st) = (w', r)" by (rule prod.exhaust)
  have "lane_inv env disk K orig val m w'"
    using Cons.prems lane_write [OF assms(1) _ _ _ w] by (simp add: good_def)
  then have "good env disk K orig val m (w', snd st @ [w'])"
    using Cons.prems(1) by (intro goodI) (simp_all add: good_def)
  with Cons w show ?case by (cases r) (simp_all add: log_step_eq)
qed simp

lemma differences_read:
  "differences rd ss = Inr ds \<Longrightarrow> d \<in> set ds \<Longrightarrow> df_setting d \<in> set ss \<and> rd (se_key (df_setting d)) = Inr (df_current d)"
  by (induction ss arbitrary: ds) (auto split: sum.splits if_splits)

lemma covers_record_differences:
  assumes "covers env K orig val m w"
    and "\<And>d. d \<in> set ds \<Longrightarrow> se_key (df_setting d) \<in> K \<and> se_value (df_setting d) = val (se_key (df_setting d)) \<and>
      sys_read env (se_key (df_setting d)) w = Inr (df_current d)"
  shows "covers env K orig val (record_differences ds m) w"
  using assms unfolding record_differences_def
proof (induction ds arbitrary: m)
  case (Cons d ds)
  then show ?case using covers_record [OF Cons.prems(1)] by simp
qed simp

lemma record_differences_sets:
  assumes "settings_wf m"
  shows "btm_get (mf_sysctl_set m) k \<noteq> None \<Longrightarrow> btm_get (mf_sysctl_set (record_differences ds m)) k \<noteq> None"
    and "d \<in> set ds \<Longrightarrow> btm_get (mf_sysctl_set (record_differences ds m)) (se_key (df_setting d)) \<noteq> None"
proof -
  have keep: "btm_get (mf_sysctl_set (record_differences ds m)) k \<noteq> None"
    if "settings_wf m" "btm_get (mf_sysctl_set m) k \<noteq> None" for k m ds
    using that unfolding record_differences_def
  proof (induction ds arbitrary: m)
    case (Cons d ds)
    then show ?case using record_wf
      by (simp add: record_sysctl_simps btm_get_insert settings_wf_def)
  qed simp
  show "btm_get (mf_sysctl_set m) k \<noteq> None \<Longrightarrow> btm_get (mf_sysctl_set (record_differences ds m)) k \<noteq> None"
    using keep assms by blast
  show "d \<in> set ds \<Longrightarrow> btm_get (mf_sysctl_set (record_differences ds m)) (se_key (df_setting d)) \<noteq> None"
    using assms
  proof (induction ds arbitrary: m)
    case (Cons e ds)
    let ?m = "record_sysctl (se_key (df_setting e)) (df_current e) (se_value (df_setting e)) m"
    have wf: "settings_wf ?m" by (rule record_wf [OF Cons.prems(2)])
    show ?case
    proof (cases "d = e")
      case True
      then have "btm_get (mf_sysctl_set ?m) (se_key (df_setting d)) \<noteq> None"
        using Cons.prems(2) by (simp add: record_sysctl_simps btm_get_insert settings_wf_def)
      from keep [OF wf this] show ?thesis by (simp add: record_differences_def)
    next
      case False
      with Cons wf show ?thesis by (simp add: record_differences_def)
    qed
  qed simp
qed

definition settings_in :: "string set \<Rightarrow> (string \<Rightarrow> string) \<Rightarrow> setting list \<Rightarrow> bool" where
  "settings_in K val ss \<longleftrightarrow> (\<forall>s\<in>set ss. se_key s \<in> K \<and> se_value s = val (se_key s))"

lemma good_manifest:
  assumes "persist_laws env disk K" "good env disk K orig val m st" "covers env K orig val m' (fst st)"
    and "pe_write_manifest env m' (fst st) = (w', r)"
  shows "r = Inr () \<Longrightarrow> good env disk K orig val m' (w', snd st @ [w'])"
    and "(\<And>k. btm_get (mf_sysctl_set m) k \<noteq> None \<Longrightarrow> btm_get (mf_sysctl_set m') k \<noteq> None) \<Longrightarrow>
      good env disk K orig val m (w', snd st @ [w'])"
proof -
  from assms(2) have inv: "lane_inv env disk K orig val m (fst st)" "list_all (crash_safe env disk K orig val) (snd st)"
    by (simp_all add: good_def)
  show "r = Inr () \<Longrightarrow> good env disk K orig val m' (w', snd st @ [w'])"
    using goodI [OF lane_manifest(1) [OF assms(1) inv(1) assms(3,4)] inv(2)] .
  show "(\<And>k. btm_get (mf_sysctl_set m) k \<noteq> None \<Longrightarrow> btm_get (mf_sysctl_set m') k \<noteq> None) \<Longrightarrow>
      good env disk K orig val m (w', snd st @ [w'])"
    using goodI [OF lane_manifest(2) [OF assms(1) inv(1) assms(3,4)] inv(2)] by blast
qed

lemma good_settings_wf: "good env disk K orig val m st \<Longrightarrow> covers env K orig val m (fst st) \<and> settings_wf m"
  by (simp add: good_def lane_inv_def covers_def)

lemma apply_sysctls_good:
  assumes laws: "persist_laws env disk K" and g: "good env disk K orig val m st" and ss: "settings_in K val settings"
    and run: "apply_sysctls (logged env) settings manage m st = (r, m', st')"
  shows "good env disk K orig val m' st'"
proof (cases "differences (\<lambda>k. sys_read env k (fst st)) settings")
  case (Inl e)
  with run g show ?thesis by (auto simp: apply_sysctls_def)
next
  case (Inr ds)
  show ?thesis
  proof (cases "ds = [] \<or> \<not> manage")
    case True
    with Inr run g show ?thesis by (auto simp: apply_sysctls_def)
  next
    case False
    let ?m = "record_differences ds m"
    have d: "se_key (df_setting d) \<in> K \<and> se_value (df_setting d) = val (se_key (df_setting d)) \<and>
        sys_read env (se_key (df_setting d)) (fst st) = Inr (df_current d)" if "d \<in> set ds" for d
      using differences_read [OF Inr that] ss by (auto simp: settings_in_def)
    note wf = good_settings_wf [OF g, THEN conjunct2]
    have cov: "covers env K orig val ?m (fst st)"
      by (rule covers_record_differences [OF good_settings_wf [OF g, THEN conjunct1] d])
    have writes: "good env disk K orig val ?m (fst (write_settings (logged env) ds st1))"
      if "good env disk K orig val ?m st1" for st1
      by (rule write_settings_good [OF laws that]) (use d record_differences_sets(2) [OF wf] in blast)
    show ?thesis
    proof (cases "?m = m")
      case True
      with False Inr run have "st' = fst (write_settings (logged env) ds st)" "m' = m"
        by (auto simp: apply_sysctls_def Let_def split: prod.splits)
      with writes [of st] g True show ?thesis by simp
    next
      case changed: False
      obtain w1 r1 where w1: "pe_write_manifest env ?m (fst st) = (w1, r1)" by (rule prod.exhaust)
      show ?thesis
      proof (cases r1)
        case (Inl e)
        with changed False \<open>differences _ _ = Inr ds\<close> run w1 have "st' = (w1, snd st @ [w1])" "m' = m"
          by (auto simp: apply_sysctls_def Let_def log_step_def)
        with good_manifest(2) [OF laws g cov w1] record_differences_sets(1) [OF wf] show ?thesis by simp
      next
        case (Inr u)
        with changed False \<open>differences _ _ = Inr ds\<close> run w1
        have "st' = fst (write_settings (logged env) ds (w1, snd st @ [w1]))" "m' = ?m"
          by (auto simp: apply_sysctls_def Let_def log_step_def split: prod.splits)
        with writes good_manifest(1) [OF laws g cov w1] Inr show ?thesis by simp
      qed
    qed
  qed
qed

lemma good_drain:
  assumes "persist_laws env disk K" "good env disk K orig val m st" "pe_write_drain env d (fst st) = (w', r)"
  shows "good env disk K orig val m (w', snd st @ [w'])"
proof -
  have "disk w' = disk (fst st)" "\<And>k. k \<in> K \<Longrightarrow> sys_read env k w' = sys_read env k (fst st)"
    using assms(1,3) unfolding persist_laws_def by (metis fst_conv)+
  with good_untouched [OF assms(2)] show ?thesis by blast
qed

lemma bind_job_good:
  assumes laws: "persist_laws env disk K" and g: "good env disk K orig val m st"
    and run: "bind_job (logged env) c drain m st = (r, m', st')"
  shows "good env disk K orig val m' st'"
proof (cases "manifest_check m c = []")
  case False
  with run g show ?thesis by (auto simp: bind_job_def)
next
  case True
  let ?m = "manifest_bind c m"
  have same: "mf_sysctl_set ?m = mf_sysctl_set m" "mf_sysctl_baseline ?m = mf_sysctl_baseline m"
    by (simp_all add: manifest_bind_def)
  have cov: "covers env K orig val ?m (fst st)"
    using covers_same_reads [OF good_settings_wf [OF g, THEN conjunct1] _ same] by simp
  obtain w1 r1 where w1: "pe_write_manifest env ?m (fst st) = (w1, r1)" by (rule prod.exhaust)
  have m1: "good env disk K orig val m (w1, snd st @ [w1])"
    by (rule good_manifest(2) [OF laws g cov w1]) (simp add: same)
  then have m2: "good env disk K orig val ?m (w1, snd st @ [w1])" by (rule good_same [OF _ same])
  show ?thesis
  proof (cases r1)
    case (Inl e)
    with True run w1 m1 show ?thesis by (auto simp: bind_job_def Let_def log_step_def)
  next
    case (Inr u)
    show ?thesis
    proof (cases drain)
      case None
      with True Inr run w1 m2 show ?thesis by (auto simp: bind_job_def Let_def log_step_def)
    next
      case (Some d)
      obtain w2 r2 where w2: "pe_write_drain env d w1 = (w2, r2)" by (rule prod.exhaust)
      with good_drain [OF laws m2] have "good env disk K orig val ?m (w2, snd st @ [w1] @ [w2])" by simp
      with True Inr Some run w1 w2 show ?thesis
        by (auto simp: bind_job_def Let_def log_step_def split: sum.splits)
    qed
  qed
qed

lemma forget_job_good:
  assumes laws: "persist_laws env disk K" and g: "good env disk K orig val m st"
    and run: "forget_job (logged env) n m st = (r, m', st')"
  shows "good env disk K orig val m' st'"
proof (cases "manifest_forget n m")
  case (Pair released q)
  show ?thesis
  proof (cases q)
    case (Inl e)
    with Pair run g show ?thesis by (auto simp: forget_job_def)
  next
    case (Inr i)
    with Pair have same: "mf_sysctl_set released = mf_sysctl_set m" "mf_sysctl_baseline released = mf_sysctl_baseline m"
      by (auto elim: forget_shape)
    have cov: "covers env K orig val released (fst st)"
      using covers_same_reads [OF good_settings_wf [OF g, THEN conjunct1] _ same] by simp
    obtain w1 r1 where w1: "pe_write_manifest env released (fst st) = (w1, r1)" by (rule prod.exhaust)
    have m1: "good env disk K orig val m (w1, snd st @ [w1])"
      by (rule good_manifest(2) [OF laws g cov w1]) (simp add: same)
    then have m2: "good env disk K orig val released (w1, snd st @ [w1])" by (rule good_same [OF _ same])
    from m1 m2 Pair Inr run w1 show ?thesis by (auto simp: forget_job_def log_step_def split: sum.splits)
  qed
qed

text \<open>Handing settings back: each is released only once it has its original value, or is not there.\<close>

definition drop_setting :: "string \<Rightarrow> manifest \<Rightarrow> manifest" where
  "drop_setting key m = m\<lparr>mf_sysctl_set := btm_remove key (mf_sysctl_set m),
     mf_sysctl_baseline := btm_remove key (mf_sysctl_baseline m)\<rparr>"

lemma covers_drop:
  assumes "covers env K orig val m w" "sys_read env key w = orig key"
  shows "covers env K orig val (drop_setting key m) w"
proof -
  let ?m = "drop_setting key m"
  have get: "btm_get (mf_sysctl_set ?m) k = (if k = key then None else btm_get (mf_sysctl_set m) k)"
    "btm_get (mf_sysctl_baseline ?m) k = (if k = key then None else btm_get (mf_sysctl_baseline m) k)" for k
    by (simp_all add: drop_setting_def btm_get_remove)
  have "settings_wf ?m" "fst ` set (mf_sysctl_set ?m) \<subseteq> K"
    using assms(1) by (auto simp: covers_def settings_wf_def drop_setting_def btm_remove_def btm_wf_filter)
  with assms show ?thesis unfolding covers_def get by auto
qed

lemma good_drop:
  assumes "good env disk K orig val m st" "sys_read env key (fst st) = orig key"
  shows "good env disk K orig val (drop_setting key m) st"
  using assms covers_drop [of env K orig val m "fst st" key]
  by (auto simp: good_def lane_inv_def drop_setting_def btm_get_remove)

lemma outcome_good:
  assumes laws: "persist_laws env disk K" and g: "good env disk K orig val m st"
    and key: "btm_get (mf_sysctl_set m) key \<noteq> None"
    and run: "hand_back_outcome (logged env) m key st = (st', r)"
  shows "good env disk K orig val m st' \<and> (isl r \<or> sys_read env key (fst st') = orig key)"
proof -
  have cov: "covers env K orig val m (fst st)" using g by (simp add: good_def lane_inv_def)
  obtain b where b: "btm_get (mf_sysctl_baseline m) key = Some b" "orig key = Inr b" "key \<in> K"
    "btm_get (mf_sysctl_set m) key = Some (val key)" by (rule covers_baseline [OF cov key])
  have now: "sys_read env key (fst st) = orig key \<or> sys_read env key (fst st) = Inr (val key)"
    using cov b(3) by (auto simp: covers_def)
  obtain w' q where w: "sys_write env key b (fst st) = (w', q)" by (rule prod.exhaust)
  have inv: "lane_inv env disk K orig val m w'"
    using g by (intro lane_write [OF laws _ key b(3) w]) (simp_all add: good_def b)
  have wrote: "good env disk K orig val m (w', snd st @ [w'])"
    using g by (intro goodI [OF inv]) (simp add: good_def)
  have readback: "sys_read env key w' = orig key" if "q = Inr u" for u
    using laws w that b(2,3) write_same by (fastforce simp: persist_laws_def)
  show ?thesis
    using run g now b wrote readback
    by (cases q) (auto simp: hand_back_outcome_def Let_def log_step_def w split: sum.splits if_splits)
qed

lemma hand_back_keys_good:
  assumes laws: "persist_laws env disk K"
    and "good env disk K orig val m st" "distinct ks" "\<And>k. k \<in> set ks \<Longrightarrow> btm_get (mf_sysctl_set m) k \<noteq> None"
    and "fold (hand_back_step (logged env)) ks (m, st, h) = (m', st', h')"
  shows "good env disk K orig val m' st'"
  using assms(2-)
proof (induction ks arbitrary: m st h)
  case (Cons k ks)
  obtain st1 r where o1: "hand_back_outcome (logged env) m k st = (st1, r)" by (rule prod.exhaust)
  have g: "good env disk K orig val m st1" "isl r \<or> sys_read env k (fst st1) = orig k"
    using outcome_good [OF laws Cons.prems(1) _ o1] Cons.prems(3) by auto
  show ?case
  proof (cases r)
    case (Inl e)
    from Cons.prems(2-) o1 Inl show ?thesis
      by (intro Cons.IH [OF g(1), where h = "h\<lparr>ho_failed := ho_failed h @ [(k, e)]\<rparr>"])
         (simp_all add: hand_back_step_def)
  next
    case (Inr b)
    have "good env disk K orig val (drop_setting k m) st1"
      using good_drop [OF g(1)] g(2) Inr by simp
    moreover have "btm_get (mf_sysctl_set (drop_setting k m)) j \<noteq> None" if "j \<in> set ks" for j
      using Cons.prems(2,3) that by (auto simp: drop_setting_def btm_get_remove)
    ultimately show ?thesis
      using Cons.prems(2,4) o1 Inr
      by (intro Cons.IH [where h = "if b then h\<lparr>ho_restored := ho_restored h @ [k]\<rparr>
            else h\<lparr>ho_released := ho_released h @ [k]\<rparr>"])
         (simp_all add: hand_back_step_def drop_setting_def)
  qed
qed simp

lemma hand_back_good:
  assumes "persist_laws env disk K" "good env disk K orig val m st" "hand_back (logged env) f m st = (m', st', h)"
  shows "good env disk K orig val m' st'"
proof -
  have wf: "btm_wf (mf_sysctl_set m)"
    using assms(2) by (simp add: good_def lane_inv_def covers_def settings_wf_def)
  show ?thesis
  proof (rule hand_back_keys_good [OF assms(1,2) _ _ assms(3) [unfolded hand_back_def]])
    show "distinct (filter (\<lambda>k. key_family k = Some f) (map fst (mf_sysctl_set m)))"
      using btm_wf_distinct [OF wf] by simp
  next
    fix k
    assume "k \<in> set (filter (\<lambda>k. key_family k = Some f) (map fst (mf_sysctl_set m)))"
    then show "btm_get (mf_sysctl_set m) k \<noteq> None" by (auto simp: btm_get_None)
  qed
qed

lemma hand_back_job_good:
  assumes laws: "persist_laws env disk K" and "good env disk K orig val m st"
    and run: "hand_back_job (logged env) fs m st = (r, m', st')"
  shows "good env disk K orig val m' st'"
proof -
  obtain m1 st1 fl where f: "fold (hand_back_family (logged env)) fs (m, st, []) = (m1, st1, fl)" by (rule prod_cases3)
  have "good env disk K orig val m1 st1"
    if "fold (hand_back_family (logged env)) fs (m, st, fl0) = (m1, st1, fl)" "good env disk K orig val m st" for fl0
    using that
  proof (induction fs arbitrary: m st fl0)
    case (Cons f fs)
    obtain m2 st2 h where "hand_back (logged env) f m st = (m2, st2, h)" by (rule prod_cases3)
    with Cons hand_back_good [OF laws Cons.prems(2)] show ?case by (simp add: hand_back_family_def)
  qed simp
  then have g: "good env disk K orig val m1 st1" using f assms(2) by blast
  obtain w2 q where w2: "pe_write_manifest env m1 (fst st1) = (w2, q)" by (rule prod.exhaust)
  have "good env disk K orig val m1 (w2, snd st1 @ [w2])"
    by (rule good_manifest(2) [OF laws g good_settings_wf [OF g, THEN conjunct1] w2])
  with run f w2 show ?thesis by (auto simp: hand_back_job_def log_step_def Let_def)
qed

fun job_settings :: "persist_job \<Rightarrow> setting list" where
  "job_settings (SysctlsJob seq scope settings manage) = settings"
| "job_settings _ = []"

lemma persist_good:
  assumes laws: "persist_laws env disk K" and g: "good env disk K orig val m st"
    and ss: "settings_in K val (job_settings j)" and run: "persist (logged env) j m st = (r, m', st')"
  shows "good env disk K orig val m' st'"
proof (cases j)
  case (SysctlsJob seq scope settings manage)
  with run ss apply_sysctls_good [OF laws g] show ?thesis by (auto split: prod.splits)
next
  case (BindJob seq c drain)
  with run bind_job_good [OF laws g] show ?thesis by (auto split: prod.splits)
next
  case (HandBackJob seq fs)
  with run hand_back_job_good [OF laws g] show ?thesis by (auto split: prod.splits)
next
  case (DrainJob seq d)
  obtain w' q where "pe_write_drain env d (fst st) = (w', q)" by (rule prod.exhaust)
  with DrainJob run good_drain [OF laws g] show ?thesis by (auto simp: log_step_def)
next
  case (ForgetJob seq n)
  with run forget_job_good [OF laws g] show ?thesis by (auto split: prod.splits)
next
  case (CheckpointJob c)
  obtain w' q where w: "pe_write_checkpoint env c (fst st) = (w', q)" by (rule prod.exhaust)
  have "disk w' = disk (fst st)" "\<And>k. k \<in> K \<Longrightarrow> sys_read env k w' = sys_read env k (fst st)"
    using laws w unfolding persist_laws_def by (metis fst_conv)+
  with good_untouched [OF g] have "good env disk K orig val m (w', snd st @ [w'])" by blast
  with CheckpointJob run w show ?thesis by (auto simp: log_step_def)
next
  case (GatewayWarningJob u i d)
  with run g show ?thesis by simp
qed

lemma run_jobs_good:
  assumes laws: "persist_laws env disk K"
  shows "good env disk K orig val m st \<Longrightarrow> (\<And>j. j \<in> set jobs \<Longrightarrow> settings_in K val (job_settings j)) \<Longrightarrow>
    run_jobs (logged env) jobs (m, st) = (m', st') \<Longrightarrow> good env disk K orig val m' st'"
proof (induction jobs arbitrary: m st)
  case (Cons j jobs)
  obtain r m1 st1 where p: "persist (logged env) j m st = (r, m1, st1)" by (rule prod_cases3)
  have "good env disk K orig val m1 st1" by (rule persist_good [OF laws Cons.prems(1) Cons.prems(2) p]) simp
  with Cons p show ?case by (simp add: run_jobs_def)
qed (simp add: run_jobs_def)

lemma good_start:
  assumes "disk w = Some m" "mf_sysctl_set m = []" "mf_sysctl_baseline m = []"
  shows "good env disk K (\<lambda>k. sys_read env k w) val m (w, [w])"
  using assms by (simp add: good_def lane_inv_def crash_safe_def covers_def settings_wf_def btm_get_def)

text \<open>
  C8. A crash at any moment loses no setting. The lane starts from a manifest on disk that records none,
  and runs any jobs, whose writes may fail, over settings that do not influence each other. In every
  state the machine goes through there is a manifest on disk, and cleaning up with it, if no write of
  the clean-up fails, gives every setting the value it had before the first job.
\<close>

theorem settings_survive_crash:
  assumes laws: "persist_laws env disk K"
    and start: "disk w = Some m" "mf_sysctl_set m = []" "mf_sysctl_baseline m = []"
    and jobs: "\<And>j. j \<in> set jobs \<Longrightarrow> settings_in K val (job_settings j)"
    and run: "run_jobs (logged env) jobs (m, (w, [w])) = (m', (w', states))"
    and crash: "x \<in> set states"
  shows "\<exists>d. disk x = Some d \<and>
    (\<forall>y rs k. restore env d (\<lambda>_. True) x = (y, rs) \<and> all_ok rs \<and> k \<in> K \<longrightarrow> sys_read env k y = sys_read env k w)"
proof -
  have "good env disk K (\<lambda>k. sys_read env k w) val m' (w', states)"
    using run_jobs_good [OF laws good_start [of disk, OF start] jobs run] .
  with crash have "crash_safe env disk K (\<lambda>k. sys_read env k w) val x" by (simp add: good_def list_all_iff)
  then obtain d where d: "disk x = Some d" "covers env K (\<lambda>k. sys_read env k w) val d x"
    by (auto simp: crash_safe_def)
  have "sysctl_laws env K" using laws by (simp add: persist_laws_def)
  note covers_restore [OF this d(2)]
  with d(1) show ?thesis by auto
qed

type_synonym memory = "(string \<rightharpoonup> string) \<times> manifest option"

definition memory_env :: "memory persist_env" where
  "memory_env =
     \<lparr>sys_read = (\<lambda>k w. case fst w k of Some v \<Rightarrow> Inr v | None \<Rightarrow> Inl (IoError NotFound ''not found'')),
      sys_write = (\<lambda>k v w. if fst w k = None then (w, Inl (IoError NotFound ''not found''))
                           else (((fst w)(k \<mapsto> v), snd w), Inr ())),
      pe_write_manifest = (\<lambda>m w. ((fst w, Some m), Inr ())),
      pe_write_drain = (\<lambda>d w. (w, Inr ())),
      pe_write_checkpoint = (\<lambda>c w. (w, Inr ()))\<rparr>"

lemma memory_laws: "persist_laws memory_env snd K"
  by (auto simp: persist_laws_def sysctl_laws_def memory_env_def)

definition example_settings :: "setting list" where
  "example_settings = [global_setting ''net/ipv4/ip_forward'' ''1'' V4, per_interface V4 ''eth0'' ''rp_filter'' ''2'']"

definition example_memory :: memory where
  "example_memory = ([''net/ipv4/ip_forward'' \<mapsto> ''0'', ''net/ipv4/conf/eth0/rp_filter'' \<mapsto> ''1''],
     Some (manifest_new example_config))"

text \<open>The state after the manifest and the first of two settings have been written.\<close>

definition example_crash :: memory where
  "example_crash = ([''net/ipv4/conf/eth0/rp_filter'' \<mapsto> ''1'', ''net/ipv4/ip_forward'' \<mapsto> ''1''],
     Some (record_sysctl ''net/ipv4/conf/eth0/rp_filter'' ''1'' ''2''
       (record_sysctl ''net/ipv4/ip_forward'' ''0'' ''1'' (manifest_new example_config))))"

lemma example_jobs_states:
  "\<exists>m' w' states. run_jobs (logged memory_env) [SysctlsJob 1 GlobalScope example_settings True]
     (manifest_new example_config, (example_memory, [example_memory])) = (m', (w', states)) \<and> example_crash \<in> set states"
proof -
  let ?m = "manifest_new example_config"
  let ?r = "record_sysctl ''net/ipv4/conf/eth0/rp_filter'' ''1'' ''2'' (record_sysctl ''net/ipv4/ip_forward'' ''0'' ''1'' ?m)"
  have sets: "mf_sysctl_set ?m = []" by (simp add: manifest_new_def Let_def manifest_bind_def)
  have ds: "differences (\<lambda>k. sys_read memory_env k example_memory) example_settings =
    Inr [\<lparr>df_setting = global_setting ''net/ipv4/ip_forward'' ''1'' V4, df_current = ''0''\<rparr>,
         \<lparr>df_setting = per_interface V4 ''eth0'' ''rp_filter'' ''2'', df_current = ''1''\<rparr>]"
    by (simp add: example_settings_def example_memory_def memory_env_def global_setting_def per_interface_def)
  have rec: "record_differences [\<lparr>df_setting = global_setting ''net/ipv4/ip_forward'' ''1'' V4, df_current = ''0''\<rparr>,
      \<lparr>df_setting = per_interface V4 ''eth0'' ''rp_filter'' ''2'', df_current = ''1''\<rparr>] ?m = ?r"
    by (simp add: record_differences_def global_setting_def per_interface_def)
  have "btm_get (mf_sysctl_set ?r) ''net/ipv4/conf/eth0/rp_filter'' \<noteq> btm_get (mf_sysctl_set ?m) ''net/ipv4/conf/eth0/rp_filter''"
    by (simp add: record_sysctl_simps sets btm_get_insert btm_wf_insert btm_get_def)
  then have "?r \<noteq> ?m" by metis
  then show ?thesis
    using ds rec
    by (simp add: run_jobs_def apply_sysctls_def log_step_def)
       (simp add: memory_env_def global_setting_def per_interface_def example_memory_def example_crash_def log_step_def logged_def Let_def)
qed

theorem settings_survive_crash_witness:
  "\<exists>m' w' states. run_jobs (logged memory_env) [SysctlsJob 1 GlobalScope example_settings True]
       (manifest_new example_config, (example_memory, [example_memory])) = (m', (w', states)) \<and>
     example_crash \<in> set states \<and>
     (\<exists>d. snd example_crash = Some d \<and>
       (\<forall>y rs k. restore memory_env d (\<lambda>_. True) example_crash = (y, rs) \<and> all_ok rs \<and>
          k \<in> {''net/ipv4/ip_forward'', ''net/ipv4/conf/eth0/rp_filter''} \<longrightarrow>
          sys_read memory_env k y = sys_read memory_env k example_memory))"
proof -
  have start: "snd example_memory = Some (manifest_new example_config)"
    "mf_sysctl_set (manifest_new example_config) = []" "mf_sysctl_baseline (manifest_new example_config) = []"
    by (simp_all add: example_memory_def manifest_new_def Let_def manifest_bind_def)
  have jobs: "settings_in {''net/ipv4/ip_forward'', ''net/ipv4/conf/eth0/rp_filter''}
      (\<lambda>k. if k = ''net/ipv4/ip_forward'' then ''1'' else ''2'') (job_settings j)"
    if "j \<in> set [SysctlsJob 1 GlobalScope example_settings True]" for j
    using that by (simp add: settings_in_def example_settings_def global_setting_def per_interface_def)
  obtain m' w' states where run: "run_jobs (logged memory_env) [SysctlsJob 1 GlobalScope example_settings True]
       (manifest_new example_config, (example_memory, [example_memory])) = (m', (w', states))"
    and crash: "example_crash \<in> set states" using example_jobs_states by blast
  from settings_survive_crash [OF memory_laws start jobs run crash] run crash show ?thesis by blast
qed

section \<open>The lane\<close>

text \<open>
  \<open>persist_lane\<close>: everything already in the channel is sorted into the queue, where a checkpoint only
  replaces the one waiting; then the first queued job runs, or the checkpoint when the queue is empty.
  A lane with nothing to do waits on the channel and runs what it receives.
\<close>

record lane =
  ln_queue :: "persist_job list"
  ln_checkpoint :: "checkpoint option"

definition lane_receive :: "persist_job \<Rightarrow> lane \<Rightarrow> lane" where
  "lane_receive job la =
     (case job of
        CheckpointJob c \<Rightarrow> la\<lparr>ln_checkpoint := Some c\<rparr>
      | _ \<Rightarrow> la\<lparr>ln_queue := ln_queue la @ [job]\<rparr>)"

definition lane_pop :: "lane \<Rightarrow> (persist_job \<times> lane) option" where
  "lane_pop la =
     (case ln_queue la of
        job # rest \<Rightarrow> Some (job, la\<lparr>ln_queue := rest\<rparr>)
      | [] \<Rightarrow>
          (case ln_checkpoint la of
             Some c \<Rightarrow> Some (CheckpointJob c, la\<lparr>ln_checkpoint := None\<rparr>)
           | None \<Rightarrow> None))"

text \<open>The jobs sent, the channel, the lane, and the jobs it has run, in order.\<close>

inductive lane_reachable :: "persist_job list \<Rightarrow> persist_job list \<Rightarrow> lane \<Rightarrow> persist_job list \<Rightarrow> bool" where
  lane_start: "lane_reachable [] [] \<lparr>ln_queue = [], ln_checkpoint = None\<rparr> []"
| lane_send: "lane_reachable sent ch la completed \<Longrightarrow> lane_reachable (sent @ [j]) (ch @ [j]) la completed"
| lane_sort: "lane_reachable sent (j # ch) la completed \<Longrightarrow> lane_reachable sent ch (lane_receive j la) completed"
| lane_run: "lane_reachable sent [] la completed \<Longrightarrow> lane_pop la = Some (j, la') \<Longrightarrow> lane_reachable sent [] la' (completed @ [j])"
| lane_wait: "lane_reachable sent (j # ch) la completed \<Longrightarrow> lane_pop la = None \<Longrightarrow> lane_reachable sent ch la (completed @ [j])"

fun is_checkpoint :: "persist_job \<Rightarrow> bool" where
  "is_checkpoint (CheckpointJob _) = True"
| "is_checkpoint _ = False"

lemma is_checkpoint_iff: "is_checkpoint j \<longleftrightarrow> (\<exists>c. j = CheckpointJob c)"
  by (cases j) auto

definition administrative :: "persist_job list \<Rightarrow> persist_job list" where
  "administrative js = filter (\<lambda>j. \<not> is_checkpoint j) js"

definition last_checkpoint :: "persist_job list \<Rightarrow> persist_job option" where
  "last_checkpoint js = List.find is_checkpoint (rev js)"

lemma last_checkpoint_append:
  "last_checkpoint (xs @ ys) = (case last_checkpoint ys of Some c \<Rightarrow> Some c | None \<Rightarrow> last_checkpoint xs)"
  by (induction ys rule: rev_induct) (auto simp: last_checkpoint_def)

definition waiting :: "lane \<Rightarrow> persist_job list" where
  "waiting la = ln_queue la @ (case ln_checkpoint la of Some c \<Rightarrow> [CheckpointJob c] | None \<Rightarrow> [])"

lemma receive_waiting:
  "administrative (waiting (lane_receive j la)) = administrative (waiting la @ [j])"
  "list_all (\<lambda>j. \<not> is_checkpoint j) (ln_queue la) \<Longrightarrow>
     last_checkpoint (waiting (lane_receive j la)) = last_checkpoint (waiting la @ [j]) \<and>
     list_all (\<lambda>j. \<not> is_checkpoint j) (ln_queue (lane_receive j la))"
  by (cases j; auto simp: administrative_def waiting_def lane_receive_def last_checkpoint_def split: option.splits)+

lemma pop_waiting: "lane_pop la = Some (j, la') \<Longrightarrow> waiting la = j # waiting la'"
  "lane_pop la = None \<Longrightarrow> waiting la = []"
  by (auto simp: lane_pop_def waiting_def split: list.splits option.splits)

lemma pop_queue: "lane_pop la = Some (j, la') \<Longrightarrow> list_all P (ln_queue la) \<Longrightarrow> list_all P (ln_queue la')"
  by (auto simp: lane_pop_def split: list.splits option.splits)

lemma lane_reachable_inv:
  "lane_reachable sent ch la completed \<Longrightarrow>
     administrative (completed @ waiting la @ ch) = administrative sent \<and>
     last_checkpoint (completed @ waiting la @ ch) = last_checkpoint sent \<and>
     list_all (\<lambda>j. \<not> is_checkpoint j) (ln_queue la)"
proof (induction rule: lane_reachable.induct)
  case lane_start
  show ?case by (simp add: waiting_def)
next
  case (lane_send sent ch la completed j)
  have "last_checkpoint ((completed @ waiting la @ ch) @ [j]) = last_checkpoint (sent @ [j])"
    using lane_send.IH by (simp only: last_checkpoint_append)
  with lane_send show ?case by (simp add: administrative_def)
next
  case (lane_sort sent j ch la completed)
  then have q: "list_all (\<lambda>j. \<not> is_checkpoint j) (ln_queue la)" by simp
  have "last_checkpoint (completed @ waiting (lane_receive j la) @ ch) = last_checkpoint (completed @ (waiting la @ [j]) @ ch)"
    using receive_waiting(2) [OF q, of j] by (simp only: last_checkpoint_append)
  moreover have "administrative (completed @ waiting (lane_receive j la) @ ch) = administrative (completed @ (waiting la @ [j]) @ ch)"
    using receive_waiting(1) [of j la] by (simp add: administrative_def)
  ultimately show ?case using lane_sort.IH receive_waiting(2) [OF q, of j] by simp
next
  case (lane_run sent la completed j la')
  with pop_waiting(1) [OF lane_run(2)] pop_queue [OF lane_run(2)] show ?case by simp
next
  case (lane_wait sent j ch la completed)
  with pop_waiting(2) [OF lane_wait(2)] show ?case by simp
qed

text \<open>
  C32. The lane loses nothing and keeps the order: however sending and running interleave, the
  administrative jobs it has run are the first ones sent, in the order they were sent, and once nothing
  is left waiting it has run all of them and the last checkpoint it wrote is the last one sent.
\<close>

theorem lane_order:
  assumes "lane_reachable sent ch la completed"
  shows "(\<exists>rest. administrative sent = administrative completed @ rest) \<and>
    (ch = [] \<and> lane_pop la = None \<longrightarrow>
       administrative completed = administrative sent \<and> last_checkpoint completed = last_checkpoint sent)"
  using lane_reachable_inv [OF assms] pop_waiting(2) [of la]
  by (auto simp: administrative_def intro: exI [of _ "administrative (waiting la @ ch)"])

definition example_checkpoint :: checkpoint where
  "example_checkpoint = \<lparr>cp_version = 1, cp_boot_id = ''boot'', cp_boottime_ms = 0, cp_config_digest = [],
     cp_structure = mf_structure (manifest_new example_config), cp_paths = [], cp_active_v4 = [1], cp_active_v6 = []\<rparr>"

theorem lane_order_witness:
  "lane_reachable [CheckpointJob example_checkpoint, ForgetJob 1 ''a''] []
     \<lparr>ln_queue = [], ln_checkpoint = None\<rparr> [ForgetJob 1 ''a'', CheckpointJob example_checkpoint] \<and>
   last_checkpoint [ForgetJob 1 ''a'', CheckpointJob example_checkpoint] =
     last_checkpoint [CheckpointJob example_checkpoint, ForgetJob 1 ''a'']"
proof -
  let ?c = "CheckpointJob example_checkpoint" and ?f = "ForgetJob 1 ''a''"
  let ?idle = "\<lparr>ln_queue = [], ln_checkpoint = None\<rparr>"
  have "lane_reachable [?c, ?f] [?c, ?f] ?idle []"
    using lane_send [OF lane_send [OF lane_start, of ?c], of ?f] by simp
  from lane_sort [OF lane_sort [OF this]]
  have "lane_reachable [?c, ?f] [] \<lparr>ln_queue = [?f], ln_checkpoint = Some example_checkpoint\<rparr> []"
    by (simp add: lane_receive_def)
  from lane_run [OF this, of ?f "\<lparr>ln_queue = [], ln_checkpoint = Some example_checkpoint\<rparr>"]
  have "lane_reachable [?c, ?f] [] \<lparr>ln_queue = [], ln_checkpoint = Some example_checkpoint\<rparr> [?f]"
    by (simp add: lane_pop_def)
  from lane_run [OF this, of ?c ?idle] have r: "lane_reachable [?c, ?f] [] ?idle [?f, ?c]"
    by (simp add: lane_pop_def)
  with lane_order [OF r] show ?thesis by (simp add: lane_pop_def)
qed

end
