(* ===== verification/Rendering.thy ===== *)
theory Rendering
  imports Addresses
begin

text \<open>
  The formatting of the standard library that the generated texts use: decimal and hexadecimal
  numbers, addresses, joined lists, and the characters and lines of a string. A string is the list of
  its UTF-8 bytes, so that a character is a list of one to four bytes.
\<close>

section \<open>Joining\<close>

fun join :: "string \<Rightarrow> string list \<Rightarrow> string" where
  "join sep [] = []"
| "join sep [x] = x"
| "join sep (x # y # xs) = x @ sep @ join sep (y # xs)"

lemma join_append: "xs \<noteq> [] \<Longrightarrow> join sep (xs @ ys) = join sep xs @ concat (map (\<lambda>y. sep @ y) ys)"
proof (induction sep xs rule: join.induct)
  case (2 sep x)
  show ?case by (induction ys arbitrary: x) (auto simp: append_assoc)
qed simp_all

lemma join_Cons: "join sep (x # xs) = x @ concat (map (\<lambda>y. sep @ y) xs)"
  using join_append [of "[x]" sep xs] by simp

section \<open>Numbers\<close>

definition show_i32 :: "32 word \<Rightarrow> string" where
  "show_i32 w = (if sint w < 0 then CHR ''-'' # show_nat (nat (- sint w)) else show_nat (nat (sint w)))"

definition hex_digit :: "nat \<Rightarrow> char" where
  "hex_digit d = char_of (if d < 10 then 48 + d else 87 + d)"

text \<open>\<open>{:#010x}\<close>: eight digits after the prefix.\<close>

definition hex8 :: "u32 \<Rightarrow> string" where
  "hex8 v = ''0x'' @ map (\<lambda>i. hex_digit (unat v div 16 ^ i mod 16)) [7, 6, 5, 4, 3, 2, 1, 0]"

text \<open>\<open>{:x}\<close>: no leading zeros.\<close>

fun show_hex :: "nat \<Rightarrow> string" where
  "show_hex n = (if n < 16 then [hex_digit n] else show_hex (n div 16) @ [hex_digit (n mod 16)])"

declare show_hex.simps [simp del]

section \<open>Addresses\<close>

definition show_ipv4 :: "u32 \<Rightarrow> string" where
  "show_ipv4 a = join ''.'' (map (\<lambda>i. show_nat (unat (octet a i))) [0, 1, 2, 3])"

definition segments :: "u128 \<Rightarrow> u128 list" where
  "segments a = map (segment a) [0, 1, 2, 3, 4, 5, 6, 7]"

text \<open>The longest run of zero segments, the first of equal ones, as its start and length.\<close>

fun longest_zeros :: "nat \<Rightarrow> u128 list \<Rightarrow> nat \<times> nat \<Rightarrow> nat \<times> nat \<Rightarrow> nat \<times> nat" where
  "longest_zeros i [] current longest = longest"
| "longest_zeros i (s # ss) current longest =
     (if s = 0 then
        let current' = (if snd current = 0 then i else fst current, snd current + 1)
        in longest_zeros (i + 1) ss current' (if snd longest < snd current' then current' else longest)
      else longest_zeros (i + 1) ss (0, 0) longest)"

definition show_segments :: "u128 list \<Rightarrow> string" where
  "show_segments ss = join '':'' (map (\<lambda>s. show_hex (unat s)) ss)"

definition show_ipv6 :: "u128 \<Rightarrow> string" where
  "show_ipv6 a =
     (if v6_is_ipv4_mapped a then ''::ffff:'' @ show_ipv4 (ucast a)
      else
        let ss = segments a; (start, len) = longest_zeros 0 ss (0, 0) (0, 0)
        in if 1 < len then show_segments (take start ss) @ ''::'' @ show_segments (drop (start + len) ss)
           else show_segments ss)"

fun show_ip :: "ip_addr \<Rightarrow> string" where
  "show_ip (IpV4 a) = show_ipv4 a"
| "show_ip (IpV6 a) = show_ipv6 a"

section \<open>Characters and lines\<close>

definition utf8_len :: "char \<Rightarrow> nat" where
  "utf8_len b = (let n = of_char b :: nat in if n < 0xc0 then 1 else if n < 0xe0 then 2 else if n < 0xf0 then 3 else 4)"

function utf8_chars :: "string \<Rightarrow> string list" where
  "utf8_chars [] = []"
| "utf8_chars (b # bs) = take (utf8_len b) (b # bs) # utf8_chars (drop (utf8_len b) (b # bs))"
  by pat_completeness auto

lemma utf8_len_pos: "1 \<le> utf8_len b"
  by (simp add: utf8_len_def Let_def)

termination utf8_chars
  using utf8_len_pos by (relation "measure length") (auto simp: Suc_le_eq)

text \<open>What makes a list of bytes a string: no byte of a longer character is an ASCII byte.\<close>

definition utf8_ok :: "string \<Rightarrow> bool" where
  "utf8_ok s \<longleftrightarrow> list_all (\<lambda>ch. length ch = 1 \<and> is_ascii (hd ch) \<or> list_all (\<lambda>b. \<not> is_ascii b) ch) (utf8_chars s)"

text \<open>\<open>char::is_control\<close>: the category Cc, U+0000 to U+001F and U+007F to U+009F.\<close>

definition char_is_control :: "string \<Rightarrow> bool" where
  "char_is_control ch =
     (case ch of
        [b] \<Rightarrow> is_ascii_control b
      | [b, d] \<Rightarrow> b = CHR 0xC2 \<and> 0x80 \<le> (of_char d :: nat) \<and> (of_char d :: nat) \<le> 0x9f
      | _ \<Rightarrow> False)"

definition str_lines :: "string \<Rightarrow> string list" where
  "str_lines s =
     (let parts = split_on CHR 0x0A s;
          whole = (if last parts = [] then butlast parts else parts)
      in map (\<lambda>l. if l \<noteq> [] \<and> last l = CHR 0x0D then butlast l else l) whole)"

definition starts_with :: "string \<Rightarrow> string \<Rightarrow> bool" where
  "starts_with p s \<longleftrightarrow> take (length p) s = p"

lemma concat_utf8_chars: "concat (utf8_chars s) = s"
  by (induction s rule: utf8_chars.induct) simp_all

lemma utf8_chars_nonempty: "ch \<in> set (utf8_chars s) \<Longrightarrow> ch \<noteq> []"
proof (induction s rule: utf8_chars.induct)
  case (2 b bs)
  have "take (utf8_len b) (b # bs) \<noteq> []" using utf8_len_pos [of b] by simp
  with 2 show ?case by auto
qed simp

end
