(* ===== verification/Nft.thy ===== *)
theory Nft
  imports Rendering Fib Manifest
begin

text \<open>
  The nftables ruleset (\<open>nft.rs\<close>): the text the generator writes, the table of chains and rules it
  denotes, and what the marking chains do to a packet. The text of an address prefix comes from the
  \<open>ipnet\<close> library and is a parameter.
\<close>

unbundle bit_operations_syntax

section \<open>The generator\<close>

definition MARK_PRIORITY :: "32 word" where
  "MARK_PRIORITY = - 150"

fun nfproto :: "family \<Rightarrow> string" where
  "nfproto V4 = ''ipv4''"
| "nfproto V6 = ''ipv6''"

definition quote :: "string \<Rightarrow> string" where
  "quote s = [CHR 0x22] @ s @ [CHR 0x22]"

definition COMMENT_MAX :: nat where
  "COMMENT_MAX = 128"

definition comment_char :: "string \<Rightarrow> string" where
  "comment_char ch = (if ch = [CHR 0x22] then [CHR 0x27] else if char_is_control ch then '' '' else ch)"

fun comment_loop :: "string \<Rightarrow> string list \<Rightarrow> string" where
  "comment_loop out [] = out"
| "comment_loop out (ch # chs) =
     (let c = comment_char ch
      in if COMMENT_MAX < length out + length c then out else comment_loop (out @ c) chs)"

definition comment :: "string \<Rightarrow> string" where
  "comment text = ''comment '' @ [CHR 0x22] @ comment_loop [] (utf8_chars text) @ [CHR 0x22]"

record gen =
  g_mask :: fw_mask
  g_out :: string

definition g_line :: "nat \<Rightarrow> string \<Rightarrow> gen \<Rightarrow> gen" where
  "g_line indent text g = g\<lparr>g_out := g_out g @ replicate indent CHR 0x09 @ text @ [CHR 0x0A]\<rparr>"

definition g_chain :: "string \<Rightarrow> string \<Rightarrow> string \<Rightarrow> gen \<Rightarrow> gen" where
  "g_chain name purpose declaration g =
     (let g0 = if list_ex (starts_with (CHR 0x09 # ''chain '')) (str_lines (g_out g))
               then g\<lparr>g_out := g_out g @ [CHR 0x0A]\<rparr> else g
      in g_line 2 declaration (g_line 2 (comment purpose) (g_line 1 (''chain '' @ name @ '' {'') g0)))"

definition g_set :: "fw_mask \<Rightarrow> string \<Rightarrow> field_value \<Rightarrow> string" where
  "g_set m what v = what @ '' set '' @ what @ '' & '' @ hex8 (NOT (fwm_mask m)) @ '' | '' @ hex8 (fwm_encode m v)"

definition probe_skip :: "fw_mask \<Rightarrow> string" where
  "probe_skip m =
     ''meta mark & '' @ hex8 (fwm_class_mask m) @ '' == '' @ hex8 (fwm_encode m probe_class) @ '' return''"

definition protocol_name :: "string \<Rightarrow> ip_protocol \<Rightarrow> string" where
  "protocol_name l4 proto =
     (case proto of Tcp \<Rightarrow> ''tcp'' | Udp \<Rightarrow> ''udp'' | Sctp \<Rightarrow> ''sctp'' | Icmp \<Rightarrow> l4 | Icmpv6 \<Rightarrow> l4)"

definition policy_value :: "policy \<Rightarrow> field_value \<times> string" where
  "policy_value p =
     (case p_fallback p of
        Balance \<Rightarrow> (fv_policy_balance (p_uplink p), ''balance'')
      | Block \<Rightarrow> (fv_policy_block (p_uplink p), ''block''))"

definition policy_comment :: "config \<Rightarrow> policy \<Rightarrow> string" where
  "policy_comment c p =
     ''policy '' @ p_name p @ '': uplink '' @ (case config_uplink c (p_uplink p) of None \<Rightarrow> [] | Some u \<Rightarrow> u_name u) @
     '' (id '' @ show_nat (unat (id_get (p_uplink p))) @ ''), '' @ family_key (p_family p) @
     '', fallback '' @ snd (policy_value p)"

definition policy_text :: "(ip_net \<Rightarrow> string) \<Rightarrow> fw_mask \<Rightarrow> config \<Rightarrow> policy \<Rightarrow> string" where
  "policy_text show_net m c p =
     (let (ip, l4) = (case p_family p of V4 \<Rightarrow> (''ip'', ''icmp'') | V6 \<Rightarrow> (''ip6'', ''ipv6-icmp''));
          inputs = (case p_input_interface p of
                      Some i \<Rightarrow> quote i
                    | None \<Rightarrow> ''{ '' @ join '', '' (map quote (c_downlinks c)) @ '' }'');
          rule = ''meta nfproto '' @ nfproto (p_family p) @ '' iifname '' @ inputs @ '' ct direction original''
      in rule @
         (case p_source p of Some n \<Rightarrow> '' '' @ ip @ '' saddr '' @ show_net n | None \<Rightarrow> []) @
         (case p_destination p of Some n \<Rightarrow> '' '' @ ip @ '' daddr '' @ show_net n | None \<Rightarrow> []) @
         (case p_protocol p of Some proto \<Rightarrow> '' meta l4proto '' @ protocol_name l4 proto | None \<Rightarrow> []) @
         (case p_destination_port p of
            Some (a, b) \<Rightarrow>
              if a = b then '' th dport '' @ show_nat (unat a)
              else '' th dport '' @ show_nat (unat a) @ ''-'' @ show_nat (unat b)
          | None \<Rightarrow> []) @
         '' '' @ g_set m ''meta mark'' (fst (policy_value p)) @ '' return '' @ comment (policy_comment c p))"

definition g_policy :: "(ip_net \<Rightarrow> string) \<Rightarrow> config \<Rightarrow> policy \<Rightarrow> gen \<Rightarrow> gen" where
  "g_policy show_net c p g = g_line 2 (policy_text show_net (g_mask g) c p) g"

definition restore_line :: "uplink_id \<Rightarrow> gen \<Rightarrow> gen" where
  "restore_line i g =
     (let v = fv_path i
      in g_line 2 (''ct mark & '' @ hex8 (fwm_mask (g_mask g)) @ '' == '' @ hex8 (fwm_encode (g_mask g) v) @ '' '' @
           g_set (g_mask g) ''meta mark'' v @ '' return'') g)"

definition restore_all :: "gen \<Rightarrow> gen" where
  "restore_all g = fold restore_line uplink_id_all g"

definition config_paths :: "config \<Rightarrow> (uplink \<times> family) list" where
  "config_paths c = concat (map (\<lambda>u. map (Pair u) (uplink_families u)) (c_uplinks c))"

definition other_family_skip :: "config \<Rightarrow> string option" where
  "other_family_skip c =
     (case filter (config_manages c) all_families of
        [only] \<Rightarrow> Some (''meta nfproto != '' @ nfproto only @ '' return'')
      | _ \<Rightarrow> None)"

definition skip_line :: "config \<Rightarrow> gen \<Rightarrow> gen" where
  "skip_line c g = (case other_family_skip c of Some s \<Rightarrow> g_line 2 s g | None \<Rightarrow> g)"

definition uplink_comment :: "uplink \<Rightarrow> family \<Rightarrow> string" where
  "uplink_comment u f = ''uplink '' @ u_name u @ '' (id '' @ show_nat (unat (id_get (u_id u))) @ ''), '' @ family_key f"

definition inbound_line :: "uplink \<times> family \<Rightarrow> gen \<Rightarrow> gen" where
  "inbound_line uf g =
     (case uf of (u, f) \<Rightarrow>
      let v = fv_path (u_id u)
      in g_line 2 (''meta nfproto '' @ nfproto f @ '' iifname '' @ quote (u_interface u) @ '' ct direction original '' @
           g_set (g_mask g) ''ct mark'' v @ '' '' @ g_set (g_mask g) ''meta mark'' v @ '' return '' @
           comment (uplink_comment u f @ '': inbound'')) g)"

definition outgoing_line :: "uplink \<times> family \<Rightarrow> gen \<Rightarrow> gen" where
  "outgoing_line uf g =
     (case uf of (u, f) \<Rightarrow>
      let v = fv_path (u_id u)
      in g_line 2 (''meta nfproto '' @ nfproto f @ '' oifname '' @ quote (u_interface u) @ '' ct direction original '' @
           g_set (g_mask g) ''ct mark'' v @ '' '' @ g_set (g_mask g) ''meta mark'' v @ '' return '' @
           comment (uplink_comment u f @ '': outgoing'')) g)"

fun nat_action :: "nat_mode \<Rightarrow> ip_addr auto_or \<Rightarrow> string option" where
  "nat_action NatNone s = None"
| "nat_action Masquerade s = Some ''masquerade''"
| "nat_action Snat (Static (IpV4 a)) = Some (''snat ip to '' @ show_ipv4 a)"
| "nat_action Snat (Static (IpV6 a)) = Some (''snat ip6 to '' @ show_ipv6 a)"
| "nat_action Snat Auto = None"

text \<open>The path of a listed family is expected to exist: its absence is a panic, the outer \<open>None\<close>.\<close>

definition nat_line :: "config \<Rightarrow> uplink \<times> family \<Rightarrow> gen \<Rightarrow> gen option" where
  "nat_line c uf g =
     (case uf of (u, f) \<Rightarrow>
      case uplink_path u f of
        None \<Rightarrow> None
      | Some p \<Rightarrow>
          (case nat_action (ps_nat p) (ps_source p) of
             None \<Rightarrow> Some g
           | Some action \<Rightarrow>
               Some (g_line 2 (''meta nfproto '' @ nfproto f @ '' iifname { '' @ join '', '' (map quote (c_downlinks c)) @
                 '' } oifname '' @ quote (u_interface u) @ '' '' @ action @ '' '' @ comment (uplink_comment u f)) g)))"

definition SECT :: string where
  "SECT = [CHR 0xC2, CHR 0xA7]"

definition prerouting_text :: "(ip_net \<Rightarrow> string) \<Rightarrow> config \<Rightarrow> gen \<Rightarrow> gen" where
  "prerouting_text show_net c g =
     (let g = g_chain ''prerouting''
            (SECT @ ''4.7 step 1: restore the path of known connections, assign new inbound ones'')
            (''type filter hook prerouting priority '' @ show_i32 MARK_PRIORITY @ ''; policy accept;'') g;
          g = skip_line c g;
          g = g_line 2 (''# Only tracked unicast traffic is marked ('' @ SECT @ ''4.8).'') g;
          g = g_line 2 ''ct state untracked return'' g;
          g = g_line 2 ''meta pkttype != host return'' g;
          g = g_line 2 ''# Restore the path value of the connection, for every path id (FR-MARK-3).'' g;
          g = restore_all g;
          g = g_line 2 ''# Multicast and broadcast that the packet type misses (tunnels deliver'' g;
          g = g_line 2 ''# them as host packets) are not assigned either (S2).'' g;
          g = g_line 2 ''ip daddr { 224.0.0.0/4, 255.255.255.255 } return'' g;
          g = g_line 2 ''ip6 daddr ff00::/8 return'' g;
          g = g_line 2 ''meta nfproto ipv4 fib daddr type broadcast return'' g;
          g = g_line 2 (''# New inbound connection on an uplink: assign that uplink'' @ [CHR 0x27] @ ''s path (INV-5).'') g;
          g = fold inbound_line (config_paths c) g;
          g = (if c_policies c \<noteq> [] then
                 g_line 2 (''# the policy value in the packet mark only ('' @ SECT @ ''4.7 step 1.3, FR-POL-1, FR-POL-2).'')
                   (g_line 2 ''# Policies, first match wins: new forwarded connections from downlinks get'' g)
               else g);
          g = fold (g_policy show_net c) (c_policies c) g
      in g_line 1 ''}'' g)"

definition output_text :: "config \<Rightarrow> gen \<Rightarrow> gen" where
  "output_text c g =
     (let g = g_chain ''output''
            (SECT @ ''4.7 step 2: route chain, so that a restored mark triggers a new routing decision'')
            (''type route hook output priority '' @ show_i32 MARK_PRIORITY @ ''; policy accept;'') g;
          g = skip_line c g;
          g = g_line 2 ''# Probe traffic keeps its probe value (INV-6).'' g;
          g = g_line 2 (probe_skip (g_mask g)) g;
          g = g_line 2 ''ct state untracked return'' g;
          g = g_line 2 ''# Restore the path value of the connection, for every path id (FR-MARK-3).'' g;
          g = restore_all g
      in g_line 1 ''}'' g)"

definition postrouting_text :: "config \<Rightarrow> gen \<Rightarrow> gen" where
  "postrouting_text c g =
     (let g = g_chain ''postrouting''
            (SECT @ ''4.7 step 3: outgoing connections get the path they actually left through'')
            (''type filter hook postrouting priority '' @ show_i32 MARK_PRIORITY @ ''; policy accept;'') g;
          g = skip_line c g;
          g = g_line 2 (probe_skip (g_mask g)) g;
          g = g_line 2 ''ct state untracked return'' g;
          g = g_line 2 (''# Only unicast traffic is marked ('' @ SECT @ ''4.8).'') g;
          g = g_line 2 ''ip daddr { 224.0.0.0/4, 255.255.255.255 } return'' g;
          g = g_line 2 ''ip6 daddr ff00::/8 return'' g;
          g = g_line 2 ''# Subnet-directed broadcasts of the egress interface (S2).'' g;
          g = g_line 2 ''meta nfproto ipv4 fib daddr . oif type broadcast return'' g;
          g = g_line 2 ''# Connections that already have a path keep it (INV-2).'' g;
          g = g_line 2 (''ct mark & '' @ hex8 (fwm_mask (g_mask g)) @ '' != 0 return'') g;
          g = fold outgoing_line (config_paths c) g
      in g_line 1 ''}'' g)"

definition nat_text :: "config \<Rightarrow> gen \<Rightarrow> gen option" where
  "nat_text c g =
     (let g = g_chain ''nat'' (SECT @ ''6: source NAT of traffic from the downlinks'')
            (''type nat hook postrouting priority '' @ show_i32 (nat_priority (c_firewall c)) @ ''; policy accept;'') g
      in map_option (g_line 1 ''}'') (fold (\<lambda>uf g. Option.bind g (nat_line c uf)) (config_paths c) (Some g)))"

definition ruleset :: "(ip_net \<Rightarrow> string) \<Rightarrow> config \<Rightarrow> string option" where
  "ruleset show_net c =
     (let g = \<lparr>g_mask = fwmark_mask (c_routing c), g_out = []\<rparr>;
          g = g_line 0 (''table inet '' @ NFT_TABLE @ '' {'') g;
          g = prerouting_text show_net c g;
          g = output_text c g;
          g = postrouting_text c g
      in map_option (\<lambda>g. g_out (g_line 0 ''}'' g)) (nat_text c g))"

definition nft_removal :: string where
  "nft_removal =
     ''add table inet '' @ NFT_TABLE @ [CHR 0x0A] @ ''delete table inet '' @ NFT_TABLE @ [CHR 0x0A]"

definition nft_transaction :: "(ip_net \<Rightarrow> string) \<Rightarrow> config \<Rightarrow> string option" where
  "nft_transaction show_net c = map_option (\<lambda>t. nft_removal @ t) (ruleset show_net c)"

section \<open>The table the text denotes\<close>

datatype mark_kind = MetaMark | CtMark

datatype nft_match =
  MNfproto family | MNotNfproto family | MUntracked | MNotHost
| MMark mark_kind u32 u32 | MMarkNonzero mark_kind u32
| MDaddrNotUnicast4 | MDaddrMulticast6 | MBroadcast | MBroadcastOif
| MIif string | MIifIn "string list" | MOif string | MOriginal
| MSaddr family ip_net | MDaddr family ip_net | MProto family ip_protocol | MPort u16 u16

datatype nft_statement = SetMark mark_kind u32 u32 | ReturnVerdict | MasqueradeTo | SnatTo ip_addr

record nft_rule =
  nr_matches :: "nft_match list"
  nr_statements :: "nft_statement list"
  nr_comment :: "string option"

datatype chain_line = Remark string | NftRule nft_rule

record nft_chain =
  nc_name :: string
  nc_purpose :: string
  nc_declaration :: string
  nc_lines :: "chain_line list"

fun mark_name :: "mark_kind \<Rightarrow> string" where
  "mark_name MetaMark = ''meta mark''"
| "mark_name CtMark = ''ct mark''"

fun address_word :: "family \<Rightarrow> string" where
  "address_word V4 = ''ip''"
| "address_word V6 = ''ip6''"

fun icmp_word :: "family \<Rightarrow> string" where
  "icmp_word V4 = ''icmp''"
| "icmp_word V6 = ''ipv6-icmp''"

fun show_match :: "(ip_net \<Rightarrow> string) \<Rightarrow> nft_match \<Rightarrow> string" where
  "show_match sn (MNfproto f) = ''meta nfproto '' @ nfproto f"
| "show_match sn (MNotNfproto f) = ''meta nfproto != '' @ nfproto f"
| "show_match sn MUntracked = ''ct state untracked''"
| "show_match sn MNotHost = ''meta pkttype != host''"
| "show_match sn (MMark k m v) = mark_name k @ '' & '' @ hex8 m @ '' == '' @ hex8 v"
| "show_match sn (MMarkNonzero k m) = mark_name k @ '' & '' @ hex8 m @ '' != 0''"
| "show_match sn MDaddrNotUnicast4 = ''ip daddr { 224.0.0.0/4, 255.255.255.255 }''"
| "show_match sn MDaddrMulticast6 = ''ip6 daddr ff00::/8''"
| "show_match sn MBroadcast = ''meta nfproto ipv4 fib daddr type broadcast''"
| "show_match sn MBroadcastOif = ''meta nfproto ipv4 fib daddr . oif type broadcast''"
| "show_match sn (MIif i) = ''iifname '' @ quote i"
| "show_match sn (MIifIn is) = ''iifname { '' @ join '', '' (map quote is) @ '' }''"
| "show_match sn (MOif i) = ''oifname '' @ quote i"
| "show_match sn MOriginal = ''ct direction original''"
| "show_match sn (MSaddr f n) = address_word f @ '' saddr '' @ sn n"
| "show_match sn (MDaddr f n) = address_word f @ '' daddr '' @ sn n"
| "show_match sn (MProto f p) = ''meta l4proto '' @ protocol_name (icmp_word f) p"
| "show_match sn (MPort a b) =
     ''th dport '' @ show_nat (unat a) @ (if a = b then [] else ''-'' @ show_nat (unat b))"

fun show_statement :: "nft_statement \<Rightarrow> string" where
  "show_statement (SetMark k m v) = mark_name k @ '' set '' @ mark_name k @ '' & '' @ hex8 m @ '' | '' @ hex8 v"
| "show_statement ReturnVerdict = ''return''"
| "show_statement MasqueradeTo = ''masquerade''"
| "show_statement (SnatTo a) = ''snat '' @ address_word (family_of a) @ '' to '' @ show_ip a"

definition show_rule :: "(ip_net \<Rightarrow> string) \<Rightarrow> nft_rule \<Rightarrow> string" where
  "show_rule sn r =
     join '' '' (map (show_match sn) (nr_matches r) @ map show_statement (nr_statements r) @
       (case nr_comment r of None \<Rightarrow> [] | Some t \<Rightarrow> [comment t]))"

fun show_chain_line :: "(ip_net \<Rightarrow> string) \<Rightarrow> chain_line \<Rightarrow> string" where
  "show_chain_line sn (Remark t) = ''# '' @ t"
| "show_chain_line sn (NftRule r) = show_rule sn r"

definition text_line :: "nat \<Rightarrow> string \<Rightarrow> string" where
  "text_line indent t = replicate indent CHR 0x09 @ t @ [CHR 0x0A]"

definition show_chain :: "(ip_net \<Rightarrow> string) \<Rightarrow> nft_chain \<Rightarrow> string" where
  "show_chain sn ch =
     text_line 1 (''chain '' @ nc_name ch @ '' {'') @ text_line 2 (comment (nc_purpose ch)) @
     text_line 2 (nc_declaration ch) @ concat (map (\<lambda>l. text_line 2 (show_chain_line sn l)) (nc_lines ch)) @
     text_line 1 ''}''"

text \<open>The chains of a table are separated by blank lines.\<close>

definition show_table :: "(ip_net \<Rightarrow> string) \<Rightarrow> nft_chain list \<Rightarrow> string" where
  "show_table sn chs =
     text_line 0 (''table inet '' @ NFT_TABLE @ '' {'') @ join [CHR 0x0A] (map (show_chain sn) chs) @ text_line 0 ''}''"

definition set_field :: "fw_mask \<Rightarrow> mark_kind \<Rightarrow> field_value \<Rightarrow> nft_statement" where
  "set_field m k v = SetMark k (NOT (fwm_mask m)) (fwm_encode m v)"

definition return_rule :: "nft_match \<Rightarrow> chain_line" where
  "return_rule mt = NftRule \<lparr>nr_matches = [mt], nr_statements = [ReturnVerdict], nr_comment = None\<rparr>"

definition restore_rule :: "fw_mask \<Rightarrow> uplink_id \<Rightarrow> chain_line" where
  "restore_rule m i =
     NftRule \<lparr>nr_matches = [MMark CtMark (fwm_mask m) (fwm_encode m (fv_path i))],
              nr_statements = [set_field m MetaMark (fv_path i), ReturnVerdict], nr_comment = None\<rparr>"

definition assign_rule :: "fw_mask \<Rightarrow> (string \<Rightarrow> nft_match) \<Rightarrow> string \<Rightarrow> uplink \<times> family \<Rightarrow> chain_line" where
  "assign_rule m dev label uf =
     NftRule \<lparr>nr_matches = [MNfproto (snd uf), dev (u_interface (fst uf)), MOriginal],
              nr_statements = [set_field m CtMark (fv_path (u_id (fst uf))), set_field m MetaMark (fv_path (u_id (fst uf))),
                ReturnVerdict],
              nr_comment = Some (uplink_comment (fst uf) (snd uf) @ label)\<rparr>"

definition policy_matches :: "config \<Rightarrow> policy \<Rightarrow> nft_match list" where
  "policy_matches c p =
     [MNfproto (p_family p),
      case p_input_interface p of Some i \<Rightarrow> MIif i | None \<Rightarrow> MIifIn (c_downlinks c),
      MOriginal] @
     (case p_source p of Some n \<Rightarrow> [MSaddr (p_family p) n] | None \<Rightarrow> []) @
     (case p_destination p of Some n \<Rightarrow> [MDaddr (p_family p) n] | None \<Rightarrow> []) @
     (case p_protocol p of Some proto \<Rightarrow> [MProto (p_family p) proto] | None \<Rightarrow> []) @
     (case p_destination_port p of Some (a, b) \<Rightarrow> [MPort a b] | None \<Rightarrow> [])"

definition policy_rule :: "fw_mask \<Rightarrow> config \<Rightarrow> policy \<Rightarrow> chain_line" where
  "policy_rule m c p =
     NftRule \<lparr>nr_matches = policy_matches c p,
              nr_statements = [set_field m MetaMark (fst (policy_value p)), ReturnVerdict],
              nr_comment = Some (policy_comment c p)\<rparr>"

definition skip_rules :: "config \<Rightarrow> chain_line list" where
  "skip_rules c =
     (case filter (config_manages c) all_families of [only] \<Rightarrow> [return_rule (MNotNfproto only)] | _ \<Rightarrow> [])"

definition probe_rule :: "fw_mask \<Rightarrow> chain_line" where
  "probe_rule m = return_rule (MMark MetaMark (fwm_class_mask m) (fwm_encode m probe_class))"

fun nat_statement :: "nat_mode \<Rightarrow> ip_addr auto_or \<Rightarrow> nft_statement list" where
  "nat_statement NatNone s = []"
| "nat_statement Masquerade s = [MasqueradeTo]"
| "nat_statement Snat (Static a) = [SnatTo a]"
| "nat_statement Snat Auto = []"

definition nat_rule :: "config \<Rightarrow> uplink \<times> family \<Rightarrow> chain_line list" where
  "nat_rule c uf =
     (case uplink_path (fst uf) (snd uf) of
        None \<Rightarrow> []
      | Some p \<Rightarrow>
          map (\<lambda>s. NftRule \<lparr>nr_matches = [MNfproto (snd uf), MIifIn (c_downlinks c), MOif (u_interface (fst uf))],
                 nr_statements = [s], nr_comment = Some (uplink_comment (fst uf) (snd uf))\<rparr>)
            (nat_statement (ps_nat p) (ps_source p)))"

abbreviation mask_of :: "config \<Rightarrow> fw_mask" where
  "mask_of c \<equiv> fwmark_mask (c_routing c)"

definition mark_declaration :: "string \<Rightarrow> string" where
  "mark_declaration hook = ''type '' @ hook @ '' priority '' @ show_i32 MARK_PRIORITY @ ''; policy accept;''"

definition prerouting_lines :: "config \<Rightarrow> chain_line list" where
  "prerouting_lines c =
     skip_rules c @
     [Remark (''Only tracked unicast traffic is marked ('' @ SECT @ ''4.8).''),
      return_rule MUntracked, return_rule MNotHost,
      Remark ''Restore the path value of the connection, for every path id (FR-MARK-3).''] @
     map (restore_rule (mask_of c)) uplink_id_all @
     [Remark ''Multicast and broadcast that the packet type misses (tunnels deliver'',
      Remark ''them as host packets) are not assigned either (S2).'',
      return_rule MDaddrNotUnicast4, return_rule MDaddrMulticast6, return_rule MBroadcast,
      Remark (''New inbound connection on an uplink: assign that uplink'' @ [CHR 0x27] @ ''s path (INV-5).'')] @
     map (assign_rule (mask_of c) MIif '': inbound'') (config_paths c) @
     (if c_policies c \<noteq> [] then
        [Remark ''Policies, first match wins: new forwarded connections from downlinks get'',
         Remark (''the policy value in the packet mark only ('' @ SECT @ ''4.7 step 1.3, FR-POL-1, FR-POL-2).'')]
      else []) @
     map (policy_rule (mask_of c) c) (c_policies c)"

definition output_lines :: "config \<Rightarrow> chain_line list" where
  "output_lines c =
     skip_rules c @
     [Remark ''Probe traffic keeps its probe value (INV-6).'', probe_rule (mask_of c), return_rule MUntracked,
      Remark ''Restore the path value of the connection, for every path id (FR-MARK-3).''] @
     map (restore_rule (mask_of c)) uplink_id_all"

definition postrouting_lines :: "config \<Rightarrow> chain_line list" where
  "postrouting_lines c =
     skip_rules c @
     [probe_rule (mask_of c), return_rule MUntracked, Remark (''Only unicast traffic is marked ('' @ SECT @ ''4.8).''),
      return_rule MDaddrNotUnicast4, return_rule MDaddrMulticast6,
      Remark ''Subnet-directed broadcasts of the egress interface (S2).'', return_rule MBroadcastOif,
      Remark ''Connections that already have a path keep it (INV-2).'',
      return_rule (MMarkNonzero CtMark (fwm_mask (mask_of c)))] @
     map (assign_rule (mask_of c) MOif '': outgoing'') (config_paths c)"

definition nft_table :: "config \<Rightarrow> nft_chain list" where
  "nft_table c =
     [\<lparr>nc_name = ''prerouting'',
       nc_purpose = SECT @ ''4.7 step 1: restore the path of known connections, assign new inbound ones'',
       nc_declaration = mark_declaration ''filter hook prerouting'', nc_lines = prerouting_lines c\<rparr>,
      \<lparr>nc_name = ''output'',
       nc_purpose = SECT @ ''4.7 step 2: route chain, so that a restored mark triggers a new routing decision'',
       nc_declaration = mark_declaration ''route hook output'', nc_lines = output_lines c\<rparr>,
      \<lparr>nc_name = ''postrouting'',
       nc_purpose = SECT @ ''4.7 step 3: outgoing connections get the path they actually left through'',
       nc_declaration = mark_declaration ''filter hook postrouting'', nc_lines = postrouting_lines c\<rparr>,
      \<lparr>nc_name = ''nat'', nc_purpose = SECT @ ''6: source NAT of traffic from the downlinks'',
       nc_declaration = ''type nat hook postrouting priority '' @ show_i32 (nat_priority (c_firewall c)) @ ''; policy accept;'',
       nc_lines = concat (map (nat_rule c) (config_paths c))\<rparr>]"

section \<open>The generator writes that table\<close>

definition add_text :: "string \<Rightarrow> gen \<Rightarrow> gen" where
  "add_text t g = g\<lparr>g_out := g_out g @ t\<rparr>"

named_theorems gen_texts

lemma add_text_simps [gen_texts, simp]:
  "add_text t (add_text s g) = add_text (s @ t) g" "g_mask (add_text t g) = g_mask g"
  "g_out (add_text t g) = g_out g @ t" "add_text [] g = g"
  by (simp_all add: add_text_def)

lemma g_line_add [gen_texts]: "g_line i t g = add_text (text_line i t) g"
  by (simp add: g_line_def add_text_def text_line_def)

lemma fold_add_text: "(\<And>x g. f x g = add_text (t x (g_mask g)) g) \<Longrightarrow> fold f xs g = add_text (concat (map (\<lambda>x. t x (g_mask g)) xs)) g"
  by (induction xs arbitrary: g) simp_all

abbreviation chain_text :: "(ip_net \<Rightarrow> string) \<Rightarrow> chain_line list \<Rightarrow> string" where
  "chain_text sn ls \<equiv> concat (map (\<lambda>l. text_line 2 (show_chain_line sn l)) ls)"

lemma restore_all_text [gen_texts]:
  "restore_all g = add_text (chain_text sn (map (restore_rule (g_mask g)) uplink_id_all)) g"
  unfolding restore_all_def
  by (subst fold_add_text [where t = "\<lambda>i m. text_line 2 (show_chain_line sn (restore_rule m i))"])
     (simp_all add: restore_line_def g_line_add restore_rule_def show_rule_def set_field_def g_set_def Let_def comp_def)

lemma inbound_text [gen_texts]:
  "fold inbound_line ufs g = add_text (chain_text sn (map (assign_rule (g_mask g) MIif '': inbound'') ufs)) g"
  by (subst fold_add_text [where t = "\<lambda>uf m. text_line 2 (show_chain_line sn (assign_rule m MIif '': inbound'' uf))"])
     (simp_all add: inbound_line_def g_line_add assign_rule_def show_rule_def set_field_def g_set_def Let_def comp_def
       split: prod.splits)

lemma outgoing_text [gen_texts]:
  "fold outgoing_line ufs g = add_text (chain_text sn (map (assign_rule (g_mask g) MOif '': outgoing'') ufs)) g"
  by (subst fold_add_text [where t = "\<lambda>uf m. text_line 2 (show_chain_line sn (assign_rule m MOif '': outgoing'' uf))"])
     (simp_all add: outgoing_line_def g_line_add assign_rule_def show_rule_def set_field_def g_set_def Let_def comp_def
       split: prod.splits)

definition spaced :: "string list \<Rightarrow> string" where
  "spaced ps = concat (map (\<lambda>p. '' '' @ p) ps)"

lemma spaced_simps [simp]: "spaced [] = []" "spaced (p # ps) = '' '' @ p @ spaced ps" "spaced (ps @ qs) = spaced ps @ spaced qs"
  by (simp_all add: spaced_def)

lemma join_spaced: "join '' '' (x # xs) = x @ spaced xs"
  by (simp add: join_Cons spaced_def)

lemma spaced_option: "spaced (map h (case x of Some n \<Rightarrow> [q n] | None \<Rightarrow> [])) = (case x of Some n \<Rightarrow> '' '' @ h (q n) | None \<Rightarrow> [])"
  by (simp split: option.split)

lemma spaced_ports:
  "spaced (map (show_match sn) (case x of Some (a, b) \<Rightarrow> [MPort a b] | None \<Rightarrow> [])) =
     (case x of
        Some (a, b) \<Rightarrow>
          if a = b then '' th dport '' @ show_nat (unat a)
          else '' th dport '' @ show_nat (unat a) @ ''-'' @ show_nat (unat b)
      | None \<Rightarrow> [])"
  by (cases x) (simp_all split: prod.split)

lemma show_policy_inputs:
  "show_match sn (case x of Some i \<Rightarrow> MIif i | None \<Rightarrow> MIifIn ds) =
     ''iifname '' @ (case x of Some i \<Rightarrow> quote i | None \<Rightarrow> ''{ '' @ join '', '' (map quote ds) @ '' }'')"
  by (cases x) simp_all

lemma policy_text_rule: "policy_text sn m c p = show_chain_line sn (policy_rule m c p)"
proof -
  have words: "(case p_family p of V4 \<Rightarrow> (''ip'', ''icmp'') | V6 \<Rightarrow> (''ip6'', ''ipv6-icmp'')) =
    (address_word (p_family p), icmp_word (p_family p))"
    by (cases "p_family p") simp_all
  show ?thesis
    unfolding policy_text_def words policy_rule_def show_chain_line.simps show_rule_def policy_matches_def
    by (simp add: join_spaced spaced_option spaced_ports show_policy_inputs set_field_def g_set_def Let_def
        cong: option.case_cong)
qed

lemma policies_text [gen_texts]:
  "fold (g_policy sn c) ps g = add_text (chain_text sn (map (policy_rule (g_mask g) c) ps)) g"
  by (subst fold_add_text [where t = "\<lambda>p m. text_line 2 (show_chain_line sn (policy_rule m c p))"])
     (simp_all add: g_policy_def g_line_add policy_text_rule comp_def)

lemma skip_text [gen_texts]: "skip_line c g = add_text (chain_text sn (skip_rules c)) g"
  by (auto simp: skip_line_def other_family_skip_def skip_rules_def g_line_add return_rule_def show_rule_def
      split: option.split list.split)

lemma probe_skip_text [gen_texts]: "probe_skip m = show_chain_line sn (probe_rule m)"
  by (simp add: probe_skip_def probe_rule_def return_rule_def show_rule_def)

text \<open>The first chain is not preceded by a blank line, every later one is.\<close>

definition opens_chain :: "string \<Rightarrow> bool" where
  "opens_chain out \<longleftrightarrow> list_ex (starts_with (CHR 0x09 # ''chain '')) (str_lines out)"

definition chain_head :: "string \<Rightarrow> string \<Rightarrow> string \<Rightarrow> string" where
  "chain_head name purpose declaration =
     text_line 1 (''chain '' @ name @ '' {'') @ text_line 2 (comment purpose) @ text_line 2 declaration"

lemma g_chain_text [gen_texts]:
  "g_chain name purpose declaration g =
     add_text ((if opens_chain (g_out g) then [CHR 0x0A] else []) @ chain_head name purpose declaration) g"
  by (simp add: g_chain_def opens_chain_def chain_head_def g_line_add Let_def add_text_def)

lemma str_lines_two:
  assumes "CHR 0x0A \<notin> set a" "CHR 0x0A \<notin> set b" "b \<noteq> []" "last b \<noteq> CHR 0x0D"
  shows "b \<in> set (str_lines (a @ CHR 0x0A # b @ CHR 0x0A # t))"
proof -
  have "split_on CHR 0x0A (a @ CHR 0x0A # b @ CHR 0x0A # t) = a # b # split_on CHR 0x0A t"
    using assms by (simp add: split_on_append)
  then show ?thesis
    using assms by (auto simp: str_lines_def Let_def split: if_splits)
qed

lemma opens_chain_start: "\<not> opens_chain (text_line 0 (''table inet '' @ NFT_TABLE @ '' {''))"
  by (simp add: opens_chain_def text_line_def NFT_TABLE_def str_lines_def Let_def starts_with_def)

lemma opens_chain_later:
  "opens_chain (text_line 0 (''table inet '' @ NFT_TABLE @ '' {'') @ chain_head ''prerouting'' purpose declaration @ t)"
proof -
  let ?a = "''table inet '' @ NFT_TABLE @ '' {''" and ?b = "CHR 0x09 # ''chain prerouting {''"
  have "?b \<in> set (str_lines (?a @ CHR 0x0A # ?b @ CHR 0x0A #
      (text_line 2 (comment purpose) @ text_line 2 declaration @ t)))"
    by (rule str_lines_two) (simp_all add: NFT_TABLE_def)
  then show ?thesis
    unfolding opens_chain_def list_ex_iff
    by (intro bexI [of _ ?b]) (simp_all add: chain_head_def text_line_def starts_with_def)
qed

lemma show_chain_head:
  "show_chain sn ch = chain_head (nc_name ch) (nc_purpose ch) (nc_declaration ch) @ chain_text sn (nc_lines ch) @ text_line 1 ''}''"
  by (simp add: show_chain_def chain_head_def)

lemma return_text: "show_chain_line sn (return_rule mt) = show_match sn mt @ '' return''"
  by (simp add: return_rule_def show_rule_def)

definition separator :: "gen \<Rightarrow> string" where
  "separator g = (if opens_chain (g_out g) then [CHR 0x0A] else [])"

lemma prerouting_text_chain:
  assumes "g_mask g = mask_of c"
  shows "prerouting_text sn c g = add_text (separator g @ show_chain sn (nft_table c ! 0)) g"
  unfolding prerouting_text_def Let_def
  by (simp add: g_line_add g_chain_text skip_text [of _ _ sn] restore_all_text [of _ sn] inbound_text [of _ _ sn] policies_text
      assms nft_table_def show_chain_head prerouting_lines_def return_text mark_declaration_def separator_def)

lemma output_text_chain:
  assumes "g_mask g = mask_of c"
  shows "output_text c g = add_text (separator g @ show_chain sn (nft_table c ! 1)) g"
  unfolding output_text_def Let_def
  by (simp add: g_line_add g_chain_text skip_text [of _ _ sn] restore_all_text [of _ sn] probe_skip_text [of _ sn]
      assms nft_table_def show_chain_head output_lines_def return_text mark_declaration_def separator_def)

lemma postrouting_text_chain:
  assumes "g_mask g = mask_of c"
  shows "postrouting_text c g = add_text (separator g @ show_chain sn (nft_table c ! 2)) g"
  unfolding postrouting_text_def Let_def
  by (simp add: g_line_add g_chain_text skip_text [of _ _ sn] outgoing_text [of _ _ sn] probe_skip_text [of _ sn]
      assms nft_table_def show_chain_head postrouting_lines_def return_text mark_declaration_def separator_def)

lemma nat_line_text:
  assumes "uplink_path (fst uf) (snd uf) \<noteq> None"
  shows "nat_line c uf g = Some (add_text (chain_text sn (nat_rule c uf)) g)"
proof -
  obtain u f p where uf: "uf = (u, f)" and p: "uplink_path u f = Some p" using assms by (cases uf) auto
  have "nat_action (ps_nat p) (ps_source p) = map_option show_statement (case nat_statement (ps_nat p) (ps_source p) of [] \<Rightarrow> None | s # _ \<Rightarrow> Some s)"
    "length (nat_statement (ps_nat p) (ps_source p)) \<le> 1"
    by (cases "(ps_nat p, ps_source p)" rule: nat_action.cases; simp)+
  then show ?thesis
    by (cases "nat_statement (ps_nat p) (ps_source p)")
       (simp_all add: nat_line_def nat_rule_def uf p g_line_add show_rule_def)
qed

lemma config_paths_exist: "uf \<in> set (config_paths c) \<Longrightarrow> uplink_path (fst uf) (snd uf) \<noteq> None"
  by (auto simp: config_paths_def uplink_families_def)

lemma nat_lines_text:
  assumes "\<And>uf. uf \<in> set ufs \<Longrightarrow> uplink_path (fst uf) (snd uf) \<noteq> None"
  shows "fold (\<lambda>uf g. Option.bind g (nat_line c uf)) ufs (Some g) =
    Some (add_text (chain_text sn (concat (map (nat_rule c) ufs))) g)"
  using assms
proof (induction ufs arbitrary: g)
  case (Cons uf ufs)
  then show ?case using nat_line_text [of uf c g sn] by simp
qed simp

lemma nat_text_chain:
  "nat_text c g = Some (add_text (separator g @ show_chain sn (nft_table c ! 3)) g)"
  unfolding nat_text_def Let_def g_chain_text
  by (subst nat_lines_text [where sn = sn])
     (simp_all add: config_paths_exist g_line_add nft_table_def show_chain_head separator_def)

lemma separator_later:
  "separator (add_text (chain_head ''prerouting'' purpose declaration @ t)
     (add_text (text_line 0 (''table inet '' @ NFT_TABLE @ '' {'')) \<lparr>g_mask = m, g_out = []\<rparr>)) = [CHR 0x0A]"
  using opens_chain_later by (simp add: separator_def)

lemma map_join_four:
  "xs = [a, b, d, e] \<Longrightarrow> join nl (map h xs) = h a @ nl @ h b @ nl @ h d @ nl @ h e"
  by simp


section \<open>Comments\<close>

lemma comment_loop_prefix:
  "\<exists>n. comment_loop out chs = out @ concat (map comment_char (take n chs)) \<and>
     (length out \<le> COMMENT_MAX \<longrightarrow> length (comment_loop out chs) \<le> COMMENT_MAX) \<and>
     (length (out @ concat (map comment_char chs)) \<le> COMMENT_MAX \<longrightarrow> n = length chs)"
proof (induction out chs rule: comment_loop.induct)
  case (2 out ch chs)
  show ?case
  proof (cases "COMMENT_MAX < length out + length (comment_char ch)")
    case True
    then show ?thesis by (intro exI [of _ 0]) (simp add: Let_def)
  next
    case False
    from 2 [OF refl False] obtain n where
      "comment_loop (out @ comment_char ch) chs = (out @ comment_char ch) @ concat (map comment_char (take n chs))"
      "length (out @ comment_char ch) \<le> COMMENT_MAX \<longrightarrow> length (comment_loop (out @ comment_char ch) chs) \<le> COMMENT_MAX"
      "length ((out @ comment_char ch) @ concat (map comment_char chs)) \<le> COMMENT_MAX \<longrightarrow> n = length chs"
      by blast
    with False show ?thesis by (intro exI [of _ "Suc n"]) (simp add: Let_def)
  qed
qed (simp add: exI [of _ 0])

lemma comment_char_safe:
  assumes "length ch = 1 \<and> is_ascii (hd ch) \<or> list_all (\<lambda>b. \<not> is_ascii b) ch" "b \<in> set (comment_char ch)"
  shows "b \<noteq> CHR 0x22 \<and> \<not> is_ascii_control b"
proof (cases "ch = [CHR 0x22] \<or> char_is_control ch")
  case True
  with assms(2) have "b = CHR 0x27 \<or> b = CHR '' ''" by (auto simp: comment_char_def split: if_splits)
  then show ?thesis by (auto simp: is_ascii_control_def)
next
  case False
  with assms(2) have b: "b \<in> set ch" by (simp add: comment_char_def)
  from assms(1) show ?thesis
  proof
    assume "length ch = 1 \<and> is_ascii (hd ch)"
    then obtain a where ch: "ch = [a]" by (cases ch) auto
    with b have "b = a" by simp
    with ch False show ?thesis by (simp add: char_is_control_def)
  next
    assume "list_all (\<lambda>b. \<not> is_ascii b) ch"
    with b have "\<not> is_ascii b" by (simp add: list_all_iff)
    then show ?thesis by (auto simp: is_ascii_def is_ascii_control_def)
  qed
qed

text \<open>
  C21. Free text cannot leave its comment: for every text, the comment is a quoted string of at most 128
  bytes that holds no double quote and no ASCII control character, so that it ends neither the string
  nor the line. It is the text with those characters replaced, cut after a whole character, and not cut
  when it fits.
\<close>

theorem comment_is_closed:
  assumes "utf8_ok t"
  shows "\<exists>n. let body = concat (map comment_char (take n (utf8_chars t)))
    in comment t = ''comment '' @ [CHR 0x22] @ body @ [CHR 0x22] \<and> length body \<le> 128 \<and>
       CHR 0x22 \<notin> set body \<and> list_all (\<lambda>b. \<not> is_ascii_control b) body \<and>
       (length (concat (map comment_char (utf8_chars t))) \<le> 128 \<longrightarrow> n = length (utf8_chars t))"
proof -
  define chs where "chs = utf8_chars t"
  from comment_loop_prefix [of "[]" chs] obtain n where n: "comment_loop [] chs = concat (map comment_char (take n chs))"
    "length (comment_loop [] chs) \<le> 128" "length (concat (map comment_char chs)) \<le> 128 \<longrightarrow> n = length chs"
    unfolding COMMENT_MAX_def append_Nil list.size(3) by blast
  have safe: "b \<noteq> CHR 0x22 \<and> \<not> is_ascii_control b" if b: "b \<in> set (concat (map comment_char (take n chs)))" for b
  proof -
    from b obtain ch where "ch \<in> set (take n chs)" "b \<in> set (comment_char ch)" by auto
    with assms show ?thesis
      using comment_char_safe [of ch b] in_set_takeD [of ch n chs] by (simp add: utf8_ok_def list_all_iff chs_def)
  qed
  then have "CHR 0x22 \<notin> set (concat (map comment_char (take n chs)))"
    "list_all (\<lambda>b. \<not> is_ascii_control b) (concat (map comment_char (take n chs)))"
    unfolding list_all_iff by blast+
  with n show ?thesis
    unfolding Let_def comment_def chs_def [symmetric] by (intro exI [of _ n] conjI) simp_all
qed

theorem comment_is_closed_witness:
  "utf8_ok ([CHR 0xC3, CHR 0xA9] @ [CHR 0x22, CHR 0x0A]) \<and>
   comment ([CHR 0xC3, CHR 0xA9] @ [CHR 0x22, CHR 0x0A]) =
     ''comment '' @ [CHR 0x22] @ [CHR 0xC3, CHR 0xA9, CHR 0x27] @ '' '' @ [CHR 0x22]"
proof -
  let ?t = "[CHR 0xC3, CHR 0xA9] @ [CHR 0x22, CHR 0x0A]"
  have chars: "utf8_chars ?t = [[CHR 0xC3, CHR 0xA9], [CHR 0x22], [CHR 0x0A]]"
    by (simp add: utf8_len_def)
  then have ok: "utf8_ok ?t" by (simp add: utf8_ok_def is_ascii_def)
  from comment_is_closed [OF ok] ok chars show ?thesis
    by (auto simp: Let_def comment_char_def char_is_control_def is_ascii_control_def)
qed

end
