(* ===== verification/Marking.thy ===== *)
theory Marking
  imports Nft
begin

text \<open>
  What the marking chains do to a packet. A chain is evaluated as nftables documents it: its rules in
  order, the statements of a rule when all its matches hold, until a \<open>return\<close>. The properties of the
  packet that the kernel computes are fields of the packet; whether a prefix holds an address is a
  parameter.
\<close>

unbundle bit_operations_syntax

section \<open>Evaluation\<close>

record packet =
  k_family :: family
  k_iif :: string
  k_oif :: string
  k_tracked :: bool
  k_host :: bool
  k_original :: bool
  k_source :: ip_addr
  k_destination :: ip_addr
  k_protocol :: "ip_protocol option"
  k_port :: "u16 option"
  k_broadcast :: bool
  k_broadcast_oif :: bool

text \<open>The mark of the packet and the mark of its connection.\<close>

record marks =
  meta_mark :: u32
  ct_mark :: u32

fun mark_get :: "mark_kind \<Rightarrow> marks \<Rightarrow> u32" where
  "mark_get MetaMark mk = meta_mark mk"
| "mark_get CtMark mk = ct_mark mk"

type_synonym prefix_test = "ip_net \<Rightarrow> ip_addr \<Rightarrow> bool"

fun not_unicast4 :: "ip_addr \<Rightarrow> bool" where
  "not_unicast4 (IpV4 a) = (v4_is_multicast a \<or> v4_is_broadcast a)"
| "not_unicast4 (IpV6 a) = False"

fun multicast6 :: "ip_addr \<Rightarrow> bool" where
  "multicast6 (IpV4 a) = False"
| "multicast6 (IpV6 a) = v6_is_multicast a"

definition same_protocol :: "family \<Rightarrow> ip_protocol \<Rightarrow> ip_protocol \<Rightarrow> bool" where
  "same_protocol f p q \<longleftrightarrow> protocol_name (icmp_word f) p = protocol_name (icmp_word f) q"

fun holds :: "prefix_test \<Rightarrow> packet \<Rightarrow> marks \<Rightarrow> nft_match \<Rightarrow> bool" where
  "holds pt k mk (MNfproto f) = (k_family k = f)"
| "holds pt k mk (MNotNfproto f) = (k_family k \<noteq> f)"
| "holds pt k mk MUntracked = (\<not> k_tracked k)"
| "holds pt k mk MNotHost = (\<not> k_host k)"
| "holds pt k mk (MMark kind m v) = (mark_get kind mk AND m = v)"
| "holds pt k mk (MMarkNonzero kind m) = (mark_get kind mk AND m \<noteq> 0)"
| "holds pt k mk MDaddrNotUnicast4 = not_unicast4 (k_destination k)"
| "holds pt k mk MDaddrMulticast6 = multicast6 (k_destination k)"
| "holds pt k mk MBroadcast = (k_family k = V4 \<and> k_broadcast k)"
| "holds pt k mk MBroadcastOif = (k_family k = V4 \<and> k_broadcast_oif k)"
| "holds pt k mk (MIif i) = (k_iif k = i)"
| "holds pt k mk (MIifIn is) = (k_iif k \<in> set is)"
| "holds pt k mk (MOif i) = (k_oif k = i)"
| "holds pt k mk MOriginal = k_original k"
| "holds pt k mk (MSaddr f n) = pt n (k_source k)"
| "holds pt k mk (MDaddr f n) = pt n (k_destination k)"
| "holds pt k mk (MProto f p) = (case k_protocol k of None \<Rightarrow> False | Some q \<Rightarrow> same_protocol f p q)"
| "holds pt k mk (MPort a b) = (case k_port k of None \<Rightarrow> False | Some p \<Rightarrow> a \<le> p \<and> p \<le> b)"

fun perform :: "nft_statement \<Rightarrow> marks \<Rightarrow> marks" where
  "perform (SetMark MetaMark m v) mk = mk\<lparr>meta_mark := meta_mark mk AND m OR v\<rparr>"
| "perform (SetMark CtMark m v) mk = mk\<lparr>ct_mark := ct_mark mk AND m OR v\<rparr>"
| "perform _ mk = mk"

fun run_chain :: "prefix_test \<Rightarrow> packet \<Rightarrow> chain_line list \<Rightarrow> marks \<Rightarrow> marks" where
  "run_chain pt k [] mk = mk"
| "run_chain pt k (Remark t # ls) mk = run_chain pt k ls mk"
| "run_chain pt k (NftRule r # ls) mk =
     (if list_all (holds pt k mk) (nr_matches r) then
        let mk' = fold perform (nr_statements r) mk
        in if ReturnVerdict \<in> set (nr_statements r) then mk' else run_chain pt k ls mk'
      else run_chain pt k ls mk)"

section \<open>The field of a mark\<close>

lemma ff_and: "v AND 0xff = v" for v :: u8
  by (intro bit_word_eqI) (auto simp: bit_and_iff)

lemma mark_is_iff:
  assumes "fwm_ok m"
  shows "mark AND fwm_mask m = fwm_encode m v \<longleftrightarrow> fwm_field m mark = v"
  using mark_selects_iff [OF assms, where mark = mark and k = "0xff" and v = "fv_get v"]
  by (simp add: fwm_mask_encode raw_get ff_and fv_eq_iff)

lemma mark_zero_iff:
  assumes "fwm_ok m"
  shows "mark AND fwm_mask m = 0 \<longleftrightarrow> fwm_field m mark = fv_none"
  using mark_is_iff [OF assms, where mark = mark and v = fv_none] by (simp add: fwm_encode_def fv_none_def)

lemma mark_class_iff:
  assumes "fwm_ok m"
  shows "mark AND fwm_class_mask m = fwm_encode m probe_class \<longleftrightarrow>
    fv_get (fwm_field m mark) AND class_bits = fv_get probe_class"
  using mark_selects_iff [OF assms, where mark = mark and k = class_bits and v = "fv_get probe_class"]
  by (simp add: fwm_class_mask_encode raw_get)

lemma path_not_none: "valid_id i \<Longrightarrow> fv_path i \<noteq> fv_none"
  using id_bits(3) [of i] by (simp add: fv_path_def fv_none_def)

text \<open>A mark whose field is a path value.\<close>

definition has_path :: "fw_mask \<Rightarrow> u32 \<Rightarrow> bool" where
  "has_path m mark \<longleftrightarrow> (\<exists>i. valid_id i \<and> fwm_field m mark = fv_path i)"

definition is_probe :: "fw_mask \<Rightarrow> u32 \<Rightarrow> bool" where
  "is_probe m mark \<longleftrightarrow> fv_get (fwm_field m mark) AND class_bits = fv_get probe_class"

section \<open>Groups of rules\<close>

lemma perform_set [simp]:
  "perform (set_field m MetaMark v) mk = mk\<lparr>meta_mark := put_field m v (meta_mark mk)\<rparr>"
  "perform (set_field m CtMark v) mk = mk\<lparr>ct_mark := put_field m v (ct_mark mk)\<rparr>"
  by (simp_all add: set_field_def put_field_def)

lemma set_field_verdict [simp]: "ReturnVerdict \<noteq> set_field m k v"
  by (simp add: set_field_def)

lemma run_return [simp]:
  "run_chain pt k (return_rule mt # ls) mk = (if holds pt k mk mt then mk else run_chain pt k ls mk)"
  by (simp add: return_rule_def)

lemma run_skip:
  "config_manages c (k_family k) \<Longrightarrow> run_chain pt k (skip_rules c @ ls) mk = run_chain pt k ls mk"
  by (cases "k_family k") (auto simp: skip_rules_def all_families_def)

lemma run_restore:
  assumes "fwm_ok m"
  shows "run_chain pt k (map (restore_rule m) is @ ls) mk =
    (if fwm_field m (ct_mark mk) \<in> fv_path ` set is
     then mk\<lparr>meta_mark := put_field m (fwm_field m (ct_mark mk)) (meta_mark mk)\<rparr>
     else run_chain pt k ls mk)"
  by (induction "is") (auto simp: restore_rule_def mark_is_iff [OF assms])

lemma run_restore_all:
  assumes "fwm_ok m"
  shows "run_chain pt k (map (restore_rule m) uplink_id_all @ ls) mk =
    (if has_path m (ct_mark mk)
     then mk\<lparr>meta_mark := put_field m (fwm_field m (ct_mark mk)) (meta_mark mk)\<rparr>
     else run_chain pt k ls mk)"
  unfolding run_restore [OF assms] has_path_def by (auto simp: set_uplink_id_all)

definition path_of :: "config \<Rightarrow> family \<Rightarrow> string \<Rightarrow> uplink option" where
  "path_of c f i = find (\<lambda>u. u_interface u = i \<and> uplink_path u f \<noteq> None) (c_uplinks c)"

definition assign :: "fw_mask \<Rightarrow> uplink \<Rightarrow> marks \<Rightarrow> marks" where
  "assign m u mk =
     \<lparr>meta_mark = put_field m (fv_path (u_id u)) (meta_mark mk), ct_mark = put_field m (fv_path (u_id u)) (ct_mark mk)\<rparr>"

lemma run_assign:
  assumes "\<And>i. holds pt k mk (dev i) \<longleftrightarrow> i = name"
  shows "run_chain pt k (map (assign_rule m dev label) (config_paths c) @ ls) mk =
    (case (if k_original k then path_of c (k_family k) name else None) of
       Some u \<Rightarrow> assign m u mk
     | None \<Rightarrow> run_chain pt k ls mk)"
proof -
  have fams: "run_chain pt k (map (assign_rule m dev label) (map (Pair u) fs) @ rest) mk =
      (if k_original k \<and> u_interface u = name \<and> k_family k \<in> set fs then assign m u mk else run_chain pt k rest mk)"
    for u fs rest
    by (induction fs) (auto simp: assign_rule_def assms assign_def)
  have "run_chain pt k (map (assign_rule m dev label) (concat (map (\<lambda>u. map (Pair u) (uplink_families u)) us)) @ ls) mk =
      (case (if k_original k then find (\<lambda>u. u_interface u = name \<and> uplink_path u (k_family k) \<noteq> None) us else None) of
         Some u \<Rightarrow> assign m u mk
       | None \<Rightarrow> run_chain pt k ls mk)" for us
  proof (induction us)
    case (Cons u us)
    then show ?case using fams [of u "uplink_families u"] by (auto simp: uplink_families_iff)
  qed simp
  then show ?thesis by (simp add: config_paths_def path_of_def)
qed

definition matched_policy :: "prefix_test \<Rightarrow> config \<Rightarrow> packet \<Rightarrow> policy option" where
  "matched_policy pt c k =
     find (\<lambda>p. list_all (holds pt k \<lparr>meta_mark = 0, ct_mark = 0\<rparr>) (policy_matches c p)) (c_policies c)"

lemma policy_matches_markless:
  "list_all (holds pt k mk) (policy_matches c p) \<longleftrightarrow> list_all (holds pt k mk') (policy_matches c p)"
  by (simp add: policy_matches_def split: option.split prod.split)

lemma run_policies:
  "run_chain pt k (map (policy_rule m c) ps @ ls) mk =
     (case find (\<lambda>p. list_all (holds pt k mk') (policy_matches c p)) ps of
        Some p \<Rightarrow> mk\<lparr>meta_mark := put_field m (fst (policy_value p)) (meta_mark mk)\<rparr>
      | None \<Rightarrow> run_chain pt k ls mk)"
  by (induction ps) (auto simp: policy_rule_def policy_matches_markless [of pt k mk c _ mk'])

section \<open>What the chains decide\<close>

definition not_unicast :: "packet \<Rightarrow> bool \<Rightarrow> bool" where
  "not_unicast k broadcast \<longleftrightarrow>
     not_unicast4 (k_destination k) \<or> multicast6 (k_destination k) \<or> k_family k = V4 \<and> broadcast"

definition prerouting_marks :: "prefix_test \<Rightarrow> config \<Rightarrow> packet \<Rightarrow> marks \<Rightarrow> marks" where
  "prerouting_marks pt c k mk =
     (let m = mask_of c
      in if \<not> k_tracked k \<or> \<not> k_host k then mk
         else if has_path m (ct_mark mk) then mk\<lparr>meta_mark := put_field m (fwm_field m (ct_mark mk)) (meta_mark mk)\<rparr>
         else if not_unicast k (k_broadcast k) then mk
         else case (if k_original k then path_of c (k_family k) (k_iif k) else None) of
                Some u \<Rightarrow> assign m u mk
              | None \<Rightarrow>
                  (case matched_policy pt c k of
                     Some p \<Rightarrow> mk\<lparr>meta_mark := put_field m (fst (policy_value p)) (meta_mark mk)\<rparr>
                   | None \<Rightarrow> mk))"

lemma run_remarks: "run_chain pt k ((if b then [Remark x, Remark y] else []) @ ls) mk = run_chain pt k ls mk"
  by simp

lemma prerouting_run:
  assumes "fwm_ok (mask_of c)" "config_manages c (k_family k)"
  shows "run_chain pt k (prerouting_lines c) mk = prerouting_marks pt c k mk"
proof -
  have dev: "holds pt k mk (MIif i) \<longleftrightarrow> i = k_iif k" for i mk by auto
  have "run_chain pt k (map (policy_rule (mask_of c) c) (c_policies c)) mk =
      (case matched_policy pt c k of
         Some p \<Rightarrow> mk\<lparr>meta_mark := put_field (mask_of c) (fst (policy_value p)) (meta_mark mk)\<rparr>
       | None \<Rightarrow> mk)"
    using run_policies [where ls = "[]" and ps = "c_policies c" and mk' = "\<lparr>meta_mark = 0, ct_mark = 0\<rparr>"]
    by (simp add: matched_policy_def cong: option.case_cong)
  then show ?thesis
    unfolding prerouting_lines_def run_skip [OF assms(2)]
    by (simp add: run_restore_all [OF assms(1)] run_assign [of pt k _ MIif "k_iif k", OF dev] run_remarks
        prerouting_marks_def Let_def not_unicast_def cong: option.case_cong)
qed

lemma output_run:
  assumes "fwm_ok (mask_of c)" "config_manages c (k_family k)"
  shows "run_chain pt k (output_lines c) mk =
    (if is_probe (mask_of c) (meta_mark mk) \<or> \<not> k_tracked k \<or> \<not> has_path (mask_of c) (ct_mark mk) then mk
     else mk\<lparr>meta_mark := put_field (mask_of c) (fwm_field (mask_of c) (ct_mark mk)) (meta_mark mk)\<rparr>)"
  unfolding output_lines_def run_skip [OF assms(2)]
  using run_restore_all [OF assms(1), of pt k "[]" mk]
  by (simp add: probe_rule_def mark_class_iff [OF assms(1)] is_probe_def)

definition postrouting_marks :: "config \<Rightarrow> packet \<Rightarrow> marks \<Rightarrow> marks" where
  "postrouting_marks c k mk =
     (let m = mask_of c
      in if is_probe m (meta_mark mk) \<or> \<not> k_tracked k \<or> not_unicast k (k_broadcast_oif k) \<or>
            fwm_field m (ct_mark mk) \<noteq> fv_none then mk
         else case (if k_original k then path_of c (k_family k) (k_oif k) else None) of
                Some u \<Rightarrow> assign m u mk
              | None \<Rightarrow> mk)"

lemma postrouting_run:
  assumes "fwm_ok (mask_of c)" "config_manages c (k_family k)"
  shows "run_chain pt k (postrouting_lines c) mk = postrouting_marks c k mk"
proof -
  have dev: "holds pt k mk (MOif i) \<longleftrightarrow> i = k_oif k" for i mk by auto
  show ?thesis
    unfolding postrouting_lines_def run_skip [OF assms(2)]
    using run_assign [of pt k mk MOif "k_oif k" "mask_of c" "'': outgoing''" c "[]", OF dev]
    by (simp add: probe_rule_def mark_class_iff [OF assms(1)] mark_zero_iff [OF assms(1)] is_probe_def
        postrouting_marks_def Let_def not_unicast_def cong: option.case_cong)
qed

text \<open>No chain writes a bit of a mark outside the field.\<close>

definition outside :: "fw_mask \<Rightarrow> marks \<Rightarrow> u32 \<times> u32" where
  "outside m mk = (meta_mark mk AND NOT (fwm_mask m), ct_mark mk AND NOT (fwm_mask m))"

definition field_statement :: "fw_mask \<Rightarrow> nft_statement \<Rightarrow> bool" where
  "field_statement m s \<longleftrightarrow> (\<exists>k v. s = set_field m k v) \<or> s = ReturnVerdict"

lemma field_statement_simps [simp]: "field_statement m (set_field m k v)" "field_statement m ReturnVerdict"
  by (auto simp: field_statement_def)

fun field_line :: "fw_mask \<Rightarrow> chain_line \<Rightarrow> bool" where
  "field_line m (Remark t) = True"
| "field_line m (NftRule r) = list_all (field_statement m) (nr_statements r)"

lemma outside_perform: "fwm_ok m \<Longrightarrow> outside m (perform (set_field m k v) mk) = outside m mk"
  by (cases k) (simp_all add: outside_def put_field_outside)

lemma outside_statements:
  "fwm_ok m \<Longrightarrow> list_all (field_statement m) ss \<Longrightarrow>
   outside m (fold perform ss mk) = outside m mk"
  by (induction ss arbitrary: mk) (auto simp: outside_perform field_statement_def)

lemma outside_run: "fwm_ok m \<Longrightarrow> list_all (field_line m) ls \<Longrightarrow> outside m (run_chain pt k ls mk) = outside m mk"
  by (induction pt k ls mk rule: run_chain.induct) (auto simp: outside_statements Let_def)

lemma chains_field_lines:
  "list_all (field_line (mask_of c)) (prerouting_lines c)"
  "list_all (field_line (mask_of c)) (output_lines c)"
  "list_all (field_line (mask_of c)) (postrouting_lines c)"
proof -
  have skip: "list_all (field_line (mask_of c)) (skip_rules c)"
    by (auto simp: skip_rules_def return_rule_def split: list.split)
  note rules = return_rule_def restore_rule_def assign_rule_def policy_rule_def probe_rule_def
  show "list_all (field_line (mask_of c)) (prerouting_lines c)" "list_all (field_line (mask_of c)) (output_lines c)"
    "list_all (field_line (mask_of c)) (postrouting_lines c)"
    using skip by (auto simp: prerouting_lines_def output_lines_def postrouting_lines_def list_all_iff rules)
qed

lemma skipped_family:
  assumes "\<not> config_manages c (k_family k)" "\<exists>f. config_manages c f"
  shows "run_chain pt k (skip_rules c @ ls) mk = mk"
proof -
  obtain f where "config_manages c f" using assms(2) by blast
  with assms(1) show ?thesis
    by (cases f; cases "k_family k") (auto simp: skip_rules_def all_families_def)
qed

text \<open>
  C19. The prerouting chain: a packet of a family the configuration does not manage keeps its marks. Of a
  managed family, a tracked unicast packet of a connection that has a path gets the path's mark; else
  the first packets of a connection that enter by an uplink get the uplink's path in both marks, and
  those that match a policy get the value of the first one in the packet mark only.
\<close>

theorem prerouting_decides:
  assumes "config_wf c" "\<exists>f. config_manages c f"
  shows "run_chain pt k (prerouting_lines c) mk =
    (if config_manages c (k_family k) then prerouting_marks pt c k mk else mk)"
proof (cases "config_manages c (k_family k)")
  case True
  then show ?thesis using prerouting_run assms(1) by (simp add: config_wf_def routing_wf_def)
next
  case False
  then show ?thesis using skipped_family [OF False assms(2)] by (simp add: prerouting_lines_def)
qed

lemma path_of_unique:
  assumes "distinct (map u_interface (c_uplinks c))" "u \<in> set (c_uplinks c)" "uplink_path u f \<noteq> None"
  shows "path_of c f (u_interface u) = Some u"
proof (cases "path_of c f (u_interface u)")
  case None
  with assms(2,3) show ?thesis by (auto simp: path_of_def find_None_iff_mem)
next
  case (Some v)
  then have "v \<in> set (c_uplinks c)" "u_interface v = u_interface u"
    by (auto simp: path_of_def dest: find_Some_iff_mem)
  with assms(1,2) have "v = u" by (auto simp: distinct_map dest: inj_onD)
  with Some show ?thesis by simp
qed

lemma has_path_field: "valid_id i \<Longrightarrow> fwm_field m mark = fv_path i \<Longrightarrow> has_path m mark"
  by (auto simp: has_path_def)

lemma postrouting_assigns:
  assumes "config_wf c" "u \<in> set (c_uplinks c)" "uplink_path u f \<noteq> None"
    and "k_family k = f" "k_tracked k" "k_original k" "k_oif k = u_interface u" "\<not> not_unicast k (k_broadcast_oif k)"
    and "fwm_field (mask_of c) (ct_mark mk) = fv_none" "\<not> is_probe (mask_of c) (meta_mark mk)"
  shows "run_chain pt k (postrouting_lines c) mk = assign (mask_of c) u mk"
proof -
  have ok: "fwm_ok (mask_of c)" "distinct (map u_interface (c_uplinks c))"
    using assms(1) by (simp_all add: config_wf_def routing_wf_def uplinks_wf_def)
  have "config_manages c (k_family k)" using assms(2,3,4) by (auto simp: config_manages_iff)
  with postrouting_run [OF ok(1)] path_of_unique [OF ok(2) assms(2,3)] assms(4-) show ?thesis
    by (simp add: postrouting_marks_def Let_def)
qed

lemma known_connection:
  assumes "config_wf c" "u \<in> set (c_uplinks c)" "uplink_path u f \<noteq> None" "k_family k = f"
    and "fwm_field (mask_of c) (ct_mark mk) = fv_path (u_id u)"
  shows "k_tracked k \<Longrightarrow> k_host k \<Longrightarrow>
      run_chain pt k (prerouting_lines c) mk = mk\<lparr>meta_mark := put_field (mask_of c) (fv_path (u_id u)) (meta_mark mk)\<rparr>"
    and "ct_mark (run_chain pt k (prerouting_lines c) mk) = ct_mark mk \<or> \<not> k_tracked k \<or> \<not> k_host k"
    and "run_chain pt k (postrouting_lines c) mk = mk"
    and "k_tracked k \<Longrightarrow> \<not> is_probe (mask_of c) (meta_mark mk) \<Longrightarrow>
      run_chain pt k (output_lines c) mk = mk\<lparr>meta_mark := put_field (mask_of c) (fv_path (u_id u)) (meta_mark mk)\<rparr>"
proof -
  have ok: "fwm_ok (mask_of c)" "valid_id (u_id u)"
    using assms(1,2) by (simp_all add: config_wf_def routing_wf_def uplinks_wf_def)
  have mg: "config_manages c (k_family k)" using assms(2-4) by (auto simp: config_manages_iff)
  note hp = has_path_field [OF ok(2) assms(5)] and nn = path_not_none [OF ok(2)]
  show "k_tracked k \<Longrightarrow> k_host k \<Longrightarrow>
      run_chain pt k (prerouting_lines c) mk = mk\<lparr>meta_mark := put_field (mask_of c) (fv_path (u_id u)) (meta_mark mk)\<rparr>"
    using prerouting_run [OF ok(1) mg] hp assms(5) by (simp add: prerouting_marks_def Let_def)
  then show "ct_mark (run_chain pt k (prerouting_lines c) mk) = ct_mark mk \<or> \<not> k_tracked k \<or> \<not> k_host k" by auto
  show "run_chain pt k (postrouting_lines c) mk = mk"
    using postrouting_run [OF ok(1) mg] assms(5) nn by (simp add: postrouting_marks_def Let_def)
  show "k_tracked k \<Longrightarrow> \<not> is_probe (mask_of c) (meta_mark mk) \<Longrightarrow>
      run_chain pt k (output_lines c) mk = mk\<lparr>meta_mark := put_field (mask_of c) (fv_path (u_id u)) (meta_mark mk)\<rparr>"
    using output_run [OF ok(1) mg] hp assms(5) by simp
qed


text \<open>
  C20. The marks of other programs are safe: whatever the configuration, the packet and the marks, no
  marking chain changes a bit outside the mask. A probe keeps both its marks on its way out, and a
  connection that has a path keeps it in every chain.
\<close>

theorem foreign_bits_kept:
  assumes "config_wf c" "lines \<in> {prerouting_lines c, output_lines c, postrouting_lines c}"
  shows "outside (mask_of c) (run_chain pt k lines mk) = outside (mask_of c) mk \<and>
    (config_manages c (k_family k) \<and> has_path (mask_of c) (ct_mark mk) \<longrightarrow> ct_mark (run_chain pt k lines mk) = ct_mark mk) \<and>
    (config_manages c (k_family k) \<and> is_probe (mask_of c) (meta_mark mk) \<and> lines \<noteq> prerouting_lines c \<longrightarrow>
       run_chain pt k lines mk = mk)"
proof -
  have ok: "fwm_ok (mask_of c)" using assms(1) by (simp add: config_wf_def routing_wf_def)
  have out: "outside (mask_of c) (run_chain pt k lines mk) = outside (mask_of c) mk"
    using assms(2) chains_field_lines [of c] outside_run [OF ok] by blast
  have path: "ct_mark (run_chain pt k lines mk) = ct_mark mk"
    if "config_manages c (k_family k)" "has_path (mask_of c) (ct_mark mk)"
  proof -
    have "fwm_field (mask_of c) (ct_mark mk) \<noteq> fv_none"
      using that(2) path_not_none unfolding has_path_def by metis
    with that assms(2) show ?thesis
      by (auto simp: prerouting_run [OF ok] output_run [OF ok] postrouting_run [OF ok] prerouting_marks_def
          postrouting_marks_def Let_def)
  qed
  have "run_chain pt k lines mk = mk"
    if "config_manages c (k_family k)" "is_probe (mask_of c) (meta_mark mk)" "lines \<noteq> prerouting_lines c"
    using that assms(2) by (auto simp: output_run [OF ok] postrouting_run [OF ok] postrouting_marks_def Let_def)
  with out path show ?thesis by blast
qed

section \<open>An example\<close>

definition example_packet :: packet where
  "example_packet =
     \<lparr>k_family = V4, k_iif = ''lan0'', k_oif = u_interface (example_uplink 1 ''a'' 1), k_tracked = True, k_host = True,
      k_original = True, k_source = IpV4 0x0a000001, k_destination = IpV4 0x01010101, k_protocol = Some Tcp,
      k_port = Some 443, k_broadcast = False, k_broadcast_oif = False\<rparr>"

abbreviation no_marks :: marks where
  "no_marks \<equiv> \<lparr>meta_mark = 0, ct_mark = 0\<rparr>"

lemma example_mask [simp]: "mask_of example_config = fwm_default"
  by (simp add: example_config_def)

lemma field_zero: "fwm_field m 0 = fv_none" "\<not> is_probe m 0"
  by (simp_all add: fwm_field_def fv_none_def is_probe_def probe_class_def)

lemma example_unicast: "\<not> not_unicast example_packet b"
  if "\<not> b"
  using that by (simp add: not_unicast_def example_packet_def v4_is_multicast_def v4_is_broadcast_def octet_def in_range_def
      word_le_iff_unat)

theorem prerouting_decides_witness:
  "run_chain (\<lambda>_ _. False) (example_packet\<lparr>k_iif := u_interface (example_uplink 1 ''a'' 1)\<rparr>) (prerouting_lines example_config)
     no_marks = assign fwm_default (example_uplink 1 ''a'' 1) no_marks"
proof -
  let ?k = "example_packet\<lparr>k_iif := u_interface (example_uplink 1 ''a'' 1)\<rparr>"
  let ?u = "example_uplink 1 ''a'' 1"
  have u: "?u \<in> set (c_uplinks example_config)" "uplink_path ?u V4 \<noteq> None"
    by (simp_all add: example_config_uplinks example_uplink_def)
  have "distinct (map u_interface (c_uplinks example_config))"
    using example_config_wf by (simp add: config_wf_def uplinks_wf_def)
  note pu = path_of_unique [OF this u]
  have mg: "config_manages example_config V4" unfolding config_manages_iff using u by blast
  have nu: "\<not> not_unicast ?k False" using example_unicast [of False] by (simp add: not_unicast_def)
  have np: "\<not> has_path fwm_default 0" using path_not_none field_zero(1) unfolding has_path_def by metis
  have ex: "\<exists>f. config_manages example_config f" using mg by blast
  show ?thesis
    unfolding prerouting_decides [OF example_config_wf ex]
    using mg pu nu np by (simp add: prerouting_marks_def Let_def example_packet_def)
qed


theorem foreign_bits_kept_witness:
  "outside fwm_default (run_chain (\<lambda>_ _. False) example_packet (postrouting_lines example_config)
     \<lparr>meta_mark = 0xff00ffff, ct_mark = 0x1200ffff\<rparr>) =
   outside fwm_default \<lparr>meta_mark = 0xff00ffff, ct_mark = 0x1200ffff\<rparr>"
  using foreign_bits_kept [OF example_config_wf, of "postrouting_lines example_config" "\<lambda>_ _. False" example_packet
      "\<lparr>meta_mark = 0xff00ffff, ct_mark = 0x1200ffff\<rparr>"] by simp

end
