(* ===== verification/Events.thy ===== *)
theory Events
  imports Rendering
begin

text \<open>
  Events (\<open>events.rs\<close>): the bus that numbers the events, stores them in the bounded ring and offers
  them to the notifiers' queues, the pages of the history that the API serves, and the timestamps. The
  JSON of an event comes from the serialisation library and is a parameter, as is the clock.
\<close>

section \<open>The ring\<close>

definition RING_EVENTS :: nat where
  "RING_EVENTS = 1000"

definition RING_BYTES :: nat where
  "RING_BYTES = 4 * 2 ^ 20"

record ring =
  rg_instance :: string
  rg_events :: "(u64 \<times> string) list"
  rg_bytes :: nat

record page =
  pg_instance :: string
  pg_reset :: bool
  pg_truncated :: bool
  pg_events :: "string list"

definition ring_new :: "string \<Rightarrow> ring" where
  "ring_new inst = \<lparr>rg_instance = inst, rg_events = [], rg_bytes = 0\<rparr>"

fun ring_evict :: "(u64 \<times> string) list \<Rightarrow> nat \<Rightarrow> (u64 \<times> string) list \<times> nat" where
  "ring_evict [] bytes = ([], bytes)"
| "ring_evict (e # es) bytes =
     (if RING_EVENTS < length (e # es) \<or> RING_BYTES < bytes then ring_evict es (bytes - length (snd e))
      else (e # es, bytes))"

definition ring_push :: "u64 \<Rightarrow> string \<Rightarrow> ring \<Rightarrow> ring" where
  "ring_push seq json r =
     (case ring_evict (rg_events r @ [(seq, json)]) (rg_bytes r + length json) of (es, bytes) \<Rightarrow>
        r\<lparr>rg_events := es, rg_bytes := bytes\<rparr>)"

definition ring_latest :: "ring \<Rightarrow> u64" where
  "ring_latest r = (if rg_events r = [] then 0 else fst (last (rg_events r)))"

fun page_events :: "u64 option \<Rightarrow> nat \<Rightarrow> nat \<Rightarrow> (u64 \<times> string) list \<Rightarrow> string list \<Rightarrow> nat \<Rightarrow> string list" where
  "page_events after limit max_bytes [] out bytes = out"
| "page_events after limit max_bytes ((seq, json) # es) out bytes =
     (if (case after of Some a \<Rightarrow> seq \<le> a | None \<Rightarrow> False) then page_events after limit max_bytes es out bytes
      else if min limit RING_EVENTS \<le> length out \<or> out \<noteq> [] \<and> max_bytes < bytes + length json then out
      else page_events after limit max_bytes es (out @ [json]) (bytes + length json))"

definition ring_page :: "ring \<Rightarrow> string option \<Rightarrow> u64 option \<Rightarrow> nat \<Rightarrow> nat \<Rightarrow> page" where
  "ring_page r inst after limit max_bytes =
     (let latest = ring_latest r;
          reset = (case inst of Some i \<Rightarrow> i \<noteq> rg_instance r | None \<Rightarrow> False) \<or>
                  (case after of Some a \<Rightarrow> latest < a | None \<Rightarrow> False);
          after = (if reset then None else after);
          oldest = (case rg_events r of e # _ \<Rightarrow> fst e | [] \<Rightarrow> latest + 1);
          truncated = (case after of Some a \<Rightarrow> a + 1 < oldest | None \<Rightarrow> False)
      in \<lparr>pg_instance = rg_instance r, pg_reset = reset, pg_truncated = truncated,
          pg_events = page_events after limit max_bytes (rg_events r) [] 0\<rparr>)"

section \<open>Events and the bus\<close>

record 'v event =
  ev_seq :: u64
  ev_instance :: string
  ev_timestamp :: string
  ev_kind :: string
  ev_uplink :: "string option"
  ev_family :: "string option"
  ev_old :: "'v option"
  ev_new :: "'v option"
  ev_reason :: "string option"
  ev_message :: string
  ev_test :: bool

record 'v new_event =
  ne_kind :: string
  ne_uplink :: "string option"
  ne_family :: "string option"
  ne_old :: "'v option"
  ne_new :: "'v option"
  ne_reason :: "string option"
  ne_message :: string

definition new_event_new :: "string \<Rightarrow> string \<Rightarrow> 'v new_event" where
  "new_event_new kind message =
     \<lparr>ne_kind = kind, ne_uplink = None, ne_family = None, ne_old = None, ne_new = None, ne_reason = None,
      ne_message = message\<rparr>"

definition ne_with_path :: "string \<Rightarrow> string \<Rightarrow> 'v new_event \<Rightarrow> 'v new_event" where
  "ne_with_path uplink f e = e\<lparr>ne_uplink := Some uplink, ne_family := Some f\<rparr>"

definition ne_with_uplink :: "string \<Rightarrow> 'v new_event \<Rightarrow> 'v new_event" where
  "ne_with_uplink uplink e = e\<lparr>ne_uplink := Some uplink\<rparr>"

definition ne_with_family :: "string \<Rightarrow> 'v new_event \<Rightarrow> 'v new_event" where
  "ne_with_family f e = e\<lparr>ne_family := Some f\<rparr>"

definition ne_with_change :: "'v \<Rightarrow> 'v \<Rightarrow> 'v new_event \<Rightarrow> 'v new_event" where
  "ne_with_change old new e = e\<lparr>ne_old := Some old, ne_new := Some new\<rparr>"

definition ne_with_reason :: "string \<Rightarrow> 'v new_event \<Rightarrow> 'v new_event" where
  "ne_with_reason reason e = e\<lparr>ne_reason := Some reason\<rparr>"

text \<open>A notifier with its queue: the channel is bounded by the capacity, the bytes by \<open>max_bytes\<close>.\<close>

record 'v notifier =
  nt_name :: string
  nt_queue :: "('v event \<times> nat) list"
  nt_capacity :: nat
  nt_bytes :: nat
  nt_max_bytes :: nat
  nt_select :: "string list option"
  nt_dropped :: u64

record 'v bus =
  bu_instance :: string
  bu_seq :: u64
  bu_ring :: ring
  bu_latest :: u64
  bu_notifiers :: "'v notifier list"

definition bus_new :: "string \<Rightarrow> 'v bus" where
  "bus_new inst =
     \<lparr>bu_instance = inst, bu_seq = 0, bu_ring = ring_new inst, bu_latest = 0, bu_notifiers = []\<rparr>"

definition add_notifier :: "string \<Rightarrow> nat \<Rightarrow> nat \<Rightarrow> 'v bus \<Rightarrow> 'v bus" where
  "add_notifier name capacity max_bytes b =
     b\<lparr>bu_notifiers := bu_notifiers b @
        [\<lparr>nt_name = name, nt_queue = [], nt_capacity = capacity, nt_bytes = 0, nt_max_bytes = max_bytes,
          nt_select = None, nt_dropped = 0\<rparr>]\<rparr>"

definition bus_select :: "string \<Rightarrow> string list option \<Rightarrow> 'v bus \<Rightarrow> 'v bus" where
  "bus_select name types b =
     b\<lparr>bu_notifiers := map (\<lambda>n. if nt_name n = name then n\<lparr>nt_select := types\<rparr> else n) (bu_notifiers b)\<rparr>"

definition bus_dropped :: "'v bus \<Rightarrow> (string \<times> u64) list" where
  "bus_dropped b = map (\<lambda>n. (nt_name n, nt_dropped n)) (bu_notifiers b)"

text \<open>Offering an event: counted, checked against both bounds, and taken off again when it is refused.\<close>

definition offer :: "'v event \<Rightarrow> nat \<Rightarrow> 'v notifier \<Rightarrow> 'v notifier" where
  "offer e sz n =
     (if (case nt_select n of Some types \<Rightarrow> ev_kind e \<notin> set types | None \<Rightarrow> False) then n
      else if nt_max_bytes n < nt_bytes n + sz \<or> nt_capacity n \<le> length (nt_queue n)
      then n\<lparr>nt_dropped := nt_dropped n + 1\<rparr>
      else n\<lparr>nt_bytes := nt_bytes n + sz, nt_queue := nt_queue n @ [(e, sz)]\<rparr>)"

definition emit :: "('v event \<Rightarrow> string) \<Rightarrow> string \<Rightarrow> 'v new_event \<Rightarrow> 'v bus \<Rightarrow> 'v bus \<times> 'v event" where
  "emit to_json now e b =
     (let seq = bu_seq b + 1;
          event = \<lparr>ev_seq = seq, ev_instance = bu_instance b, ev_timestamp = now, ev_kind = ne_kind e,
                   ev_uplink = ne_uplink e, ev_family = ne_family e, ev_old = ne_old e, ev_new = ne_new e,
                   ev_reason = ne_reason e, ev_message = ne_message e, ev_test = False\<rparr>;
          json = to_json event
      in (b\<lparr>bu_seq := seq, bu_ring := ring_push seq json (bu_ring b),
            bu_notifiers := map (offer event (length json)) (bu_notifiers b), bu_latest := seq\<rparr>, event))"

definition queue_recv :: "'v notifier \<Rightarrow> ('v event \<times> 'v notifier) option" where
  "queue_recv n =
     (case nt_queue n of
        [] \<Rightarrow> None
      | (e, sz) # rest \<Rightarrow> Some (e, n\<lparr>nt_queue := rest, nt_bytes := nt_bytes n - sz\<rparr>))"

section \<open>Timestamps\<close>

definition civil :: "int \<Rightarrow> int \<times> nat \<times> nat" where
  "civil days =
     (let z = days + 719468;
          era = z div 146097;
          doe = z mod 146097;
          yoe = (doe - doe div 1460 + doe div 36524 - doe div 146096) div 365;
          doy = doe - (365 * yoe + yoe div 4 - yoe div 100);
          mp = (5 * doy + 2) div 153;
          d = nat (doy - (153 * mp + 2) div 5 + 1);
          m = nat (if mp < 10 then mp + 3 else mp - 9);
          y = yoe + era * 400 + (if m \<le> 2 then 1 else 0)
      in (y, m, d))"

definition pad_nat :: "nat \<Rightarrow> nat \<Rightarrow> string" where
  "pad_nat width n = (let s = show_nat n in replicate (width - length s) CHR ''0'' @ s)"

definition pad_int :: "nat \<Rightarrow> int \<Rightarrow> string" where
  "pad_int width i =
     (if 0 \<le> i then pad_nat width (nat i) else CHR ''-'' # pad_nat (width - 1) (nat (- i)))"

text \<open>The time since the epoch in nanoseconds; an earlier time is the epoch.\<close>

definition rfc3339 :: "int \<Rightarrow> string" where
  "rfc3339 t =
     (let d = nat (max 0 t);
          secs = d div 10 ^ 9;
          days = secs div 86400;
          rem = secs mod 86400;
          (y, m, day) = civil (int days)
      in pad_int 4 y @ ''-'' @ pad_nat 2 m @ ''-'' @ pad_nat 2 day @ ''T'' @ pad_nat 2 (rem div 3600) @ '':'' @
         pad_nat 2 (rem mod 3600 div 60) @ '':'' @ pad_nat 2 (rem mod 60) @ ''.'' @
         pad_nat 3 (d mod 10 ^ 9 div 10 ^ 6) @ ''Z'')"

section \<open>What the ring holds\<close>

definition bytes_of :: "(u64 \<times> string) list \<Rightarrow> nat" where
  "bytes_of es = sum_list (map (\<lambda>e. length (snd e)) es)"

lemma bytes_of_simps [simp]: "bytes_of [] = 0" "bytes_of (e # es) = length (snd e) + bytes_of es"
  "bytes_of (es @ fs) = bytes_of es + bytes_of fs"
  by (simp_all add: bytes_of_def)

definition fits :: "(u64 \<times> string) list \<Rightarrow> bool" where
  "fits es \<longleftrightarrow> length es \<le> RING_EVENTS \<and> bytes_of es \<le> RING_BYTES"

text \<open>The longest suffix within the bounds.\<close>

fun longest_fit :: "(u64 \<times> string) list \<Rightarrow> (u64 \<times> string) list" where
  "longest_fit [] = []"
| "longest_fit (e # es) = (if fits (e # es) then e # es else longest_fit es)"

lemma evict_longest_fit: "ring_evict es (bytes_of es) = (longest_fit es, bytes_of (longest_fit es))"
  by (induction es) (auto simp: fits_def not_le)

lemma longest_fit_append: "longest_fit (longest_fit es @ [x]) = longest_fit (es @ [x])"
proof (induction es)
  case (Cons e es)
  have "\<not> fits (e # es) \<Longrightarrow> \<not> fits (e # es @ [x])" by (auto simp: fits_def)
  with Cons show ?case by simp
qed simp

lemma longest_fit_suffix: "\<exists>k\<le>length es. longest_fit es = drop k es"
proof (induction es)
  case (Cons e es)
  then obtain k where "k \<le> length es" "longest_fit es = drop k es" by blast
  then show ?case by (cases "fits (e # es)") (auto intro: exI [of _ 0] exI [of _ "Suc k"])
qed simp

lemma longest_fit_fits: "fits (longest_fit es)"
  by (induction es) (auto simp: fits_def)

lemma longest_fit_maximal: "fits (drop k es) \<Longrightarrow> length (drop k es) \<le> length (longest_fit es)"
proof (induction es arbitrary: k)
  case (Cons e es)
  show ?case
  proof (cases k)
    case (Suc j)
    with Cons have "length (drop j es) \<le> length (longest_fit es)" by simp
    with Suc show ?thesis by auto
  qed (use Cons.prems in simp)
qed simp

definition numbered :: "string list \<Rightarrow> (u64 \<times> string) list" where
  "numbered js = map (\<lambda>(i, j). (of_nat i, j)) (enumerate 1 js)"

lemma numbered_snoc: "numbered (js @ [j]) = numbered js @ [(of_nat (Suc (length js)), j)]"
  by (simp add: numbered_def enumerate_append_eq)

lemma length_numbered [simp]: "length (numbered js) = length js"
  by (simp add: numbered_def)

lemma nth_numbered: "i < length js \<Longrightarrow> numbered js ! i = (of_nat (Suc i), js ! i)"
  by (simp add: numbered_def nth_enumerate_eq)

text \<open>The bus after a list of emissions, each with its time.\<close>

definition emit_all :: "('v event \<Rightarrow> string) \<Rightarrow> (string \<times> 'v new_event) list \<Rightarrow> 'v bus \<Rightarrow> 'v bus" where
  "emit_all to_json es b = fold (\<lambda>(now, e) b. fst (emit to_json now e b)) es b"

fun emitted :: "('v event \<Rightarrow> string) \<Rightarrow> (string \<times> 'v new_event) list \<Rightarrow> 'v bus \<Rightarrow> string list" where
  "emitted to_json [] b = []"
| "emitted to_json ((now, e) # es) b =
     to_json (snd (emit to_json now e b)) # emitted to_json es (fst (emit to_json now e b))"

lemma length_emitted [simp]: "length (emitted to_json es b) = length es"
  by (induction to_json es b rule: emitted.induct) simp_all

definition ring_holds :: "ring \<Rightarrow> string list \<Rightarrow> bool" where
  "ring_holds r js \<longleftrightarrow> rg_events r = longest_fit (numbered js) \<and> rg_bytes r = bytes_of (rg_events r)"

lemma ring_holds_push:
  assumes "ring_holds r js"
  shows "ring_holds (ring_push (of_nat (Suc (length js))) j r) (js @ [j])"
proof -
  have "rg_bytes r + length j = bytes_of (rg_events r @ [(of_nat (Suc (length js)), j)])"
    using assms by (simp add: ring_holds_def)
  then show ?thesis
    using assms
    by (simp add: ring_push_def evict_longest_fit longest_fit_append numbered_snoc ring_holds_def del: bytes_of_simps)
qed

lemma emit_all_ring:
  "ring_holds (bu_ring b) js \<Longrightarrow> bu_seq b = of_nat (length js) \<Longrightarrow> bu_latest b = bu_seq b \<Longrightarrow>
   ring_holds (bu_ring (emit_all to_json es b)) (js @ emitted to_json es b) \<and>
   bu_seq (emit_all to_json es b) = of_nat (length js + length es) \<and>
   bu_latest (emit_all to_json es b) = bu_seq (emit_all to_json es b) \<and>
   rg_instance (bu_ring (emit_all to_json es b)) = rg_instance (bu_ring b)"
proof (induction to_json es b arbitrary: js rule: emitted.induct)
  case (2 to_json now e es b)
  let ?b = "fst (emit to_json now e b)" and ?j = "to_json (snd (emit to_json now e b))"
  have "bu_ring ?b = ring_push (of_nat (Suc (length js))) ?j (bu_ring b)" "bu_seq ?b = of_nat (Suc (length js))"
    "bu_latest ?b = bu_seq ?b"
    using 2(3,4) by (simp_all add: emit_def Let_def add.commute)
  moreover have "rg_instance (bu_ring ?b) = rg_instance (bu_ring b)"
    by (simp add: emit_def Let_def ring_push_def split: prod.split)
  moreover have "emit_all to_json ((now, e) # es) b = emit_all to_json es ?b" by (simp add: emit_all_def)
  ultimately show ?case
    using 2(1) [of "js @ [?j]"] ring_holds_push [OF 2(2), of ?j] by simp
qed (simp add: emit_all_def)

text \<open>
  C37. The history: after any emissions the ring holds the longest suffix of the serialised events, numbered
  from 1 in the order they were emitted, that keeps within 1000 events and 4 MiB, and its byte count
  is exact.
\<close>

theorem ring_holds_longest_suffix:
  "let b = emit_all to_json es (bus_new inst); js = emitted to_json es (bus_new inst)
   in rg_events (bu_ring b) = longest_fit (numbered js) \<and>
      length (rg_events (bu_ring b)) \<le> RING_EVENTS \<and> bytes_of (rg_events (bu_ring b)) \<le> RING_BYTES \<and>
      rg_bytes (bu_ring b) = bytes_of (rg_events (bu_ring b)) \<and> bu_latest b = of_nat (length es)"
proof -
  let ?b = "emit_all to_json es (bus_new inst)" and ?js = "emitted to_json es (bus_new inst)"
  have "ring_holds (bu_ring ?b) ?js" "bu_latest ?b = of_nat (length es)"
    using emit_all_ring [of "bus_new inst" "[]" to_json es]
    by (simp_all add: bus_new_def ring_new_def ring_holds_def numbered_def)
  with longest_fit_fits [of "numbered ?js"] show ?thesis
    by (simp add: Let_def ring_holds_def fits_def)
qed

section \<open>Reading the history\<close>

lemma page_events_prefix:
  "\<exists>k. page_events after limit mb es out bytes =
       out @ map snd (take k (filter (\<lambda>e. case after of Some a \<Rightarrow> a < fst e | None \<Rightarrow> True) es)) \<and>
     (0 < limit \<and> out = [] \<and> filter (\<lambda>e. case after of Some a \<Rightarrow> a < fst e | None \<Rightarrow> True) es \<noteq> [] \<longrightarrow> 0 < k) \<and>
     length (page_events after limit mb es out bytes) \<le> max (length out) limit"
proof (induction after limit mb es out bytes rule: page_events.induct)
  case (2 after limit mb seq json es out bytes)
  let ?P = "\<lambda>e. case after of Some a \<Rightarrow> a < fst e | None \<Rightarrow> True"
  show ?case
  proof (cases "case after of Some a \<Rightarrow> seq \<le> a | None \<Rightarrow> False")
    case True
    then have "\<not> ?P (seq, json)" by (auto split: option.splits)
    with 2(1) [OF True] True show ?thesis by simp
  next
    case new: False
    then have P: "?P (seq, json)" by (auto split: option.splits)
    show ?thesis
    proof (cases "min limit RING_EVENTS \<le> length out \<or> out \<noteq> [] \<and> mb < bytes + length json")
      case True
      then show ?thesis using new
        by (intro exI [of _ 0]) (auto simp: RING_EVENTS_def)
    next
      case False
      from 2(2) [OF new False] obtain k where
        "page_events after limit mb es (out @ [json]) (bytes + length json) = (out @ [json]) @ map snd (take k (filter ?P es))"
        "length (page_events after limit mb es (out @ [json]) (bytes + length json)) \<le> max (length (out @ [json])) limit"
        by blast
      with new False P show ?thesis by (intro exI [of _ "Suc k"]) auto
    qed
  qed
qed simp

lemma numbered_after:
  assumes "length js < 2 ^ 64 - 1" "a \<le> length js" "k \<le> length js"
  shows "filter (\<lambda>e. of_nat a < fst e) (drop k (numbered js)) = drop (max a k) (numbered js)"
proof -
  have num: "fst (numbered js ! i) = of_nat (Suc i)" if "i < length js" for i
    using that by (simp add: nth_numbered)
  have lt: "(of_nat a :: u64) < of_nat (Suc i) \<longleftrightarrow> a \<le> i" if "i < length js" for i
    using that assms(1,2) by (simp add: word_less_nat_alt unat_of_nat_small less_Suc_eq_le del: of_nat_Suc)
  define b where "b = max a k"
  then have b: "a \<le> b" "k \<le> b" "b = a \<or> b = k" by auto
  have split: "drop k (numbered js) = take (b - k) (drop k (numbered js)) @ drop b (numbered js)"
    using append_take_drop_id [of "b - k" "drop k (numbered js)"] b(2) by simp
  have old: "\<not> of_nat a < fst e" if "e \<in> set (take (b - k) (drop k (numbered js)))" for e
  proof -
    from that obtain j where "j < b - k" "k + j < length js" "e = numbered js ! (k + j)"
      by (auto simp: in_set_conv_nth)
    with num [of "k + j"] lt [of "k + j"] b(3) show ?thesis by auto
  qed
  have new: "of_nat a < fst e" if "e \<in> set (drop b (numbered js))" for e
  proof -
    from that obtain j where "j < length js - b" "e = numbered js ! (b + j)"
      by (auto simp: in_set_conv_nth)
    with num [of "b + j"] lt [of "b + j"] b(1) show ?thesis by auto
  qed
  have "filter (\<lambda>e. of_nat a < fst e) (take (b - k) (drop k (numbered js))) = []"
    "filter (\<lambda>e. of_nat a < fst e) (drop b (numbered js)) = drop b (numbered js)"
    using old new unfolding filter_empty_conv filter_id_conv by blast+
  then show ?thesis unfolding b_def [symmetric] by (metis append_Nil filter_append split)
qed

lemma map_snd_numbered: "map snd (numbered js) = js"
  by (rule nth_equalityI) (simp_all add: nth_numbered)

text \<open>The number of events evicted so far.\<close>

definition evicted :: "ring \<Rightarrow> string list \<Rightarrow> nat" where
  "evicted r js = length js - length (rg_events r)"

lemma ring_holds_drop:
  assumes "ring_holds r js"
  shows "rg_events r = drop (evicted r js) (numbered js)" "evicted r js \<le> length js"
proof -
  obtain k where "k \<le> length (numbered js)" "longest_fit (numbered js) = drop k (numbered js)"
    using longest_fit_suffix by blast
  with assms show "rg_events r = drop (evicted r js) (numbered js)" by (simp add: ring_holds_def evicted_def)
qed (simp add: evicted_def)

lemma longest_fit_nonempty:
  assumes "length (snd x) \<le> RING_BYTES"
  shows "longest_fit (es @ [x]) \<noteq> []"
proof -
  have "fits (drop (length es) (es @ [x]))" using assms by (simp add: fits_def RING_EVENTS_def)
  from longest_fit_maximal [OF this] show ?thesis by auto
qed

lemma ring_holds_nonempty:
  assumes "ring_holds r js" "js \<noteq> []" "list_all (\<lambda>j. length j \<le> RING_BYTES) js"
  shows "rg_events r \<noteq> []"
proof -
  from assms(2) obtain ks j where js: "js = ks @ [j]" by (metis rev_exhaust)
  with assms show ?thesis
    using longest_fit_nonempty [of "(of_nat (Suc (length ks)), j)" "numbered ks"]
    by (simp add: ring_holds_def numbered_snoc)
qed

lemma ring_latest_holds:
  assumes "ring_holds r js" "list_all (\<lambda>j. length j \<le> RING_BYTES) js"
  shows "ring_latest r = of_nat (length js)"
proof (cases "js = []")
  case True
  with assms show ?thesis by (simp add: ring_holds_def numbered_def ring_latest_def)
next
  case False
  note ne = ring_holds_nonempty [OF assms(1) False assms(2)]
  have "last (rg_events r) = numbered js ! (length js - 1)"
    using ring_holds_drop [OF assms(1)] ne by (simp add: last_conv_nth)
  with False ne show ?thesis by (simp add: ring_latest_def nth_numbered del: of_nat_Suc)
qed

lemma ring_oldest_holds:
  assumes "ring_holds r js" "list_all (\<lambda>j. length j \<le> RING_BYTES) js"
  shows "(case rg_events r of e # _ \<Rightarrow> fst e | [] \<Rightarrow> ring_latest r + 1) = of_nat (Suc (evicted r js))"
proof (cases "rg_events r")
  case Nil
  with ring_holds_nonempty [OF assms(1) _ assms(2)] have "js = []" by blast
  with Nil ring_latest_holds [OF assms] show ?thesis by (simp add: evicted_def)
next
  case (Cons e es)
  from Cons ring_holds_drop [OF assms(1)] have "evicted r js < length js" "e = numbered js ! evicted r js"
    by (metis drop_eq_Nil2 length_numbered linorder_not_le list.distinct(1),
        metis drop_eq_Nil2 hd_drop_conv_nth length_numbered linorder_not_le list.distinct(1) list.sel(1))
  with Cons show ?thesis by (simp add: nth_numbered del: of_nat_Suc)
qed

text \<open>
  C38. Reading the history loses and repeats nothing: a client of this instance that has read the first
  \<open>a\<close> events gets, in order and without a gap, the next ones that are still stored, at least one if the
  limit allows any and there is one; the page says that it is truncated exactly when an event it had not
  read is gone, and the cursor is not reset.
\<close>

theorem page_continues:
  assumes "ring_holds r js" "list_all (\<lambda>j. length j \<le> RING_BYTES) js" "length js < 2 ^ 64 - 1"
    and "a \<le> length js" "inst = None \<or> inst = Some (rg_instance r)"
  shows "\<exists>n. ring_page r inst (Some (of_nat a)) limit mb =
      \<lparr>pg_instance = rg_instance r, pg_reset = False, pg_truncated = (a < evicted r js),
       pg_events = take n (drop (max a (evicted r js)) js)\<rparr> \<and>
    (0 < limit \<and> a < length js \<longrightarrow> 0 < n) \<and> length (take n (drop (max a (evicted r js)) js)) \<le> limit"
proof -
  let ?k = "evicted r js"
  note holds = ring_holds_drop [OF assms(1)] and latest = ring_latest_holds [OF assms(1,2)]
    and oldest = ring_oldest_holds [OF assms(1,2)]
  have small: "a < 2 ^ 64 - 1" "?k < 2 ^ 64 - 1" using assms(3,4) holds(2) by simp_all
  have reset: "\<not> ring_latest r < of_nat a"
    using latest assms(3,4) by (simp add: word_less_nat_alt unat_of_nat_small)
  have trunc: "(of_nat a + 1 < (of_nat (Suc ?k) :: u64)) \<longleftrightarrow> a < ?k"
  proof -
    have "of_nat a + 1 = (of_nat (Suc a) :: u64)" by simp
    then have "of_nat a + 1 < (of_nat (Suc ?k) :: u64) \<longleftrightarrow> of_nat (Suc a) < (of_nat (Suc ?k) :: u64)" by (simp only:)
    also have "(of_nat (Suc a) < (of_nat (Suc ?k) :: u64)) \<longleftrightarrow> Suc a < Suc ?k"
      using small by (simp add: word_less_nat_alt unat_of_nat_small del: of_nat_Suc)
    finally show ?thesis by simp
  qed
  have after: "filter (\<lambda>e. of_nat a < fst e) (rg_events r) = drop (max a ?k) (numbered js)"
    unfolding holds(1) by (rule numbered_after [OF assms(3,4) holds(2)])
  have sel: "filter (\<lambda>e. case Some (of_nat a) of Some a \<Rightarrow> a < fst e | None \<Rightarrow> True) (rg_events r) = drop (max a ?k) (numbered js)"
    using after by simp
  obtain n where n0: "page_events (Some (of_nat a)) limit mb (rg_events r) [] 0 =
      [] @ map snd (take n (drop (max a ?k) (numbered js)))"
    "0 < limit \<and> [] = ([] :: string list) \<and> drop (max a ?k) (numbered js) \<noteq> [] \<longrightarrow> 0 < n"
    "length (page_events (Some (of_nat a)) limit mb (rg_events r) [] 0) \<le> max (length ([] :: string list)) limit"
    using page_events_prefix [of "Some (of_nat a)" limit mb "rg_events r" "[]" 0] unfolding sel by blast
  then have n: "page_events (Some (of_nat a)) limit mb (rg_events r) [] 0 = map snd (take n (drop (max a ?k) (numbered js)))"
    "0 < limit \<and> max a ?k < length js \<longrightarrow> 0 < n"
    "length (page_events (Some (of_nat a)) limit mb (rg_events r) [] 0) \<le> limit"
    by auto
  have events: "map snd (take n (drop (max a ?k) (numbered js))) = take n (drop (max a ?k) js)"
    by (simp add: take_map [symmetric] drop_map [symmetric] map_snd_numbered)
  have more: "max a ?k < length js" if "a < length js"
  proof -
    from that have "js \<noteq> []" by auto
    then have "0 < length (rg_events r)" using ring_holds_nonempty [OF assms(1) _ assms(2)] by blast
    with that show ?thesis unfolding evicted_def by linarith
  qed
  show ?thesis
    using assms(5) reset trunc oldest n events more
    by (intro exI [of _ n]) (auto simp: ring_page_def Let_def)
qed

definition example_ring :: ring where
  "example_ring = ring_push 2 ''{}'' (ring_push 1 ''[]'' (ring_new ''i''))"

lemma example_ring_eq: "example_ring = \<lparr>rg_instance = ''i'', rg_events = [(1, ''[]''), (2, ''{}'')], rg_bytes = 4\<rparr>"
  by (simp add: example_ring_def ring_push_def ring_new_def RING_EVENTS_def RING_BYTES_def)

theorem page_continues_witness:
  "\<exists>n>0. ring_page example_ring (Some ''i'') (Some 1) 10 1000 =
     \<lparr>pg_instance = ''i'', pg_reset = False, pg_truncated = False, pg_events = take n [''{}'']\<rparr>"
proof -
  have h: "ring_holds example_ring [''[]'', ''{}'']"
    by (simp add: ring_holds_def example_ring_eq numbered_def fits_def RING_EVENTS_def RING_BYTES_def)
  show ?thesis
    using page_continues [OF h, of 1 "Some ''i''" 10 1000]
    by (auto simp: RING_BYTES_def example_ring_eq evicted_def)
qed

section \<open>The queue of a notifier\<close>

text \<open>
  The emitter and the notifier's task run in parallel: what \<open>emit\<close> and \<open>recv\<close> do to the shared byte count
  and to the channel are separate steps, in any interleaving. The emitter adds the size and then
  sends, or takes the size back and counts a drop; the receiver takes an event and then subtracts its
  size.
\<close>

datatype emitter = EmitIdle | EmitSend nat | EmitUndo nat

datatype receiver = RecvIdle | RecvTook nat

record queue_state =
  qs_queue :: "nat list"
  qs_bytes :: nat
  qs_emitter :: emitter
  qs_receiver :: receiver
  qs_offered :: nat
  qs_taken :: nat
  qs_dropped :: nat

inductive queue_step :: "nat \<Rightarrow> nat \<Rightarrow> queue_state \<Rightarrow> queue_state \<Rightarrow> bool" for capacity max_bytes where
  step_add: "qs_emitter s = EmitIdle \<Longrightarrow>
    queue_step capacity max_bytes s
      (s\<lparr>qs_bytes := qs_bytes s + sz, qs_offered := qs_offered s + 1,
         qs_emitter := if max_bytes < qs_bytes s + sz then EmitUndo sz else EmitSend sz\<rparr>)"
| step_send: "qs_emitter s = EmitSend sz \<Longrightarrow> length (qs_queue s) < capacity \<Longrightarrow>
    queue_step capacity max_bytes s (s\<lparr>qs_queue := qs_queue s @ [sz], qs_emitter := EmitIdle\<rparr>)"
| step_full: "qs_emitter s = EmitSend sz \<Longrightarrow> capacity \<le> length (qs_queue s) \<Longrightarrow>
    queue_step capacity max_bytes s (s\<lparr>qs_emitter := EmitUndo sz\<rparr>)"
| step_undo: "qs_emitter s = EmitUndo sz \<Longrightarrow>
    queue_step capacity max_bytes s
      (s\<lparr>qs_bytes := qs_bytes s - sz, qs_dropped := qs_dropped s + 1, qs_emitter := EmitIdle\<rparr>)"
| step_take: "qs_receiver s = RecvIdle \<Longrightarrow> qs_queue s = sz # rest \<Longrightarrow>
    queue_step capacity max_bytes s
      (s\<lparr>qs_queue := rest, qs_receiver := RecvTook sz, qs_taken := qs_taken s + 1\<rparr>)"
| step_sub: "qs_receiver s = RecvTook sz \<Longrightarrow>
    queue_step capacity max_bytes s (s\<lparr>qs_bytes := qs_bytes s - sz, qs_receiver := RecvIdle\<rparr>)"

inductive_cases queue_stepE: "queue_step capacity max_bytes s s'"

definition queue_start :: queue_state where
  "queue_start = \<lparr>qs_queue = [], qs_bytes = 0, qs_emitter = EmitIdle, qs_receiver = RecvIdle,
     qs_offered = 0, qs_taken = 0, qs_dropped = 0\<rparr>"

inductive queue_reachable :: "nat \<Rightarrow> nat \<Rightarrow> queue_state \<Rightarrow> bool" for capacity max_bytes where
  queue_init: "queue_reachable capacity max_bytes queue_start"
| queue_next: "queue_reachable capacity max_bytes s \<Longrightarrow> queue_step capacity max_bytes s s' \<Longrightarrow>
    queue_reachable capacity max_bytes s'"

fun emitter_bytes :: "emitter \<Rightarrow> nat" where
  "emitter_bytes EmitIdle = 0"
| "emitter_bytes (EmitSend n) = n"
| "emitter_bytes (EmitUndo n) = n"

fun sending :: "emitter \<Rightarrow> nat" where
  "sending (EmitSend n) = n"
| "sending _ = 0"

fun receiver_bytes :: "receiver \<Rightarrow> nat" where
  "receiver_bytes RecvIdle = 0"
| "receiver_bytes (RecvTook n) = n"

definition queue_inv :: "nat \<Rightarrow> nat \<Rightarrow> queue_state \<Rightarrow> bool" where
  "queue_inv capacity max_bytes s \<longleftrightarrow>
     qs_bytes s = sum_list (qs_queue s) + emitter_bytes (qs_emitter s) + receiver_bytes (qs_receiver s) \<and>
     sum_list (qs_queue s) + sending (qs_emitter s) \<le> max_bytes \<and> length (qs_queue s) \<le> capacity \<and>
     qs_offered s = qs_taken s + length (qs_queue s) + qs_dropped s + (if qs_emitter s = EmitIdle then 0 else 1)"

lemma queue_inv_step: "queue_step capacity max_bytes s s' \<Longrightarrow> queue_inv capacity max_bytes s \<Longrightarrow> queue_inv capacity max_bytes s'"
  by (induction rule: queue_step.induct) (auto simp: queue_inv_def)



text \<open>Offering without an interleaved receiver is those steps in one.\<close>

definition queue_of :: "'v notifier \<Rightarrow> nat list" where
  "queue_of n = map snd (nt_queue n)"

lemma offer_steps:
  assumes "nt_select n = None" "nt_bytes n = sum_list (queue_of n)"
    and "s = \<lparr>qs_queue = queue_of n, qs_bytes = nt_bytes n, qs_emitter = EmitIdle, qs_receiver = RecvIdle,
      qs_offered = i, qs_taken = t, qs_dropped = d\<rparr>"
  shows "\<exists>s'. (queue_step (nt_capacity n) (nt_max_bytes n))\<^sup>*\<^sup>* s s' \<and> qs_queue s' = queue_of (offer e sz n) \<and>
    qs_bytes s' = nt_bytes (offer e sz n) \<and> qs_emitter s' = EmitIdle"
proof -
  let ?R = "queue_step (nt_capacity n) (nt_max_bytes n)"
  let ?e = "if nt_max_bytes n < nt_bytes n + sz then EmitUndo sz else EmitSend sz"
  let ?a = "s\<lparr>qs_bytes := nt_bytes n + sz, qs_offered := i + 1, qs_emitter := ?e\<rparr>"
  have a: "?R s ?a" using step_add [of s, where sz = sz] assms(3) by simp
  have undo: "?R (s\<lparr>qs_bytes := nt_bytes n + sz, qs_offered := i + 1, qs_emitter := EmitUndo sz\<rparr>)
      (s\<lparr>qs_offered := i + 1, qs_dropped := d + 1\<rparr>)"
    using step_undo [of "s\<lparr>qs_bytes := nt_bytes n + sz, qs_offered := i + 1, qs_emitter := EmitUndo sz\<rparr>" sz] assms(3) by simp
  show ?thesis
  proof (cases "nt_max_bytes n < nt_bytes n + sz")
    case True
    with a undo have "?R\<^sup>*\<^sup>* s (s\<lparr>qs_offered := i + 1, qs_dropped := d + 1\<rparr>)"
      by (simp add: converse_rtranclp_into_rtranclp)
    with True assms show ?thesis
      by (intro exI [of _ "s\<lparr>qs_offered := i + 1, qs_dropped := d + 1\<rparr>"]) (simp add: offer_def queue_of_def)
  next
    case bytes: False
    show ?thesis
    proof (cases "length (nt_queue n) < nt_capacity n")
      case True
      let ?b = "s\<lparr>qs_bytes := nt_bytes n + sz, qs_offered := i + 1, qs_queue := queue_of n @ [sz]\<rparr>"
      have "?R ?a ?b" using step_send [of ?a sz] bytes True assms(3) by (simp add: queue_of_def)
      with a have "?R\<^sup>*\<^sup>* s ?b" by (simp add: converse_rtranclp_into_rtranclp)
      with True bytes assms show ?thesis by (intro exI [of _ ?b]) (simp add: offer_def queue_of_def)
    next
      case False
      have "?R ?a (s\<lparr>qs_bytes := nt_bytes n + sz, qs_offered := i + 1, qs_emitter := EmitUndo sz\<rparr>)"
        using step_full [of ?a sz] bytes False assms(3) by (simp add: queue_of_def)
      with a undo have "?R\<^sup>*\<^sup>* s (s\<lparr>qs_offered := i + 1, qs_dropped := d + 1\<rparr>)"
        by (meson converse_rtranclp_into_rtranclp rtranclp.rtrancl_refl)
      with False bytes assms show ?thesis
        by (intro exI [of _ "s\<lparr>qs_offered := i + 1, qs_dropped := d + 1\<rparr>"]) (simp add: offer_def queue_of_def)
    qed
  qed
qed

end
