(* ===== verification/Calendar.thy ===== *)
theory Calendar
  imports Events
begin

text \<open>
  The dates of the timestamps: \<open>civil\<close> is the proleptic Gregorian calendar. The reference is the calendar
  as it is usually told, one day after the other with the lengths of the months and the leap years;
  the arithmetic of \<open>civil\<close> counts days in eras of 400 years that begin on the first of March.
\<close>

section \<open>The calendar\<close>

definition leap :: "int \<Rightarrow> bool" where
  "leap y \<longleftrightarrow> y mod 4 = 0 \<and> (y mod 100 \<noteq> 0 \<or> y mod 400 = 0)"

definition month_days :: "int \<Rightarrow> nat \<Rightarrow> nat" where
  "month_days y m = (if m = 2 then if leap y then 29 else 28 else if m \<in> {4, 6, 9, 11} then 30 else 31)"

fun next_day :: "int \<times> nat \<times> nat \<Rightarrow> int \<times> nat \<times> nat" where
  "next_day (y, m, d) =
     (if d < month_days y m then (y, m, d + 1) else if m < 12 then (y, m + 1, 1) else (y + 1, 1, 1))"

section \<open>Days of an era\<close>

text \<open>The first day of a year of the era, and the year of a day.\<close>

definition era_days :: "int \<Rightarrow> int" where
  "era_days y = 365 * y + y div 4 - y div 100 + (if y = 400 then 1 else 0)"

definition era_sum :: "int \<Rightarrow> int" where
  "era_sum d = d - d div 1460 + d div 36524 - d div 146096"

definition era_year :: "int \<Rightarrow> int" where
  "era_year d = era_sum d div 365"

definition month_day :: "int \<Rightarrow> int \<times> int" where
  "month_day doy =
     (let mp = (5 * doy + 2) div 153 in (if mp < 10 then mp + 3 else mp - 9, doy - (153 * mp + 2) div 5 + 1))"

lemma years_checked:
  "\<forall>y\<in>set [0..399]. era_year (era_days y) = y \<and> era_year (era_days (y + 1) - 1) = y \<and>
     era_days (y + 1) - era_days y = (if leap (y + 1) then 366 else 365)"
  by code_simp

definition year_day_step :: "int \<Rightarrow> bool" where
  "year_day_step doy =
     (case month_day doy of (m, d) \<Rightarrow>
        1 \<le> m \<and> m \<le> 12 \<and> 1 \<le> d \<and> (m = 2 \<longrightarrow> d \<le> 28) \<and> (m = 2 \<and> d = 28 \<longleftrightarrow> doy = 364) \<and>
        month_day (doy + 1) =
          (if d < (if m = 2 then 29 else if m = 4 \<or> m = 6 \<or> m = 9 \<or> m = 11 then 30 else 31) then (m, d + 1)
           else if m < 12 then (m + 1, 1) else (1, 1)))"

lemma months_checked: "list_all year_day_step [0..364]"
  by code_simp

lemma sum_step: "b' \<le> b + 1 \<Longrightarrow> c \<le> c' \<Longrightarrow> e' = e \<Longrightarrow> d - b + c - e \<le> d + 1 - b' + c' - e'" for b c d e :: int
  by simp

lemma era_sum_mono_step:
  assumes "0 \<le> d" "d < 146096"
  shows "era_sum d \<le> era_sum (d + 1)"
proof (cases "d = 146095")
  case False
  have "(d + 1) div 1460 \<le> (d + 1460) div 1460" by (rule zdiv_mono1) simp_all
  also have "\<dots> = d div 1460 + 1" by (rule div_add_self2) simp
  finally have "(d + 1) div 1460 \<le> d div 1460 + 1" .
  moreover have "d div 36524 \<le> (d + 1) div 36524" by (rule zdiv_mono1) simp_all
  moreover have "(d + 1) div 146096 = d div 146096"
    using False assms div_pos_pos_trivial [of d 146096] div_pos_pos_trivial [of "d + 1" 146096] by simp
  ultimately show ?thesis unfolding era_sum_def by (rule sum_step)
qed (simp add: era_sum_def)

lemma era_sum_mono: "0 \<le> a \<Longrightarrow> a \<le> b \<Longrightarrow> b \<le> 146096 \<Longrightarrow> era_sum a \<le> era_sum b"
proof (induction "nat (b - a)" arbitrary: b)
  case (Suc n)
  then have "era_sum a \<le> era_sum (b - 1)" by (intro Suc.hyps(1)) simp_all
  moreover have "era_sum (b - 1) \<le> era_sum b" using Suc era_sum_mono_step [of "b - 1"] by simp
  ultimately show ?case by simp
qed simp

lemma era_year_mono: "0 \<le> a \<Longrightarrow> a \<le> b \<Longrightarrow> b \<le> 146096 \<Longrightarrow> era_year a \<le> era_year b"
  unfolding era_year_def by (intro zdiv_mono1 era_sum_mono) simp_all

lemma era_year_facts:
  assumes "0 \<le> y" "y < 400"
  shows "era_year (era_days y) = y" "era_year (era_days (y + 1) - 1) = y"
    "era_days (y + 1) = era_days y + (if leap (y + 1) then 366 else 365)"
proof -
  have "y \<in> set [0..399]" using assms by simp
  from bspec [OF years_checked this]
  show "era_year (era_days y) = y" "era_year (era_days (y + 1) - 1) = y"
    "era_days (y + 1) = era_days y + (if leap (y + 1) then 366 else 365)" by (simp_all split: if_splits)
qed

lemma era_days_bounds: "0 \<le> y \<Longrightarrow> y \<le> 400 \<Longrightarrow> 0 \<le> era_days y \<and> era_days y \<le> 146097"
  by (auto simp: era_days_def)

lemma era_year_eq:
  assumes "0 \<le> y" "y < 400" "era_days y \<le> d" "d < era_days (y + 1)"
  shows "era_year d = y"
proof -
  have b: "0 \<le> era_days y" "era_days (y + 1) \<le> 146097" using era_days_bounds [of y] era_days_bounds [of "y + 1"] assms by auto
  have "era_year (era_days y) \<le> era_year d" by (rule era_year_mono) (use assms b in simp_all)
  moreover have "era_year d \<le> era_year (era_days (y + 1) - 1)" by (rule era_year_mono) (use assms b in simp_all)
  ultimately show ?thesis using era_year_facts [OF assms(1,2)] by simp
qed

lemma year_exists:
  assumes "0 \<le> d" "d < 146097"
  obtains y where "0 \<le> y" "y < 400" "era_days y \<le> d" "d < era_days (y + 1)"
proof -
  have "\<exists>y. 0 \<le> y \<and> y < int n \<and> era_days y \<le> d \<and> d < era_days (y + 1)" if "d < era_days (int n)" for n
    using that
  proof (induction n)
    case 0
    with assms show ?case by (simp add: era_days_def)
  next
    case (Suc n)
    show ?case
    proof (cases "d < era_days (int n)")
      case True
      with Suc.IH show ?thesis by fastforce
    next
      case False
      with Suc.prems show ?thesis by (intro exI [of _ "int n"]) (simp add: add.commute)
    qed
  qed
  from this [of 400] assms that show thesis by (auto simp: era_days_def)
qed

lemma civil_shape:
  assumes "0 \<le> y" "y < 400" "0 \<le> doy" "doy < era_days (y + 1) - era_days y"
  shows "civil (146097 * era + era_days y + doy - 719468) =
    (case month_day doy of (m, d) \<Rightarrow> (y + 400 * era + (if m \<le> 2 then 1 else 0), nat m, nat d))"
proof -
  let ?doe = "era_days y + doy"
  have doe: "0 \<le> ?doe" "?doe < 146097"
    using era_days_bounds [of y] era_days_bounds [of "y + 1"] assms by auto
  have z: "(146097 * era + ?doe) div 146097 = era" "(146097 * era + ?doe) mod 146097 = ?doe"
    using doe by simp_all
  have yoe: "era_year ?doe = y" by (rule era_year_eq) (use assms in simp_all)
  then have yoe': "(?doe - ?doe div 1460 + ?doe div 36524 - ?doe div 146096) div 365 = y"
    by (simp add: era_year_def era_sum_def)
  have doy: "?doe - (365 * y + y div 4 - y div 100) = doy" using assms(2) by (simp add: era_days_def)
  have days: "146097 * era + era_days y + doy - 719468 + 719468 = 146097 * era + ?doe" by simp
  have m2: "nat m \<le> 2 \<longleftrightarrow> m \<le> 2" for m :: int by auto
  show ?thesis
    unfolding civil_def Let_def days z yoe' doy month_day_def by (simp add: m2 split: if_splits)
qed

lemma leap_era: "leap (y + 400 * era) = leap y"
proof -
  have "(y + 400 * era) mod 4 = y mod 4" "(y + 400 * era) mod 100 = y mod 100" "(y + 400 * era) mod 400 = y mod 400"
    using mod_mult_self2 [of y 4 "100 * era"] mod_mult_self2 [of y 100 "4 * era"] mod_mult_self2 [of y 400 era] by simp_all
  then show ?thesis by (simp add: leap_def)
qed

lemma civil_decompose:
  obtains era y doy where "n = 146097 * era + era_days y + doy - 719468" "0 \<le> y" "y < 400" "0 \<le> doy"
    "doy < era_days (y + 1) - era_days y"
proof -
  let ?z = "n + 719468"
  obtain y where y: "0 \<le> y" "y < 400" "era_days y \<le> ?z mod 146097" "?z mod 146097 < era_days (y + 1)"
    by (rule year_exists [of "?z mod 146097"]) simp_all
  have "?z = 146097 * (?z div 146097) + ?z mod 146097" by (rule mult_div_mod_eq [symmetric])
  then have "n = 146097 * (?z div 146097) + era_days y + (?z mod 146097 - era_days y) - 719468" by simp
  with y that show thesis by (metis diff_ge_0_iff_ge diff_strict_right_mono)
qed

lemma next_in_year:
  assumes "year_day_step doy" "month_day doy = (m, d)" "month_day (doy + 1) = (m', d')"
    and "m = 2 \<and> d = 28 \<longrightarrow> leap (y + 1)"
  shows "next_day (y + (if m \<le> 2 then 1 else 0), nat m, nat d) = (y + (if m' \<le> 2 then 1 else 0), nat m', nat d')"
proof -
  have step: "1 \<le> m" "m \<le> 12" "1 \<le> d" "m = 2 \<longrightarrow> d \<le> 28"
    "(m', d') = (if d < (if m = 2 then 29 else if m = 4 \<or> m = 6 \<or> m = 9 \<or> m = 11 then 30 else 31) then (m, d + 1)
       else if m < 12 then (m + 1, 1) else (1, 1))"
    using assms(1-3) by (simp_all add: year_day_step_def)
  have mo: "nat m = 2 \<longleftrightarrow> m = 2" "nat m \<in> {4, 6, 9, 11} \<longleftrightarrow> m = 4 \<or> m = 6 \<or> m = 9 \<or> m = 11" "nat m < 12 \<longleftrightarrow> m < 12"
    using step(1) by auto
  show ?thesis
  proof (cases "m = 2")
    case True
    with step assms(4) show ?thesis by (auto simp: month_days_def)
  next
    case False
    define len :: int where "len = (if m = 4 \<or> m = 6 \<or> m = 9 \<or> m = 11 then 30 else 31)"
    have days: "month_days Y (nat m) = nat len" for Y
      using False mo by (simp add: month_days_def len_def)
    have d: "nat d < nat len \<longleftrightarrow> d < len" using step(3) by auto
    show ?thesis
    proof (cases "d < len")
      case True
      with step(5) False have "m' = m" "d' = d + 1" by (simp_all add: len_def)
      with True step(3) show ?thesis by (simp add: days d)
    next
      case long: False
      show ?thesis
      proof (cases "m < 12")
        case True
        with long step(5) False have "m' = m + 1" "d' = 1" by (simp_all add: len_def)
        with True long False step(1) show ?thesis by (simp add: days d mo(3) nat_add_distrib)
      next
        case False
        with long step(2,5) have "m = 12" "m' = 1" "d' = 1" by (simp_all add: len_def)
        with long days [of y] d show ?thesis by simp
      qed
    qed
  qed
qed


end
