(* ===== verification/Mail.thy ===== *)
theory Mail
  imports Events Validate Netlink_Msg
begin

text \<open>
  Email notifications (\<open>mail.rs\<close>): batches of changes, the rolling-hour limit, the messages that wait for
  submission or retry, and the text of a message. The clock, the host name, the trust of the
  executable and the run of sendmail are parameters: an instant is a number of nanoseconds, and how a
  submission ended is an input of the step.
\<close>

section \<open>Bounds and times\<close>

definition BATCH_CHANGES :: nat where
  "BATCH_CHANGES = 200"

definition BATCH_BYTES :: nat where
  "BATCH_BYTES = 64 * 2 ^ 10"

definition BODY_BYTES :: nat where
  "BODY_BYTES = 128 * 2 ^ 10"

definition MESSAGE_BYTES :: nat where
  "MESSAGE_BYTES = 512 * 2 ^ 10"

definition WAITING :: nat where
  "WAITING = 8"

definition WAITING_BYTES :: nat where
  "WAITING_BYTES = 4 * 2 ^ 20"

definition RETRY_MINUTES :: "nat list" where
  "RETRY_MINUTES = [1, 5, 15]"

record times =
  tm_minute :: duration
  tm_deadline :: duration

definition times_default :: times where
  "times_default = \<lparr>tm_minute = 60 * 10 ^ 9, tm_deadline = 60 * 10 ^ 9\<rparr>"

definition times_hour :: "times \<Rightarrow> duration" where
  "times_hour t = tm_minute t * 60"

definition times_retry :: "times \<Rightarrow> nat \<Rightarrow> duration option" where
  "times_retry t n = (if n < length RETRY_MINUTES then Some (tm_minute t * RETRY_MINUTES ! n) else None)"

datatype mail_kind = Notification | Suppressed | TestMail

fun kind_subject :: "mail_kind \<Rightarrow> string" where
  "kind_subject Notification = ''PolyWAN notification''"
| "kind_subject Suppressed = ''PolyWAN notifications suppressed''"
| "kind_subject TestMail = ''PolyWAN notification test''"

section \<open>Batches\<close>

text \<open>\<open>char::escape_unicode\<close> of a control character: the code of a two-byte one is its second byte.\<close>

definition escape_control :: "string \<Rightarrow> string" where
  "escape_control ch = [CHR 0x5C] @ ''u{'' @ show_hex (of_char (last ch)) @ ''}''"

definition change_line :: "'v event \<Rightarrow> string" where
  "change_line e =
     ev_timestamp e @ '' '' @ ev_kind e @
     (case ev_uplink e of Some u \<Rightarrow> '' '' @ u | None \<Rightarrow> []) @ (case ev_family e of Some f \<Rightarrow> '' '' @ f | None \<Rightarrow> []) @
     '': '' @ concat (map (\<lambda>ch. if char_is_control ch then escape_control ch else ch) (utf8_chars (ev_message e))) @
     [CHR 0x0A]"

record batch =
  bt_deadline :: instant
  bt_text :: string
  bt_changes :: nat
  bt_omitted :: nat

definition batch_new :: "instant \<Rightarrow> batch" where
  "batch_new deadline = \<lparr>bt_deadline = deadline, bt_text = [], bt_changes = 0, bt_omitted = 0\<rparr>"

definition batch_add :: "'v event \<Rightarrow> batch \<Rightarrow> batch" where
  "batch_add e b =
     (let line = change_line e
      in if bt_changes b < BATCH_CHANGES \<and> length (bt_text b) + length line \<le> BATCH_BYTES
         then b\<lparr>bt_text := bt_text b @ line, bt_changes := bt_changes b + 1\<rparr>
         else b\<lparr>bt_omitted := bt_omitted b + 1\<rparr>)"

definition on_host :: "string option \<Rightarrow> string" where
  "on_host host = (case host of Some h \<Rightarrow> '' on '' @ h | None \<Rightarrow> [])"

definition batch_body :: "string option \<Rightarrow> u64 \<Rightarrow> batch \<Rightarrow> string" where
  "batch_body host suppressed b =
     (let total_changes = bt_changes b + bt_omitted b
      in ''PolyWAN'' @ on_host host @ '' reports '' @ show_nat total_changes @ '' change'' @
         (if total_changes = 1 then [] else ''s'') @ '':'' @ [CHR 0x0A, CHR 0x0A] @ bt_text b @
         (if 0 < bt_omitted b then
            [CHR 0x0A] @ show_nat (bt_omitted b) @ '' further change'' @ (if bt_omitted b = 1 then '' was'' else ''s were'') @
            '' omitted (a message lists at most '' @ show_nat BATCH_CHANGES @ '' changes and '' @
            show_nat (BATCH_BYTES div 2 ^ 10) @ '' KiB).'' @ [CHR 0x0A]
          else []) @
         (if 0 < suppressed then
            [CHR 0x0A] @ show_nat (unat suppressed) @ '' notification'' @ (if suppressed = 1 then '' was'' else ''s were'') @
            '' suppressed by notify.email.max_per_hour before this one.'' @ [CHR 0x0A]
          else []))"

definition suppression_body :: "string option \<Rightarrow> u32 \<Rightarrow> string" where
  "suppression_body host max_per_hour =
     ''PolyWAN'' @ on_host host @ '' reached its limit of '' @ show_nat (unat max_per_hour) @ '' notification'' @
     (if max_per_hour = 1 then [] else ''s'') @ '' per hour (notify.email.max_per_hour).'' @ [CHR 0x0A, CHR 0x0A] @
     ''Further notifications are suppressed until the rolling hour leaves room; the next notification reports how many were suppressed. At most one such notice is sent per hour.'' @
     [CHR 0x0A]"

section \<open>The rolling hour\<close>

record admission =
  ad_admitted :: "instant list"
  ad_notice :: "instant option"
  ad_suppressed :: u64

definition admission_default :: admission where
  "admission_default = \<lparr>ad_admitted = [], ad_notice = None, ad_suppressed = 0\<rparr>"

datatype admit_result = AdmitYes u64 | AdmitNo bool

text \<open>\<open>Instant::duration_since\<close> saturates at zero.\<close>

definition duration_since :: "instant \<Rightarrow> instant \<Rightarrow> duration" where
  "duration_since now t = nat (now - t)"

definition admit :: "instant \<Rightarrow> u32 \<Rightarrow> duration \<Rightarrow> admission \<Rightarrow> admit_result \<times> admission" where
  "admit now max_per_hour hour a =
     (let recent = dropWhile (\<lambda>t. hour \<le> duration_since now t) (ad_admitted a)
      in if length recent < unat max_per_hour
         then (AdmitYes (ad_suppressed a), a\<lparr>ad_admitted := recent @ [now], ad_suppressed := 0\<rparr>)
         else
           let notice = (case ad_notice a of None \<Rightarrow> True | Some t \<Rightarrow> hour \<le> duration_since now t)
           in (AdmitNo notice,
               a\<lparr>ad_admitted := recent, ad_suppressed := ad_suppressed a + 1,
                 ad_notice := if notice then Some now else ad_notice a\<rparr>))"

section \<open>The text of a message\<close>

record message =
  ms_kind :: mail_kind
  ms_id :: string
  ms_date :: int
  ms_body :: string
  ms_failures :: nat
  ms_due :: instant

definition message_id :: "string \<Rightarrow> u64 \<Rightarrow> string \<Rightarrow> string" where
  "message_id inst n from_addr =
     (let domain = (case rsplit_once CHR ''@'' from_addr of None \<Rightarrow> ''localhost'' | Some (_, d) \<Rightarrow> d)
      in ''<'' @ show_nat (unat n) @ ''.'' @ inst @ ''@'' @ domain @ ''>'')"

definition host_suffix :: "string \<Rightarrow> string option" where
  "host_suffix raw =
     (let h = rev (dropWhile (\<lambda>c. c = CHR 0x0A) (rev raw))
      in if h \<noteq> [] \<and> length h \<le> 63 \<and> list_all dns_label (split_on CHR ''.'' h) then Some h else None)"

definition DAYS :: "string list" where
  "DAYS = [''Thu'', ''Fri'', ''Sat'', ''Sun'', ''Mon'', ''Tue'', ''Wed'']"

definition MONTHS :: "string list" where
  "MONTHS = [''Jan'', ''Feb'', ''Mar'', ''Apr'', ''May'', ''Jun'', ''Jul'', ''Aug'', ''Sep'', ''Oct'', ''Nov'', ''Dec'']"

definition rfc5322_date :: "int \<Rightarrow> string" where
  "rfc5322_date t =
     (let secs = nat (max 0 t) div 10 ^ 9;
          days = secs div 86400;
          rest = secs mod 86400;
          (y, m, d) = civil (int days)
      in DAYS ! (days mod 7) @ '', '' @ pad_nat 2 d @ '' '' @ MONTHS ! (m - 1) @ '' '' @ pad_int 4 y @ '' '' @
         pad_nat 2 (rest div 3600) @ '':'' @ pad_nat 2 (rest mod 3600 div 60) @ '':'' @ pad_nat 2 (rest mod 60) @ '' +0000'')"

definition ALPHABET :: string where
  "ALPHABET = ''ABCDEFGHIJKLMNOPQRSTUVWXYZabcdefghijklmnopqrstuvwxyz0123456789+/''"

text \<open>\<open>slice::chunks\<close>, for a positive size.\<close>

function chunks :: "nat \<Rightarrow> 'a list \<Rightarrow> 'a list list" where
  "chunks n xs = (if n = 0 \<or> xs = [] then [] else take n xs # chunks n (drop n xs))"
  by pat_completeness auto

termination chunks
  by (relation "measure (\<lambda>(n, xs). length xs)") auto

declare chunks.simps [simp del]

definition base64_group :: "string \<Rightarrow> string" where
  "base64_group c =
     (let n = of_char (c ! 0) * 2 ^ 16 + (if 1 < length c then of_char (c ! 1) else 0) * 2 ^ 8 +
              (if 2 < length c then of_char (c ! 2) else 0 :: nat)
      in map (\<lambda>i. if i \<le> length c then ALPHABET ! (n div 2 ^ (18 - 6 * i) mod 64) else CHR ''='') [0, 1, 2, 3])"

definition base64_lines :: "string \<Rightarrow> string" where
  "base64_lines s = concat (map (\<lambda>line. concat (map base64_group (chunks 3 line)) @ [CHR 0x0A]) (chunks 57 s))"

definition is_char_boundary :: "string \<Rightarrow> nat \<Rightarrow> bool" where
  "is_char_boundary s i \<longleftrightarrow>
     i = 0 \<or> i = length s \<or> i < length s \<and> \<not> (0x80 \<le> (of_char (s ! i) :: nat) \<and> (of_char (s ! i) :: nat) < 0xc0)"

fun boundary_before :: "string \<Rightarrow> nat \<Rightarrow> nat" where
  "boundary_before s 0 = 0"
| "boundary_before s (Suc i) = (if is_char_boundary s (Suc i) then Suc i else boundary_before s i)"

definition truncate_utf8 :: "string \<Rightarrow> nat \<Rightarrow> string" where
  "truncate_utf8 s m = (if m < length s then take (boundary_before s m) s else s)"

definition CUT :: string where
  "CUT = [CHR 0x0A] @ ''[truncated]'' @ [CHR 0x0A]"

definition render_headers :: "message \<Rightarrow> email \<Rightarrow> string option \<Rightarrow> string" where
  "render_headers m email host =
     ''Date: '' @ rfc5322_date (ms_date m) @ [CHR 0x0A] @
     ''Message-ID: '' @ ms_id m @ [CHR 0x0A] @
     ''From: '' @ e_from email @ [CHR 0x0A] @
     ''To: '' @ join ('','' @ [CHR 0x0A] @ '' '') (e_to email) @ [CHR 0x0A] @
     ''Subject: '' @ kind_subject (ms_kind m) @ (case host of Some h \<Rightarrow> '' ('' @ h @ '')'' | None \<Rightarrow> []) @ [CHR 0x0A] @
     ''MIME-Version: 1.0'' @ [CHR 0x0A] @
     ''Content-Type: text/plain; charset=UTF-8'' @ [CHR 0x0A] @
     ''Content-Transfer-Encoding: base64'' @ [CHR 0x0A] @
     ''Auto-Submitted: auto-generated'' @ [CHR 0x0A, CHR 0x0A]"

definition render_body :: "message \<Rightarrow> string" where
  "render_body m =
     (if BODY_BYTES < length (ms_body m) then truncate_utf8 (ms_body m) (BODY_BYTES - length CUT) @ CUT else ms_body m)"

definition render_mail :: "message \<Rightarrow> email \<Rightarrow> string option \<Rightarrow> nat + string" where
  "render_mail m email host =
     (let s = render_headers m email host @ base64_lines (render_body m)
      in if MESSAGE_BYTES < length s then Inl (length s) else Inr s)"

definition sendmail_args :: "email \<Rightarrow> string list" where
  "sendmail_args email = [''-i'', ''-f'', e_from email] @ e_to email"

section \<open>The notifier\<close>

record mail =
  ml_times :: times
  ml_failures :: nat
  ml_instance :: string
  ml_ids :: u64
  ml_batch :: "batch option"
  ml_admission :: admission
  ml_waiting :: "message list"

definition mail_new :: "string \<Rightarrow> times \<Rightarrow> mail" where
  "mail_new inst t =
     \<lparr>ml_times = t, ml_failures = 0, ml_instance = inst, ml_ids = 0, ml_batch = None,
      ml_admission = admission_default, ml_waiting = []\<rparr>"

definition mail_add :: "instant \<Rightarrow> duration \<Rightarrow> 'v event \<Rightarrow> mail \<Rightarrow> mail" where
  "mail_add now coalesce e m =
     (let b = (case ml_batch m of Some b \<Rightarrow> b | None \<Rightarrow> batch_new (now + int coalesce))
      in m\<lparr>ml_batch := Some (batch_add e b)\<rparr>)"

definition mail_message :: "mail_kind \<Rightarrow> string \<Rightarrow> email \<Rightarrow> instant \<Rightarrow> int \<Rightarrow> mail \<Rightarrow> message \<times> mail" where
  "mail_message kind body email now date m =
     (let n = ml_ids m + 1
      in (\<lparr>ms_kind = kind, ms_id = message_id (ml_instance m) n (e_from email), ms_date = date, ms_body = body,
           ms_failures = 0, ms_due = now\<rparr>, m\<lparr>ml_ids := n\<rparr>))"

definition body_bytes :: "message list \<Rightarrow> nat" where
  "body_bytes ms = sum_list (map (\<lambda>m. length (ms_body m)) ms)"

fun wait_evict :: "message list \<Rightarrow> message list" where
  "wait_evict [] = []"
| "wait_evict (m # ms) =
     (if WAITING < length (m # ms) \<or> WAITING_BYTES < body_bytes (m # ms) then wait_evict ms else m # ms)"

definition mail_wait :: "message \<Rightarrow> mail \<Rightarrow> mail" where
  "mail_wait x m = m\<lparr>ml_waiting := wait_evict (ml_waiting m @ [x])\<rparr>"

definition close_batch :: "instant \<Rightarrow> int \<Rightarrow> email \<Rightarrow> string option \<Rightarrow> mail \<Rightarrow> mail" where
  "close_batch now date email host m =
     (case ml_batch m of
        None \<Rightarrow> m
      | Some b \<Rightarrow>
          (let m = m\<lparr>ml_batch := None\<rparr>
           in case admit now (e_max_per_hour email) (times_hour (ml_times m)) (ml_admission m) of
                (AdmitYes suppressed, a) \<Rightarrow>
                  (case mail_message Notification (batch_body host suppressed b) email now date (m\<lparr>ml_admission := a\<rparr>) of
                     (x, m) \<Rightarrow> mail_wait x m)
              | (AdmitNo notice, a) \<Rightarrow>
                  (let m = m\<lparr>ml_admission := a\<rparr>
                   in if notice then
                        (case mail_message Suppressed (suppression_body host (e_max_per_hour email)) email now date m of
                           (x, m) \<Rightarrow> mail_wait x m)
                      else m)))"

definition next_due :: "mail \<Rightarrow> instant option" where
  "next_due m = (if ml_waiting m = [] then None else Some (Min (ms_due ` set (ml_waiting m))))"

text \<open>The first of the messages that are due the longest.\<close>

definition due_index :: "instant \<Rightarrow> message list \<Rightarrow> nat option" where
  "due_index now ms =
     (case filter (\<lambda>i. ms_due (ms ! i) \<le> now) [0..<length ms] of
        [] \<Rightarrow> None
      | i # is \<Rightarrow> Some (fold (\<lambda>j best. if ms_due (ms ! j) < ms_due (ms ! best) then j else best) is i))"

definition take_due :: "instant \<Rightarrow> mail \<Rightarrow> (message \<times> mail) option" where
  "take_due now m =
     (case due_index now (ml_waiting m) of
        None \<Rightarrow> None
      | Some i \<Rightarrow>
          Some (ml_waiting m ! i, m\<lparr>ml_waiting := take i (ml_waiting m) @ drop (Suc i) (ml_waiting m)\<rparr>))"

definition mail_failed :: "message \<Rightarrow> instant \<Rightarrow> mail \<Rightarrow> mail" where
  "mail_failed x now m =
     (case times_retry (ml_times m) (ms_failures x) of
        Some delay \<Rightarrow> mail_wait (x\<lparr>ms_failures := ms_failures x + 1, ms_due := now + int delay\<rparr>) m
      | None \<Rightarrow> m)"

definition mail_discard :: "mail \<Rightarrow> nat \<times> mail" where
  "mail_discard m =
     (length (ml_waiting m) + (if ml_batch m = None then 0 else 1), m\<lparr>ml_waiting := [], ml_batch := None\<rparr>)"

datatype submitted = Accepted | SubmitFailed string | Unbuildable string

definition finished :: "message \<Rightarrow> submitted \<Rightarrow> instant \<Rightarrow> bool \<Rightarrow> mail \<Rightarrow> mail" where
  "finished x result now retry m =
     (let m = (if result \<noteq> Accepted then m\<lparr>ml_failures := ml_failures m + 1\<rparr> else m)
      in case result of
           SubmitFailed _ \<Rightarrow> if retry then mail_failed x now m else m
         | _ \<Rightarrow> m)"

text \<open>The inputs of the loop of \<open>drive\<close>, each with what the task reads from the clock and the host.\<close>

datatype 'v drive_input =
  ConfigChanged Config.notify
| SubmissionEnded submitted instant
| TurnAcquired instant
| BatchClosed instant int "string option"
| EventReceived "'v event" instant

record drive_state =
  dv_mail :: mail
  dv_notify :: Config.notify
  dv_running :: "(message \<times> email) option"

fun drive :: "'v drive_input \<Rightarrow> drive_state \<Rightarrow> drive_state" where
  "drive (ConfigChanged next) s =
     s\<lparr>dv_mail := if n_email (dv_notify s) \<noteq> None \<and> n_email next = None then snd (mail_discard (dv_mail s)) else dv_mail s,
       dv_notify := next\<rparr>"
| "drive (SubmissionEnded result now) s =
     (case dv_running s of
        None \<Rightarrow> s
      | Some (x, _) \<Rightarrow>
          s\<lparr>dv_running := None, dv_mail := finished x result now (n_email (dv_notify s) \<noteq> None) (dv_mail s)\<rparr>)"
| "drive (TurnAcquired now) s =
     (if dv_running s \<noteq> None \<or> next_due (dv_mail s) = None then s
      else case n_email (dv_notify s) of
             Some email \<Rightarrow>
               (case take_due now (dv_mail s) of
                  Some (x, m) \<Rightarrow> s\<lparr>dv_mail := m, dv_running := Some (x, email)\<rparr>
                | None \<Rightarrow> s)
           | None \<Rightarrow> s\<lparr>dv_mail := snd (mail_discard (dv_mail s))\<rparr>)"
| "drive (BatchClosed now date host) s =
     (if ml_batch (dv_mail s) = None then s
      else case n_email (dv_notify s) of
             Some email \<Rightarrow> s\<lparr>dv_mail := close_batch now date email host (dv_mail s)\<rparr>
           | None \<Rightarrow> s\<lparr>dv_mail := snd (mail_discard (dv_mail s))\<rparr>)"
| "drive (EventReceived e now) s =
     (if n_email (dv_notify s) \<noteq> None
      then s\<lparr>dv_mail := mail_add now (n_coalesce (dv_notify s)) e (dv_mail s)\<rparr> else s)"

text \<open>What \<open>flush\<close> submits: the batch is closed, messages due are tried, later retries are discarded.\<close>

definition flush_pending :: "instant \<Rightarrow> int \<Rightarrow> string option \<Rightarrow> Config.notify \<Rightarrow> mail \<Rightarrow> message list \<times> mail" where
  "flush_pending now date host cfg m =
     (case n_email cfg of
        Some email \<Rightarrow>
          (let m = close_batch now date email host m
           in (filter (\<lambda>x. ms_due x \<le> now) (ml_waiting m), m\<lparr>ml_waiting := []\<rparr>))
      | None \<Rightarrow> ([], m))"

section \<open>The limit of the rolling hour\<close>

text \<open>The times of the admitted messages among a list of calls.\<close>

fun is_yes :: "admit_result \<Rightarrow> bool" where
  "is_yes (AdmitYes _) = True"
| "is_yes (AdmitNo _) = False"

fun reported :: "admit_result \<Rightarrow> u64" where
  "reported (AdmitYes n) = n"
| "reported (AdmitNo _) = 0"

definition admit_step :: "u32 \<Rightarrow> duration \<Rightarrow> instant \<Rightarrow> instant list \<times> u64 \<times> nat \<times> admission \<Rightarrow> instant list \<times> u64 \<times> nat \<times> admission" where
  "admit_step max_per_hour hour now st =
     (case st of (yes, told, refused, a) \<Rightarrow>
      case admit now max_per_hour hour a of (r, a') \<Rightarrow>
        (if is_yes r then yes @ [now] else yes, told + reported r, if is_yes r then refused else refused + 1, a'))"

definition admit_all :: "u32 \<Rightarrow> duration \<Rightarrow> instant list \<Rightarrow> instant list \<times> u64 \<times> nat \<times> admission" where
  "admit_all max_per_hour hour ts = fold (admit_step max_per_hour hour) ts ([], 0, 0, admission_default)"

definition in_window :: "duration \<Rightarrow> instant \<Rightarrow> instant list \<Rightarrow> nat" where
  "in_window hour end_time ts = length (filter (\<lambda>t. end_time - int hour < t \<and> t \<le> end_time) ts)"

lemma stale_iff: "hour \<le> duration_since now t \<longleftrightarrow> t \<le> now - int hour \<or> hour = 0"
  by (auto simp: duration_since_def)

lemma dropWhile_sorted:
  fixes ts :: "'a::linorder list"
  shows "sorted ts \<Longrightarrow> dropWhile (\<lambda>t. t \<le> b) ts = filter (\<lambda>t. b < t) ts"
proof (induction ts)
  case (Cons t ts)
  show ?case
  proof (cases "t \<le> b")
    case False
    with Cons.prems have "\<forall>u\<in>set (t # ts). b < u" by auto
    then have "filter (\<lambda>t. b < t) (t # ts) = t # ts" by (simp only: filter_id_conv)
    with False show ?thesis by simp
  qed (use Cons in simp)
qed simp

definition admission_inv :: "u32 \<Rightarrow> duration \<Rightarrow> instant \<Rightarrow> instant list \<times> u64 \<times> nat \<times> admission \<Rightarrow> bool" where
  "admission_inv max_per_hour hour now st \<longleftrightarrow>
     (case st of (yes, told, refused, a) \<Rightarrow>
        sorted yes \<and> (\<forall>t\<in>set yes. t \<le> now) \<and>
        (\<exists>old. yes = old @ ad_admitted a \<and> (\<forall>t\<in>set old. t \<le> now - int hour)) \<and>
        (\<forall>T. in_window hour T yes \<le> unat max_per_hour) \<and> told + ad_suppressed a = of_nat refused)"

lemma admission_invI:
  assumes "sorted yes" "\<And>t. t \<in> set yes \<Longrightarrow> t \<le> now" "yes = old @ ad_admitted a"
    and "\<And>t. t \<in> set old \<Longrightarrow> t \<le> now - int hour" "\<And>T. in_window hour T yes \<le> unat max_per_hour"
    and "told + ad_suppressed a = of_nat refused"
  shows "admission_inv max_per_hour hour now (yes, told, refused, a)"
  using assms unfolding admission_inv_def by blast

lemma recent_filter:
  assumes "admission_inv max_per_hour hour prev (yes, told, refused, a)" "prev \<le> now" "0 < hour"
  shows "dropWhile (\<lambda>t. hour \<le> duration_since now t) (ad_admitted a) = filter (\<lambda>t. now - int hour < t) yes"
    and "in_window hour now yes = length (filter (\<lambda>t. now - int hour < t) yes)"
proof -
  from assms(1) obtain old where old: "yes = old @ ad_admitted a" "\<forall>t\<in>set old. t \<le> prev - int hour"
    and inv: "sorted yes" "\<forall>t\<in>set yes. t \<le> prev" by (auto simp: admission_inv_def)
  from old(2) assms(2) have "filter (\<lambda>t. now - int hour < t) old = []" by (auto simp: filter_empty_conv)
  moreover have "sorted (ad_admitted a)" using inv(1) old(1) by (simp add: sorted_append)
  ultimately show "dropWhile (\<lambda>t. hour \<le> duration_since now t) (ad_admitted a) = filter (\<lambda>t. now - int hour < t) yes"
    using dropWhile_sorted [of "ad_admitted a" "now - int hour"] assms(3) by (simp add: stale_iff old(1))
  have "filter (\<lambda>t. now - int hour < t \<and> t \<le> now) yes = filter (\<lambda>t. now - int hour < t) yes"
    using inv(2) assms(2) by (auto intro!: filter_cong)
  then show "in_window hour now yes = length (filter (\<lambda>t. now - int hour < t) yes)" by (simp add: in_window_def)
qed

lemma admit_exact:
  assumes "admission_inv max_per_hour hour prev (yes, told, refused, a)" "prev \<le> now" "0 < hour"
  shows "is_yes (fst (admit now max_per_hour hour a)) \<longleftrightarrow> in_window hour now yes < unat max_per_hour"
  using recent_filter [OF assms] by (simp add: admit_def Let_def)

lemma window_snoc: "in_window hour T (yes @ [now]) = in_window hour T yes + (if T - int hour < now \<and> now \<le> T then 1 else 0)"
  by (simp add: in_window_def)

lemma window_later:
  assumes "\<forall>t\<in>set yes. t \<le> now" "now \<le> T"
  shows "in_window hour T yes \<le> in_window hour now yes"
proof -
  have "filter (\<lambda>t. T - int hour < t \<and> t \<le> T) yes =
      filter (\<lambda>t. T - int hour < t) (filter (\<lambda>t. now - int hour < t \<and> t \<le> now) yes)"
    using assms by (auto simp: filter_filter intro!: filter_cong)
  then show ?thesis unfolding in_window_def by (metis length_filter_le)
qed

lemma admit_step_inv:
  assumes inv: "admission_inv max_per_hour hour prev st" and now: "prev \<le> now" and hour: "0 < hour"
  shows "admission_inv max_per_hour hour now (admit_step max_per_hour hour now st)"
proof -
  obtain yes told refused a where st: "st = (yes, told, refused, a)" by (cases st) auto
  note inv' = inv [unfolded st]
  let ?recent = "filter (\<lambda>t. now - int hour < t) yes"
  note recent = recent_filter(1) [OF inv' now hour] and exact = admit_exact [OF inv' now hour]
  have base: "sorted yes" "\<forall>t\<in>set yes. t \<le> now" "\<forall>T. in_window hour T yes \<le> unat max_per_hour"
    "told + ad_suppressed a = of_nat refused"
    using inv' now by (auto simp: admission_inv_def)
  let ?old = "takeWhile (\<lambda>t. t \<le> now - int hour) yes"
  have split: "yes = ?old @ ?recent" "\<forall>t\<in>set ?old. t \<le> now - int hour"
    using takeWhile_dropWhile_id [of "\<lambda>t. t \<le> now - int hour" yes] dropWhile_sorted [OF base(1)]
    by (auto dest: set_takeWhileD)
  show ?thesis
  proof (cases "in_window hour now yes < unat max_per_hour")
    case True
    have win: "in_window hour T (yes @ [now]) \<le> unat max_per_hour" for T
    proof (cases "T - int hour < now \<and> now \<le> T")
      case in_T: True
      then show ?thesis using window_later [OF base(2), of T hour] True by (simp add: window_snoc)
    qed (use base(3) in \<open>auto simp: window_snoc\<close>)
    have r: "length ?recent < unat max_per_hour" using True recent_filter(2) [OF inv' now hour] by simp
    have step: "admit_step max_per_hour hour now st =
        (yes @ [now], told + ad_suppressed a, refused, a\<lparr>ad_admitted := ?recent @ [now], ad_suppressed := 0\<rparr>)"
      using r by (simp add: st admit_step_def admit_def recent Let_def)
    show ?thesis
      unfolding step
    proof (rule admission_invI [where old = ?old])
      show "sorted (yes @ [now])" using base(1,2) by (simp add: sorted_append)
      show "t \<le> now" if "t \<in> set (yes @ [now])" for t using that base(2) by auto
      show "yes @ [now] = ?old @ ad_admitted (a\<lparr>ad_admitted := ?recent @ [now], ad_suppressed := 0\<rparr>)"
        using split(1) by simp
      show "t \<le> now - int hour" if "t \<in> set ?old" for t using that split(2) by blast
      show "in_window hour T (yes @ [now]) \<le> unat max_per_hour" for T by (rule win)
      show "told + ad_suppressed a + ad_suppressed (a\<lparr>ad_admitted := ?recent @ [now], ad_suppressed := 0\<rparr>) = of_nat refused"
        using base(4) by simp
    qed
  next
    case False
    have r: "\<not> length ?recent < unat max_per_hour" using False recent_filter(2) [OF inv' now hour] by simp
    obtain nt where step: "admit_step max_per_hour hour now st =
        (yes, told, refused + 1, a\<lparr>ad_admitted := ?recent, ad_suppressed := ad_suppressed a + 1, ad_notice := nt\<rparr>)"
      using r by (simp add: st admit_step_def admit_def recent Let_def)
    have "told + (ad_suppressed a + 1) = of_nat (refused + 1)" using base(4) by (simp add: algebra_simps)
    then show ?thesis
      unfolding step by (intro admission_invI [where old = ?old]) (use base split in simp_all)
  qed
qed

lemma admit_all_inv:
  assumes "0 < hour"
  shows "sorted (start # ts) \<Longrightarrow> admission_inv max_per_hour hour start st \<Longrightarrow>
    admission_inv max_per_hour hour (last (start # ts)) (fold (admit_step max_per_hour hour) ts st)"
proof (induction ts arbitrary: start st)
  case (Cons t ts)
  then show ?case using admit_step_inv [OF Cons.prems(2) _ assms, of t] by simp
qed simp

lemma admission_start: "admission_inv max_per_hour hour start ([], 0, 0, admission_default)"
  by (rule admission_invI [where old = "[]"]) (simp_all add: admission_default_def in_window_def)

text \<open>
  C35. The rolling-hour limit is exact: when batches close in the order of time, a message is admitted if
  and only if fewer than the limit were admitted in the hour before it. So no hour, wherever it begins,
  has more admitted messages than the limit, and the numbers of suppressed messages that the admitted
  ones report add up to the messages refused, with what is still to be reported.
\<close>

theorem rolling_hour_exact:
  assumes "0 < hour" "sorted (ts @ [now])" "admit_all max_per_hour hour ts = (yes, told, refused, a)"
  shows "(is_yes (fst (admit now max_per_hour hour a)) \<longleftrightarrow> in_window hour now yes < unat max_per_hour) \<and>
    in_window hour t yes \<le> unat max_per_hour \<and> told + ad_suppressed a = of_nat refused \<and>
    length yes + refused = length ts"
proof -
  define start where "start = (case ts of [] \<Rightarrow> now | t # _ \<Rightarrow> t)"
  have srt: "sorted (start # ts)" "last (start # ts) \<le> now"
    using assms(2) by (auto simp: start_def sorted_append split: list.splits)
  have inv: "admission_inv max_per_hour hour (last (start # ts)) (yes, told, refused, a)"
    using admit_all_inv [OF assms(1) srt(1) admission_start, of max_per_hour]
    unfolding assms(3) [unfolded admit_all_def] .
  have count: "length (fst (fold (admit_step max_per_hour hour) us st)) + fst (snd (snd (fold (admit_step max_per_hour hour) us st))) =
      length (fst st) + fst (snd (snd st)) + length us" for us st
    by (induction us arbitrary: st) (auto simp: admit_step_def split: prod.splits)
  have "length yes + refused = length ts"
    using count [of ts "([], 0, 0, admission_default)"] assms(3) by (simp add: admit_all_def)
  with admit_exact [OF inv srt(2) assms(1)] inv show ?thesis by (auto simp: admission_inv_def)
qed

theorem rolling_hour_exact_witness:
  "\<exists>yes told refused a. admit_all 1 100 [0, 50] = (yes, told, refused, a) \<and> yes = [0] \<and> refused = 1 \<and>
     is_yes (fst (admit 100 1 100 a)) = (in_window 100 100 yes < unat (1 :: u32))"
proof -
  obtain yes told refused a where r: "admit_all 1 100 [0, 50] = (yes, told, refused, a)" by (rule prod_cases4)
  have "yes = [0] \<and> refused = 1"
    using r by (auto simp: admit_all_def admit_step_def admit_def admission_default_def duration_since_def Let_def)
  with rolling_hour_exact [OF _ _ r, of 100 0] r show ?thesis by auto
qed

section \<open>Base64\<close>

text \<open>A decoder of the encoding, as RFC 2045 describes it: line ends are skipped.\<close>

definition unbase64_char :: "char \<Rightarrow> nat" where
  "unbase64_char c = (if c = CHR ''='' then 0 else length (takeWhile (\<lambda>a. a \<noteq> c) ALPHABET))"

definition unbase64_group :: "string \<Rightarrow> string" where
  "unbase64_group g =
     (let n = unbase64_char (g ! 0) * 2 ^ 18 + unbase64_char (g ! 1) * 2 ^ 12 + unbase64_char (g ! 2) * 2 ^ 6 + unbase64_char (g ! 3)
      in take (3 - length (filter (\<lambda>c. c = CHR ''='') g))
           [char_of (n div 2 ^ 16), char_of (n div 2 ^ 8 mod 256), char_of (n mod 256)])"

definition unbase64 :: "string \<Rightarrow> string" where
  "unbase64 s = concat (map unbase64_group (chunks 4 (filter (\<lambda>c. c \<noteq> CHR 0x0A) s)))"

lemma alphabet_checked:
  "list_all (\<lambda>v. unbase64_char (ALPHABET ! v) = v \<and> ALPHABET ! v \<noteq> CHR ''='' \<and> ALPHABET ! v \<noteq> CHR 0x0A) [0..<64]"
  by code_simp

lemma alphabet:
  assumes "v < 64"
  shows "unbase64_char (ALPHABET ! v) = v" "ALPHABET ! v \<noteq> CHR ''=''" "ALPHABET ! v \<noteq> CHR 0x0A"
  using alphabet_checked assms by (auto simp: list_all_iff)

lemma concat_chunks: "0 < n \<Longrightarrow> concat (chunks n xs) = xs"
proof (induction n xs rule: chunks.induct)
  case (1 n xs)
  then show ?case by (subst chunks.simps) (auto simp: append_take_drop_id)
qed

lemma chunks_sizes: "0 < n \<Longrightarrow> c \<in> set (chunks n xs) \<Longrightarrow> c \<noteq> [] \<and> length c \<le> n"
proof (induction n xs rule: chunks.induct)
  case (1 n xs)
  show ?case
  proof (cases "xs = []")
    case False
    with 1 have "c = take n xs \<or> c \<in> set (chunks n (drop n xs))" by (subst (asm) chunks.simps) auto
    with 1 False show ?thesis by auto
  qed (use 1 in \<open>simp add: chunks.simps\<close>)
qed

lemma chunks_concat: "0 < n \<Longrightarrow> list_all (\<lambda>g. length g = n) gs \<Longrightarrow> chunks n (concat gs) = gs"
proof (induction gs)
  case (Cons g gs)
  then have "g @ concat gs \<noteq> []" by auto
  with Cons show ?case by (subst chunks.simps) simp
qed (simp add: chunks.simps)

lemma group_shape: "length (base64_group c) = 4"
  by (simp add: base64_group_def Let_def)

lemma group_digits: "a < 2 ^ 24 \<Longrightarrow>
  a div 2 ^ 18 mod 64 * 2 ^ 18 + a div 2 ^ 12 mod 64 * 2 ^ 12 + a div 2 ^ 6 mod 64 * 2 ^ 6 + a mod 64 = (a :: nat)"
proof -
  assume a: "a < 2 ^ 24"
  define x y z where "x = a div 2 ^ 6" and "y = x div 2 ^ 6" and "z = y div 2 ^ 6"
  have "a = x * 64 + a mod 64" "x = y * 64 + x mod 64" "y = z * 64 + y mod 64"
    by (simp_all add: x_def y_def z_def)
  moreover have "z < 64" using a by (simp add: x_def y_def z_def div_mult2_eq [symmetric] less_mult_imp_div_less)
  moreover have "a div 2 ^ 6 = x" "a div 2 ^ 12 = y" "a div 2 ^ 18 = z"
    by (simp_all add: x_def y_def z_def div_mult2_eq [symmetric])
  ultimately show ?thesis by simp
qed

lemma byte_split: "d < 256 \<Longrightarrow> (x * 256 + d) div 256 = x \<and> (x * 256 + d) mod 256 = (d :: nat)"
  by simp

lemma list_at: "[a, b, c, d] ! 1 = b" "[a, b, c, d] ! 2 = c" "[a, b, c, d] ! 3 = d"
  by simp_all

lemma group_roundtrip:
  assumes "c \<noteq> []" "length c \<le> 3"
  shows "unbase64_group (base64_group c) = c" "CHR 0x0A \<notin> set (base64_group c)"
proof -
  define a b d :: nat where "a = of_char (c ! 0)" and "b = (if 1 < length c then of_char (c ! 1) else 0)"
    and "d = (if 2 < length c then of_char (c ! 2) else 0)"
  have lt: "a < 256" "b < 256" "d < 256" by (simp_all add: a_def b_def d_def)
  define n where "n = a * 2 ^ 16 + b * 2 ^ 8 + d"
  have n: "n < 2 ^ 24" using lt by (simp add: n_def)
  have n2: "n = (a * 256 + b) * 256 + d" by (simp add: n_def)
  have low: "n div 2 ^ 8 = a * 256 + b" "n mod 256 = d"
    using byte_split [OF lt(3), of "a * 256 + b"] by (auto simp: n2)
  have bytes: "n div 2 ^ 16 = a" "n div 2 ^ 8 mod 256 = b" "n mod 256 = d"
    using byte_split [OF lt(2), of a] low div_mult2_eq [of n 256 256] by auto
  define f where "f i = (if i \<le> length c then ALPHABET ! (n div 2 ^ (18 - 6 * i) mod 64) else CHR ''='')" for i
  have g: "base64_group c = [f 0, f 1, f 2, f 3]"
    by (simp add: base64_group_def f_def n_def a_def b_def d_def Let_def)
  show "CHR 0x0A \<notin> set (base64_group c)"
    unfolding g by (auto simp: f_def alphabet(3) [symmetric] dest: sym)
  have pad: "f i = CHR ''='' \<longleftrightarrow> length c < i" for i
    by (simp add: f_def alphabet(2))
  have "n div 2 ^ (18 - 6 * i) mod 64 = 0" if i: "length c < i" "i \<le> 3" for i
  proof -
    from assms(1) have "0 < length c" by simp
    with i have "length c = 1 \<and> i = 2 \<or> i = 3 \<and> \<not> 2 < length c" by linarith
    then have "length c = 1 \<and> i = 2 \<or> i = 3 \<and> d = 0" by (auto simp: d_def)
    moreover have "length c = 1 \<Longrightarrow> n = 4096 * (a * 16)" by (simp add: n_def b_def d_def)
    moreover have "d = 0 \<Longrightarrow> n = 64 * (a * 1024 + b * 4)" by (simp add: n_def)
    ultimately show ?thesis by auto
  qed
  then have digit: "i \<le> 3 \<Longrightarrow> unbase64_char (f i) = n div 2 ^ (18 - 6 * i) mod 64" for i
    by (auto simp: f_def alphabet(1)) (simp add: unbase64_char_def)
  have digits: "unbase64_char (f 0) = n div 2 ^ 18 mod 64" "unbase64_char (f 1) = n div 2 ^ 12 mod 64"
    "unbase64_char (f 2) = n div 2 ^ 6 mod 64" "unbase64_char (f 3) = n mod 64"
    using digit [of 0] digit [of 1] digit [of 2] digit [of 3] by simp_all
  have "unbase64_group [f 0, f 1, f 2, f 3]
      = take (3 - length (filter (\<lambda>c. c = CHR ''='') [f 0, f 1, f 2, f 3])) [char_of a, char_of b, char_of d]"
  proof -
    have "unbase64_char (f 0) * 2 ^ 18 + unbase64_char (f 1) * 2 ^ 12 + unbase64_char (f 2) * 2 ^ 6 + unbase64_char (f 3) = n"
      using group_digits [OF n] digits by (simp only:)
    then show ?thesis by (simp only: unbase64_group_def Let_def nth_Cons_0 list_at bytes)
  qed
  also have "\<dots> = c" unfolding filter.simps pad a_def b_def d_def using assms
    by (auto simp: neq_Nil_conv length_Suc_conv le_Suc_eq numeral_3_eq_3)
  finally show "unbase64_group (base64_group c) = c" by (simp only: g)
qed

lemma groups_clean:
  "CHR 0x0A \<notin> set (concat (map base64_group (chunks 3 line)))"
  using group_roundtrip(2) chunks_sizes [of 3 _ line] by fastforce

lemma strip_lines:
  "filter (\<lambda>c. c \<noteq> CHR 0x0A) (concat (map (\<lambda>line. concat (map base64_group (chunks 3 line)) @ [CHR 0x0A]) ls))
     = concat (map base64_group (concat (map (chunks 3) ls)))"
proof (induction ls)
  case (Cons l ls)
  moreover have "filter (\<lambda>c. c \<noteq> CHR 0x0A) (concat (map base64_group (chunks 3 l))) = concat (map base64_group (chunks 3 l))"
    using groups_clean [of l] by (intro filter_True) metis
  ultimately show ?case by simp
qed simp

lemma groups_decode:
  assumes "list_all (\<lambda>c. c \<noteq> [] \<and> length c \<le> 3) cs"
  shows "concat (map unbase64_group (chunks 4 (concat (map base64_group cs)))) = concat cs"
proof -
  have "chunks 4 (concat (map base64_group cs)) = map base64_group cs"
    by (rule chunks_concat) (auto simp: list_all_iff group_shape)
  moreover have "map (\<lambda>c. unbase64_group (base64_group c)) cs = cs"
    using assms by (intro map_idI) (auto simp: list_all_iff group_roundtrip(1))
  ultimately show ?thesis by (simp add: comp_def)
qed

lemma encoded_line_length: "length (concat (map base64_group cs)) = 4 * length cs"
  by (induction cs) (simp_all add: group_shape)

lemma length_chunks: "0 < n \<Longrightarrow> n * length (chunks n xs) < length xs + n"
proof (induction n xs rule: chunks.induct)
  case (1 n xs)
  show ?case
  proof (cases "n < length xs")
    case True
    then have "xs \<noteq> []" by auto
    with 1 True have "n * length (chunks n (drop n xs)) < length xs" by auto
    with True 1(2) show ?thesis by (subst chunks.simps) auto
  next
    case False
    then have "chunks n (drop n xs) = []" by (simp add: chunks.simps)
    with 1(2) show ?thesis by (subst chunks.simps) simp
  qed
qed

lemma rechunk: "concat (concat (map (chunks 3) ls)) = concat ls"
  by (induction ls) (simp_all add: concat_chunks)


section \<open>Retries end\<close>

definition starts :: "'v drive_input \<Rightarrow> drive_state \<Rightarrow> bool" where
  "starts i s \<longleftrightarrow> dv_running s = None \<and> dv_running (drive i s) \<noteq> None"

fun submissions :: "'v drive_input list \<Rightarrow> drive_state \<Rightarrow> nat" where
  "submissions [] s = 0"
| "submissions (i # is) s = (if starts i s then 1 else 0) + submissions is (drive i s)"

fun is_close :: "'v drive_input \<Rightarrow> bool" where
  "is_close (BatchClosed _ _ _) = True"
| "is_close _ = False"

text \<open>The submissions the messages a state holds can still give.\<close>

definition tries :: "message list \<Rightarrow> nat" where
  "tries ms = sum_list (map (\<lambda>x. 4 - ms_failures x) ms)"

definition tries_left :: "drive_state \<Rightarrow> nat" where
  "tries_left s = tries (ml_waiting (dv_mail s)) + (case dv_running s of None \<Rightarrow> 0 | Some (x, _) \<Rightarrow> 3 - ms_failures x)"

definition few_failures :: "drive_state \<Rightarrow> bool" where
  "few_failures s \<longleftrightarrow> (\<forall>x\<in>set (ml_waiting (dv_mail s)). ms_failures x \<le> 3)"

lemma wait_evict_suffix: "\<exists>ds. ms = ds @ wait_evict ms"
proof (induction ms)
  case (Cons m ms)
  then obtain ds where "ms = ds @ wait_evict ms" by blast
  then have "m # ms = (m # ds) @ wait_evict ms" by simp
  then show ?case by (metis wait_evict.simps(2) append_Nil)
qed simp

lemma tries_append [simp]: "tries (xs @ ys) = tries xs + tries ys"
  by (simp add: tries_def)

lemma tries_one [simp]: "tries [x] = 4 - ms_failures x" "tries [] = 0"
  by (simp_all add: tries_def)

lemma mail_wait_tries:
  "tries (ml_waiting (mail_wait x m)) \<le> tries (ml_waiting m) + (4 - ms_failures x)"
  "set (ml_waiting (mail_wait x m)) \<subseteq> insert x (set (ml_waiting m))"
proof -
  obtain ds where ds: "ml_waiting m @ [x] = ds @ ml_waiting (mail_wait x m)"
    using wait_evict_suffix [of "ml_waiting m @ [x]"] by (auto simp: mail_wait_def)
  show "tries (ml_waiting (mail_wait x m)) \<le> tries (ml_waiting m) + (4 - ms_failures x)"
    using arg_cong [OF ds, of tries] by simp
  show "set (ml_waiting (mail_wait x m)) \<subseteq> insert x (set (ml_waiting m))"
    using arg_cong [OF ds, of set] by auto
qed

lemma retry_none: "times_retry t n = None \<longleftrightarrow> 3 \<le> n"
  by (auto simp: times_retry_def RETRY_MINUTES_def split: option.splits)

lemma finished_shape:
  "ml_waiting (finished x result now retry m) = ml_waiting m
   \<or> (\<exists>y m'. ms_failures x < 3 \<and> ms_failures y = ms_failures x + 1 \<and> ml_waiting m' = ml_waiting m
        \<and> finished x result now retry m = mail_wait y m')"
proof (cases "times_retry (ml_times m) (ms_failures x)")
  case (Some d)
  then have "ms_failures x < 3" using retry_none [of "ml_times m" "ms_failures x"] by auto
  with Some show ?thesis
    by (auto simp: finished_def mail_failed_def Let_def split: submitted.splits
        intro!: exI [of _ "x\<lparr>ms_failures := Suc (ms_failures x), ms_due := now + int d\<rparr>"] exI [of _ "m\<lparr>ml_failures := Suc (ml_failures m)\<rparr>"])
qed (simp add: finished_def mail_failed_def Let_def split: submitted.splits)

lemma joined_tries:
  assumes "r = w \<or> (\<exists>y m'. ms_failures y \<le> 3 \<and> 4 - ms_failures y \<le> k \<and> ml_waiting m' = w \<and> r = ml_waiting (mail_wait y m'))"
  shows "tries r \<le> tries w + k" "\<forall>y\<in>set w. ms_failures y \<le> 3 \<Longrightarrow> \<forall>y\<in>set r. ms_failures y \<le> 3"
proof -
  consider "r = w" | y m' where "ms_failures y \<le> 3" "4 - ms_failures y \<le> k" "ml_waiting m' = w" "r = ml_waiting (mail_wait y m')"
    using assms by blast
  then have "tries r \<le> tries w + k \<and> ((\<forall>y\<in>set w. ms_failures y \<le> 3) \<longrightarrow> (\<forall>y\<in>set r. ms_failures y \<le> 3))"
  proof cases
    case 2
    with mail_wait_tries [of y m'] show ?thesis by auto
  qed simp
  then show "tries r \<le> tries w + k" "\<forall>y\<in>set w. ms_failures y \<le> 3 \<Longrightarrow> \<forall>y\<in>set r. ms_failures y \<le> 3" by blast+
qed

lemma finished_joined:
  "ml_waiting (finished x result now retry m) = ml_waiting m
   \<or> (\<exists>y m'. ms_failures y \<le> 3 \<and> 4 - ms_failures y \<le> 3 - ms_failures x \<and> ml_waiting m' = ml_waiting m
        \<and> ml_waiting (finished x result now retry m) = ml_waiting (mail_wait y m'))"
proof (rule disjE [OF finished_shape [of x result now retry m]])
  assume "\<exists>y m'. ms_failures x < 3 \<and> ms_failures y = ms_failures x + 1 \<and> ml_waiting m' = ml_waiting m
        \<and> finished x result now retry m = mail_wait y m'"
  then obtain y m' where "ms_failures x < 3" "ms_failures y = ms_failures x + 1" "ml_waiting m' = ml_waiting m"
    "finished x result now retry m = mail_wait y m'" by blast
  then show ?thesis by (intro disjI2 exI [of _ y] exI [of _ m']) simp
qed simp

lemmas finished_tries = joined_tries [OF finished_joined]

lemma close_batch_shape:
  "ml_waiting (close_batch now date email host m) = ml_waiting m
   \<or> (\<exists>x m'. ms_failures x = 0 \<and> ml_waiting m' = ml_waiting m \<and> close_batch now date email host m = mail_wait x m')"
proof (cases "ml_batch m")
  case (Some b)
  obtain r a where a: "admit now (e_max_per_hour email) (times_hour (ml_times m)) (ml_admission m) = (r, a)" by fastforce
  have join: "\<exists>x. ms_failures x = 0 \<and> (\<exists>m'. ml_waiting m' = ml_waiting m \<and> mail_wait y n = mail_wait x m')"
    if "ms_failures y = 0" "ml_waiting n = ml_waiting m" for y n
    using that by blast
  show ?thesis
  proof (cases "is_yes r \<or> r = AdmitNo True")
    case True
    with Some a show ?thesis
      by (intro disjI2; cases r) (simp_all add: close_batch_def mail_message_def Let_def join)
  qed (cases r; use Some a in \<open>simp add: close_batch_def Let_def\<close>)
qed (simp add: close_batch_def)

lemma close_batch_joined:
  "ml_waiting (close_batch now date email host m) = ml_waiting m
   \<or> (\<exists>y m'. ms_failures y \<le> 3 \<and> 4 - ms_failures y \<le> 4 \<and> ml_waiting m' = ml_waiting m
        \<and> ml_waiting (close_batch now date email host m) = ml_waiting (mail_wait y m'))"
proof (rule disjE [OF close_batch_shape [of now date email host m]])
  assume "\<exists>x m'. ms_failures x = 0 \<and> ml_waiting m' = ml_waiting m \<and> close_batch now date email host m = mail_wait x m'"
  then obtain y m' where "ms_failures y = 0" "ml_waiting m' = ml_waiting m" "close_batch now date email host m = mail_wait y m'"
    by blast
  then show ?thesis by (intro disjI2 exI [of _ y] exI [of _ m']) simp
qed simp

lemmas close_batch_tries = joined_tries [OF close_batch_joined]

lemma best_in: "fold (\<lambda>j best. if f j < f best then j else best) is i \<in> insert i (set is)"
  by (induction "is" arbitrary: i) (auto split: if_splits)

lemma due_index_bound:
  assumes "due_index now ms = Some i"
  shows "i < length ms"
proof -
  obtain j js where f: "filter (\<lambda>i. ms_due (ms ! i) \<le> now) [0..<length ms] = j # js"
    and i: "i = fold (\<lambda>j best. if ms_due (ms ! j) < ms_due (ms ! best) then j else best) js j"
    using assms by (auto simp: due_index_def split: list.splits)
  have "set (j # js) \<subseteq> {..<length ms}" unfolding f [symmetric] by auto
  with best_in [of "\<lambda>k. ms_due (ms ! k)" js j] show ?thesis by (auto simp: i)
qed

lemma take_due_tries:
  assumes "take_due now m = Some (x, m')"
  shows "x \<in> set (ml_waiting m)" "set (ml_waiting m') \<subseteq> set (ml_waiting m)"
    "tries (ml_waiting m) = tries (ml_waiting m') + (4 - ms_failures x)"
proof -
  obtain i where i: "due_index now (ml_waiting m) = Some i" and x: "x = ml_waiting m ! i"
    and m': "ml_waiting m' = take i (ml_waiting m) @ drop (Suc i) (ml_waiting m)"
    using assms by (auto simp: take_due_def split: option.splits)
  note b = due_index_bound [OF i]
  show "x \<in> set (ml_waiting m)" using b by (simp add: x)
  show "set (ml_waiting m') \<subseteq> set (ml_waiting m)" by (auto simp: m' dest: in_set_takeD in_set_dropD)
  show "tries (ml_waiting m) = tries (ml_waiting m') + (4 - ms_failures x)"
    unfolding m' x by (subst id_take_nth_drop [OF b]) (simp add: tries_def)
qed

lemma drive_step_tries:
  assumes "few_failures s"
  shows "few_failures (drive i s)"
    "(if starts i s then 1 else 0) + tries_left (drive i s) \<le> tries_left s + (if is_close i then 4 else 0)"
proof -
  have "few_failures (drive i s)
    \<and> (if starts i s then 1 else 0) + tries_left (drive i s) \<le> tries_left s + (if is_close i then 4 else 0)"
  proof (cases i)
    case (ConfigChanged cfg)
    with assms show ?thesis by (auto simp: few_failures_def tries_left_def starts_def mail_discard_def)
  next
    case (SubmissionEnded result now)
    with assms finished_tries [where result = result and now = now and retry = "n_email (dv_notify s) \<noteq> None" and m = "dv_mail s"] show ?thesis
      by (auto simp: few_failures_def tries_left_def starts_def split: option.splits)
  next
    case (TurnAcquired now)
    show ?thesis
    proof (cases "dv_running s = None \<and> next_due (dv_mail s) \<noteq> None")
      case True
      show ?thesis
      proof (cases "case n_email (dv_notify s) of None \<Rightarrow> None | Some _ \<Rightarrow> take_due now (dv_mail s)")
        case None
        with True TurnAcquired assms show ?thesis
          by (auto simp: few_failures_def tries_left_def starts_def mail_discard_def split: option.splits)
      next
        case (Some xm)
        then obtain x m email where e: "n_email (dv_notify s) = Some email" and t: "take_due now (dv_mail s) = Some (x, m)"
          by (cases xm) (auto split: option.splits)
        from assms take_due_tries(1) [OF t] have "ms_failures x \<le> 3" by (auto simp: few_failures_def)
        with True TurnAcquired assms e t take_due_tries [OF t] show ?thesis
          by (auto simp: few_failures_def tries_left_def starts_def)
      qed
    qed (use TurnAcquired assms in \<open>auto simp: starts_def\<close>)
  next
    case (BatchClosed now date host)
    with assms close_batch_tries [where now = now and date = date and host = host and m = "dv_mail s"] show ?thesis
      by (auto simp: few_failures_def tries_left_def starts_def mail_discard_def split: option.splits)
  next
    case (EventReceived e now)
    with assms show ?thesis by (auto simp: few_failures_def tries_left_def starts_def mail_add_def Let_def)
  qed
  then show "few_failures (drive i s)"
    "(if starts i s then 1 else 0) + tries_left (drive i s) \<le> tries_left s + (if is_close i then 4 else 0)" by blast+
qed

lemma submissions_tries:
  "few_failures s \<Longrightarrow> submissions is s \<le> tries_left s + 4 * length (filter is_close is)"
proof (induction "is" arbitrary: s)
  case (Cons i "is")
  from drive_step_tries [OF Cons.prems, of i] Cons.IH [of "drive i s"] show ?case by (auto split: if_splits)
qed simp

text \<open>C34. Retries end: over any sequence of what the mail notifier reacts to, reloads, ends of submissions, its turns, events and closed
  batches, in any order, sendmail is started at most four times for each batch closed: once, and after each of the three delays.
  Without new batches the notifier comes to rest.\<close>

theorem submissions_bounded:
  "submissions is \<lparr>dv_mail = mail_new inst t, dv_notify = cfg, dv_running = None\<rparr> \<le> 4 * length (filter is_close is)"
  using submissions_tries [of "\<lparr>dv_mail = mail_new inst t, dv_notify = cfg, dv_running = None\<rparr>" "is"]
  by (simp add: few_failures_def tries_left_def mail_new_def)

end
