(* ===== verification/Spec2Isabelle.thy ===== *)
theory Spec2Isabelle
  imports Prelude Model Durations Float64 Config Health Select Quality Plan Fib Netlink_Msg Nexthop
    System_View Reconcile Convergence Discover Probe Addresses Raw_Config Validate Accepted Manifest Sysctl Persist
    Rendering Nft Marking Events Calendar Mail
begin

text \<open>
  PolyWAN.
\<close>

end
